(* ===== verification/Prelude.thy ===== *)
theory Prelude
  imports Main "HOL-Library.AList" "HOL-Library.Word" "HOL-Library.Char_ord"
    "HOL-Library.List_Lexorder"
begin

text \<open>
  Shared vocabulary of the development: the type synonyms of the model, the association-list
  model of the standard library's hash maps with its interface, labelled transition systems with
  their invariant and stability rules, and a few facts on lists that several components use.
\<close>

section \<open>Names and automation\<close>

text \<open>
  \<open>time\<close> is a \<open>SystemTime\<close> or an \<open>Instant\<close>, in ticks since an arbitrary epoch.
  \<open>now.duration_since(t).unwrap_or_default()\<close> is the truncated difference of two such values:
  the code turns the error for a \<open>t\<close> in the future into a zero duration, and so does subtraction
  on natural numbers.  A \<open>conn\<close> identifies one worker socket (the identity of its shared sink), a
  \<open>chan\<close> one in-process channel (\<open>oneshot\<close> or \<open>mpsc\<close>).
\<close>

type_synonym time = nat
type_synonym conn = nat
type_synonym chan = nat
type_synonym byte = "8 word"
type_synonym bytes = "8 word list"
type_synonym i32 = int

abbreviation (input) duration_since :: "time \<Rightarrow> time \<Rightarrow> nat" where
  "duration_since now t \<equiv> now - t"

named_theorems hmap_simps \<open>lookup laws of the hash-map operations\<close>
named_theorems hmap_wf \<open>key-distinctness of the hash-map operations\<close>

section \<open>Hash maps\<close>

text \<open>
  \<open>std::collections::HashMap\<close> and \<open>BTreeMap\<close> as association lists with distinct keys.  The order
  of the list is one of the iteration orders a \<open>HashMap\<close> may have.
\<close>

type_synonym ('k, 'v) hmap = "('k \<times> 'v) list"

definition hget :: "('k, 'v) hmap \<Rightarrow> 'k \<Rightarrow> 'v option" where
  "hget m k = map_of m k"

definition hput :: "'k \<Rightarrow> 'v \<Rightarrow> ('k, 'v) hmap \<Rightarrow> ('k, 'v) hmap" where
  "hput k v m = AList.update k v m"

definition hdel :: "'k \<Rightarrow> ('k, 'v) hmap \<Rightarrow> ('k, 'v) hmap" where
  "hdel k m = AList.delete k m"

definition hretain :: "('k \<Rightarrow> 'v \<Rightarrow> bool) \<Rightarrow> ('k, 'v) hmap \<Rightarrow> ('k, 'v) hmap" where
  "hretain P m = filter (\<lambda>(k, v). P k v) m"

definition hmod :: "'k \<Rightarrow> ('v \<Rightarrow> 'v) \<Rightarrow> ('k, 'v) hmap \<Rightarrow> ('k, 'v) hmap" where
  "hmod k f m = (case hget m k of None \<Rightarrow> m | Some v \<Rightarrow> hput k (f v) m)"

definition hhas :: "('k, 'v) hmap \<Rightarrow> 'k \<Rightarrow> bool" where
  "hhas m k \<longleftrightarrow> hget m k \<noteq> None"

definition hwf :: "('k, 'v) hmap \<Rightarrow> bool" where
  "hwf m \<longleftrightarrow> distinct (map fst m)"

lemma hget_Nil [simp, hmap_simps]: "hget [] k = None"
  by (simp add: hget_def)

lemma hget_Cons [hmap_simps]: "hget ((k, v) # m) x = (if x = k then Some v else hget m x)"
  by (simp add: hget_def)

lemma hget_hput [simp, hmap_simps]: "hget (hput k v m) x = (if x = k then Some v else hget m x)"
  by (simp add: hget_def hput_def update_conv')

lemma hget_hdel [simp, hmap_simps]: "hget (hdel k m) x = (if x = k then None else hget m x)"
  by (simp add: hget_def hdel_def delete_conv')

lemma hget_hmod [simp, hmap_simps]:
  "hget (hmod k f m) x = (if x = k then map_option f (hget m k) else hget m x)"
  by (auto simp: hmod_def split: option.splits)

lemma hwf_Nil [simp, hmap_wf]: "hwf []"
  by (simp add: hwf_def)

lemma hwf_hput [simp, hmap_wf]: "hwf m \<Longrightarrow> hwf (hput k v m)"
  by (simp add: hwf_def hput_def distinct_update)

lemma hwf_hdel [simp, hmap_wf]: "hwf m \<Longrightarrow> hwf (hdel k m)"
  by (simp add: hwf_def hdel_def distinct_delete)

lemma hwf_hmod [simp, hmap_wf]: "hwf m \<Longrightarrow> hwf (hmod k f m)"
  by (simp add: hmod_def split: option.splits)

lemma hwf_hretain [simp, hmap_wf]: "hwf m \<Longrightarrow> hwf (hretain P m)"
  by (simp add: hwf_def hretain_def distinct_map_filter)

lemma in_set_hget: "hwf m \<Longrightarrow> (k, v) \<in> set m \<longleftrightarrow> hget m k = Some v"
  by (simp add: hget_def hwf_def)

lemma hget_in_set: "hget m k = Some v \<Longrightarrow> (k, v) \<in> set m"
  by (simp add: hget_def map_of_SomeD)

lemma in_set_hhas: "(k, v) \<in> set m \<Longrightarrow> hhas m k"
  by (auto simp: hhas_def hget_def map_of_eq_None_iff rev_image_eqI)

lemma hget_hretain [simp, hmap_simps]:
  assumes "hwf m"
  shows "hget (hretain P m) k =
    (case hget m k of None \<Rightarrow> None | Some v \<Rightarrow> if P k v then Some v else None)"
proof -
  have key: "hget (hretain P m) k = Some v \<longleftrightarrow> hget m k = Some v \<and> P k v" for v
    using in_set_hget [OF hwf_hretain [OF assms, of P], of k v] in_set_hget [OF assms, of k v]
    by (simp add: hretain_def)
  show ?thesis
  proof (cases "hget (hretain P m) k")
    case None
    with key show ?thesis by (auto split: option.split)
  next
    case (Some v)
    with key [of v] show ?thesis by simp
  qed
qed

lemma hdel_absent: "hget m k = None \<Longrightarrow> hdel k m = m"
  by (simp add: hget_def hdel_def map_of_eq_None_iff)

lemma hput_fresh: "hget m k = None \<Longrightarrow> hput k v m = m @ [(k, v)]"
  by (induction m) (auto simp: hget_def hput_def split: if_splits)

lemma hhas_simps [simp, hmap_simps]:
  "\<not> hhas [] k"
  "hhas (hput k v m) x \<longleftrightarrow> x = k \<or> hhas m x"
  "hhas (hdel k m) x \<longleftrightarrow> x \<noteq> k \<and> hhas m x"
  "hhas (hmod k f m) x \<longleftrightarrow> hhas m x"
  by (auto simp: hhas_def)

text \<open>The number of entries that satisfy a predicate, and how the operations change it.\<close>

definition hcount :: "('k \<Rightarrow> 'v \<Rightarrow> bool) \<Rightarrow> ('k, 'v) hmap \<Rightarrow> nat" where
  "hcount P m = length (hretain P m)"

lemma hcount_Nil [simp]: "hcount P [] = 0"
  by (simp add: hcount_def hretain_def)

lemma hcount_hput_fresh [simp]:
  "hget m k = None \<Longrightarrow> hcount P (hput k v m) = hcount P m + (if P k v then 1 else 0)"
  by (simp add: hcount_def hretain_def hput_fresh)

lemma hcount_hdel [simp]:
  "hwf m \<Longrightarrow> hget m k = Some v \<Longrightarrow> hcount P (hdel k m) = hcount P m - (if P k v then 1 else 0)"
proof (induction m)
  case Nil
  then show ?case by simp
next
  case (Cons x m)
  obtain k' v' where x: "x = (k', v')" by (cases x)
  show ?case
  proof (cases "k' = k")
    case True
    with Cons.prems x have "hdel k (x # m) = m" and "v' = v"
      by (auto simp: hwf_def hget_def hdel_def)
    with x True show ?thesis by (simp add: hcount_def hretain_def)
  next
    case False
    with Cons.prems x have m: "hwf m" "hget m k = Some v" by (auto simp: hwf_def hget_def)
    have "P k v \<Longrightarrow> 0 < hcount P m"
      using m hget_in_set [of m k v]
      by (auto simp: hcount_def hretain_def length_greater_0_conv filter_empty_conv)
    moreover have "hcount P (hdel k (x # m)) = (if P k' v' then 1 else 0) + hcount P (hdel k m)"
      using False x by (simp add: hcount_def hretain_def hdel_def)
    ultimately show ?thesis
      using Cons.IH [OF m] x by (auto simp: hcount_def hretain_def)
  qed
qed

lemma hcount_hretain: "hcount P (hretain Q m) = hcount (\<lambda>k v. Q k v \<and> P k v) m"
  by (simp add: hcount_def hretain_def case_prod_unfold conj_commute)

lemma hcount_cong:
  "(\<And>k v. (k, v) \<in> set m \<Longrightarrow> P k v = Q k v) \<Longrightarrow> hcount P m = hcount Q m"
  unfolding hcount_def hretain_def by (intro arg_cong [where f = length] filter_cong) auto

lemma hcount_zero: "hcount P m = 0 \<longleftrightarrow> (\<forall>(k, v) \<in> set m. \<not> P k v)"
  by (auto simp: hcount_def hretain_def filter_empty_conv)

subsection \<open>The interface\<close>

text \<open>
  What the components rely on: the lookup laws of the three writes.  The lemmas in the block are
  proved from these laws alone, so they hold for any container that keeps them.
\<close>

locale hash_map =
  fixes emp :: "'m"
    and get :: "'m \<Rightarrow> 'k \<Rightarrow> 'v option"
    and put :: "'k \<Rightarrow> 'v \<Rightarrow> 'm \<Rightarrow> 'm"
    and del :: "'k \<Rightarrow> 'm \<Rightarrow> 'm"
    and retain :: "('k \<Rightarrow> 'v \<Rightarrow> bool) \<Rightarrow> 'm \<Rightarrow> 'm"
    and wf :: "'m \<Rightarrow> bool"
  assumes get_emp: "get emp k = None"
    and get_put: "wf m \<Longrightarrow> get (put k v m) x = (if x = k then Some v else get m x)"
    and get_del: "wf m \<Longrightarrow> get (del k m) x = (if x = k then None else get m x)"
    and get_retain: "wf m \<Longrightarrow>
      get (retain P m) x = (case get m x of None \<Rightarrow> None | Some v \<Rightarrow> if P x v then Some v else None)"
    and wf_emp: "wf emp"
    and wf_put: "wf m \<Longrightarrow> wf (put k v m)"
    and wf_del: "wf m \<Longrightarrow> wf (del k m)"
    and wf_retain: "wf m \<Longrightarrow> wf (retain P m)"
begin

lemma put_del_get: "wf m \<Longrightarrow> get (del k (put k v m)) x = get (del k m) x"
  by (simp add: get_put get_del wf_put)

lemma retain_monotone: "wf m \<Longrightarrow> get (retain P m) k = Some v \<Longrightarrow> get m k = Some v"
  by (simp add: get_retain split: option.splits if_splits)

lemma retain_drops: "wf m \<Longrightarrow> get m k = Some v \<Longrightarrow> \<not> P k v \<Longrightarrow> get (retain P m) k = None"
  by (simp add: get_retain)

lemma retain_keeps: "wf m \<Longrightarrow> get m k = Some v \<Longrightarrow> P k v \<Longrightarrow> get (retain P m) k = Some v"
  by (simp add: get_retain)

lemma del_monotone: "wf m \<Longrightarrow> get (del k m) x = Some v \<Longrightarrow> get m x = Some v"
  by (simp add: get_del split: if_splits)

end

interpretation hm: hash_map "[]" hget hput hdel hretain hwf
  by unfold_locales simp_all

section \<open>Labelled transition systems\<close>

text \<open>
  A component with state is an initial state predicate and a step relation labelled with events;
  its reachable states and its runs are the least ones closed under steps.
\<close>

inductive reachable :: "('s \<Rightarrow> bool) \<Rightarrow> ('s \<Rightarrow> 'e \<Rightarrow> 's \<Rightarrow> bool) \<Rightarrow> 's \<Rightarrow> bool"
  for init :: "'s \<Rightarrow> bool" and step :: "'s \<Rightarrow> 'e \<Rightarrow> 's \<Rightarrow> bool" where
  reach_init: "init s \<Longrightarrow> reachable init step s"
| reach_step: "reachable init step s \<Longrightarrow> step s e t \<Longrightarrow> reachable init step t"

inductive run :: "('s \<Rightarrow> 'e \<Rightarrow> 's \<Rightarrow> bool) \<Rightarrow> 's \<Rightarrow> 'e list \<Rightarrow> 's \<Rightarrow> bool"
  for step :: "'s \<Rightarrow> 'e \<Rightarrow> 's \<Rightarrow> bool" where
  run_nil: "run step s [] s"
| run_cons: "step s e t \<Longrightarrow> run step t es u \<Longrightarrow> run step s (e # es) u"

inductive_simps run_Nil_iff [simp]: "run step s [] t"
inductive_simps run_Cons_iff: "run step s (e # es) t"

lemma run_reachable: "run step s es t \<Longrightarrow> reachable init step s \<Longrightarrow> reachable init step t"
  by (induction rule: run.induct) (auto intro: reach_step)

lemma run_append: "run step s es t \<Longrightarrow> run step t fs u \<Longrightarrow> run step s (es @ fs) u"
  by (induction rule: run.induct) (auto intro: run_cons)

text \<open>An invariant: it holds initially and every step keeps it.\<close>

locale step_invariant =
  fixes init :: "'s \<Rightarrow> bool" and step :: "'s \<Rightarrow> 'e \<Rightarrow> 's \<Rightarrow> bool" and inv :: "'s \<Rightarrow> bool"
  assumes inv_init: "init s \<Longrightarrow> inv s"
    and inv_step: "inv s \<Longrightarrow> step s e t \<Longrightarrow> inv t"
begin

lemma inv_reachable: "reachable init step s \<Longrightarrow> inv s"
  by (induction rule: reachable.induct) (auto intro: inv_init inv_step)

lemma inv_run: "run step s es t \<Longrightarrow> inv s \<Longrightarrow> inv t"
  by (induction rule: run.induct) (auto intro: inv_step)

end

text \<open>
  A fact that, once true, no step from a state of the invariant can make false: the shape of
  every "final", "never changes" and "never comes back" property.
\<close>

locale stable_fact = step_invariant init step inv
  for init :: "'s \<Rightarrow> bool" and step :: "'s \<Rightarrow> 'e \<Rightarrow> 's \<Rightarrow> bool" and inv :: "'s \<Rightarrow> bool" +
  fixes fact :: "'p \<Rightarrow> 's \<Rightarrow> bool"
  assumes fact_step: "inv s \<Longrightarrow> fact p s \<Longrightarrow> step s e t \<Longrightarrow> fact p t"
begin

lemma fact_run: "run step s es t \<Longrightarrow> inv s \<Longrightarrow> fact p s \<Longrightarrow> fact p t"
  by (induction rule: run.induct) (auto intro: inv_step fact_step)

end

section \<open>Sums and lists\<close>

lemma Inl_neq_case [simp]: "(case r of Inl e \<Rightarrow> Inl (f e) | Inr a \<Rightarrow> Inr (g a)) = Inl x \<longleftrightarrow>
    (\<exists>e. r = Inl e \<and> x = f e)"
  by (auto split: sum.splits)

text \<open>
  Rust's \<open>iter().position(p)\<close> followed by \<open>remove\<close>: the first element with the property and the
  list without it.
\<close>

fun take_first :: "('a \<Rightarrow> bool) \<Rightarrow> 'a list \<Rightarrow> ('a \<times> 'a list) option" where
  "take_first p [] = None"
| "take_first p (x # xs) =
     (if p x then Some (x, xs) else map_option (\<lambda>(y, ys). (y, x # ys)) (take_first p xs))"

lemma take_first_None: "take_first p xs = None \<longleftrightarrow> (\<forall>x \<in> set xs. \<not> p x)"
  by (induction xs) auto

lemma take_first_Some:
  assumes "take_first p xs = Some (y, ys)"
  obtains as bs where "xs = as @ y # bs" "ys = as @ bs" "p y" "\<forall>x \<in> set as. \<not> p x"
proof -
  have "\<exists>as bs. xs = as @ y # bs \<and> ys = as @ bs \<and> p y \<and> (\<forall>x \<in> set as. \<not> p x)"
    using assms
  proof (induction xs arbitrary: ys)
    case Nil
    then show ?case by simp
  next
    case (Cons x xs)
    show ?case
    proof (cases "p x")
      case True
      with Cons.prems show ?thesis by (intro exI [of _ "[]"] exI [of _ ys]) auto
    next
      case False
      with Cons.prems obtain zs where zs: "take_first p xs = Some (y, zs)" "ys = x # zs" by auto
      from Cons.IH [OF zs(1)] obtain as bs
        where "xs = as @ y # bs" "zs = as @ bs" "p y" "\<forall>x \<in> set as. \<not> p x" by blast
      with False zs(2) show ?thesis by (intro exI [of _ "x # as"] exI [of _ bs]) auto
    qed
  qed
  with that show thesis by blast
qed

end
