(* ===== verification/WireApi.thy ===== *)
theory WireApi
  imports Prelude
begin

unbundle bit_operations_syntax

text \<open>
  The contract between server and worker, \<open>shiitake-worker-api/src/lib.rs\<close>: the three identifier
  newtypes with their derived order, the \<open>DropTo\<close> directive, the frames, and the binary output
  chunk with its encoder and decoder.  The JSON encoding of the frames is serde's and is not
  modelled: a text message carries a value of the datatype \<open>frame\<close>.

  A Rust \<open>String\<close> is modelled by its UTF-8 bytes, one \<open>char\<close> per byte, so lengths count bytes as
  \<open>String::len\<close> does.  \<open>from_utf8\<close> is the standard library's check, written out.
\<close>

section \<open>Identifiers\<close>

datatype worker_id = WorkerId (wid_str: string)
datatype exec_id = ExecId (eid_str: string)
datatype session_id = SessionId (sid_str: string)

text \<open>\<open>#[derive(PartialOrd, Ord)]\<close> on a newtype compares the inner strings.\<close>

instantiation exec_id :: linorder
begin
definition less_eq_exec_id :: "exec_id \<Rightarrow> exec_id \<Rightarrow> bool" where
  "less_eq_exec_id a b \<longleftrightarrow> eid_str a \<le> eid_str b"
definition less_exec_id :: "exec_id \<Rightarrow> exec_id \<Rightarrow> bool" where
  "less_exec_id a b \<longleftrightarrow> eid_str a < eid_str b"
instance
  by standard (auto simp: less_eq_exec_id_def less_exec_id_def exec_id.expand)
end

instantiation worker_id :: linorder
begin
definition less_eq_worker_id :: "worker_id \<Rightarrow> worker_id \<Rightarrow> bool" where
  "less_eq_worker_id a b \<longleftrightarrow> wid_str a \<le> wid_str b"
definition less_worker_id :: "worker_id \<Rightarrow> worker_id \<Rightarrow> bool" where
  "less_worker_id a b \<longleftrightarrow> wid_str a < wid_str b"
instance
  by standard (auto simp: less_eq_worker_id_def less_worker_id_def worker_id.expand)
end

instantiation session_id :: linorder
begin
definition less_eq_session_id :: "session_id \<Rightarrow> session_id \<Rightarrow> bool" where
  "less_eq_session_id a b \<longleftrightarrow> sid_str a \<le> sid_str b"
definition less_session_id :: "session_id \<Rightarrow> session_id \<Rightarrow> bool" where
  "less_session_id a b \<longleftrightarrow> sid_str a < sid_str b"
instance
  by standard (auto simp: less_eq_session_id_def less_session_id_def session_id.expand)
end

definition default_profile :: string where
  "default_profile = ''default''"

definition is_default_profile :: "string \<Rightarrow> bool" where
  "is_default_profile profile \<longleftrightarrow> profile = ''default''"

section \<open>Frames\<close>

record drop_to =
  uid :: "32 word"
  gid :: "32 word"
  supplementary_gids :: "32 word list"
  umask :: "32 word option"
  login_name :: "string option"
  create_home :: bool

record worker_location =
  pod :: string
  namespace :: string
  container :: string

definition PROTOCOL_VERSION :: "16 word" where
  "PROTOCOL_VERSION = 3"

type_synonym env_map = "(string, string) hmap"

record execute_frame =
  request_id :: exec_id
  command :: string
  working_dir :: string
  env :: env_map
  exec_drop_to :: "drop_to option"

record session_open_frame =
  open_session_id :: session_id
  open_working_dir :: string
  open_env :: env_map
  open_drop_to :: "drop_to option"
  open_cols :: "16 word"
  open_rows :: "16 word"

record pty_open_frame =
  pty_session_id :: exec_id
  pty_command :: "string list"
  pty_working_dir :: string
  pty_env :: env_map
  pty_cols :: "16 word"
  pty_rows :: "16 word"
  pty_drop_to :: "drop_to option"

text \<open>The CPU readings are \<open>f64\<close> seconds in the code, taken by \<open>as_secs_f64\<close> from a duration in
  microseconds; the model keeps that duration, since the value is only ever passed on.\<close>

record resource_usage =
  memory_peak_bytes :: "64 word option"
  memory_limit_bytes :: "64 word option"
  cpu_user_seconds :: "nat option"
  cpu_system_seconds :: "nat option"

definition default_usage :: resource_usage where
  "default_usage = \<lparr>memory_peak_bytes = None, memory_limit_bytes = None,
     cpu_user_seconds = None, cpu_system_seconds = None\<rparr>"

record result_frame =
  res_request_id :: exec_id
  res_exit_code :: "i32 option"
  res_exit_signal :: "i32 option"
  res_cancelled :: bool
  res_usage :: resource_usage
  res_error :: "string option"

definition errored :: "exec_id \<Rightarrow> string \<Rightarrow> result_frame" where
  "errored rid message = \<lparr>res_request_id = rid, res_exit_code = None, res_exit_signal = None,
     res_cancelled = False, res_usage = default_usage, res_error = Some message\<rparr>"

text \<open>\<open>SessionCommandMode\<close>, with its \<open>#[default]\<close> variant.\<close>

datatype command_mode = Stateful | Parallel

definition default_mode :: command_mode where
  "default_mode = Stateful"

definition session_reusable_default :: bool where
  "session_reusable_default = True"

datatype frame =
    Hello worker_id "16 word" string "worker_location option"
  | HelloAck "16 word"
  | Execute execute_frame
  | Cancel exec_id
  | Result result_frame
  | SessionOpen session_open_frame
  | SessionReady session_id "string option"
  | SessionRun session_id execute_frame command_mode
  | SessionClose session_id
  | SessionClosed session_id "string option" bool
  | SessionResize session_id "16 word" "16 word"
  | PtyOpen pty_open_frame
  | PtyResize exec_id "16 word" "16 word"
  | PtyClose exec_id
  | PtyExit exec_id "i32 option" "i32 option" "string option"

text \<open>The WebSocket messages the two peers exchange; a text message that does not parse as a frame
  is \<open>BadText\<close>.\<close>

datatype message = Text frame | BadText string | Binary bytes | Ping bytes | Pong bytes | Close

section \<open>UTF-8\<close>

definition as_bytes :: "string \<Rightarrow> bytes" where
  "as_bytes s = map (\<lambda>c. word_of_nat (of_char c)) s"

definition of_bytes :: "bytes \<Rightarrow> string" where
  "of_bytes bs = map (\<lambda>b. char_of (unat b)) bs"

definition is_cont :: "byte \<Rightarrow> bool" where
  "is_cont b \<longleftrightarrow> 0x80 \<le> b \<and> b \<le> 0xBF"

definition second3 :: "byte \<Rightarrow> byte \<Rightarrow> bool" where
  "second3 a b \<longleftrightarrow>
     (if a = 0xE0 then 0xA0 \<le> b \<and> b \<le> 0xBF
      else if a = 0xED then 0x80 \<le> b \<and> b \<le> 0x9F
      else is_cont b)"

definition second4 :: "byte \<Rightarrow> byte \<Rightarrow> bool" where
  "second4 a b \<longleftrightarrow>
     (if a = 0xF0 then 0x90 \<le> b \<and> b \<le> 0xBF
      else if a = 0xF4 then 0x80 \<le> b \<and> b \<le> 0x8F
      else is_cont b)"

fun utf8_valid :: "bytes \<Rightarrow> bool" where
  "utf8_valid [] = True"
| "utf8_valid (a # xs) =
     (if a < 0x80 then utf8_valid xs
      else if 0xC2 \<le> a \<and> a \<le> 0xDF then
        (case xs of b # ys \<Rightarrow> is_cont b \<and> utf8_valid ys | _ \<Rightarrow> False)
      else if 0xE0 \<le> a \<and> a \<le> 0xEF then
        (case xs of b # c # ys \<Rightarrow> second3 a b \<and> is_cont c \<and> utf8_valid ys | _ \<Rightarrow> False)
      else if 0xF0 \<le> a \<and> a \<le> 0xF4 then
        (case xs of b # c # d # ys \<Rightarrow> second4 a b \<and> is_cont c \<and> is_cont d \<and> utf8_valid ys
         | _ \<Rightarrow> False)
      else False)"

definition from_utf8 :: "bytes \<Rightarrow> string option" where
  "from_utf8 bs = (if utf8_valid bs then Some (of_bytes bs) else None)"

definition rust_string :: "string \<Rightarrow> bool" where
  "rust_string s \<longleftrightarrow> utf8_valid (as_bytes s)"

lemma of_bytes_as_bytes [simp]: "of_bytes (as_bytes s) = s"
proof -
  have "char_of (unat (word_of_nat (of_char c) :: byte)) = c" for c :: char
    by (simp add: unat_of_nat take_bit_eq_mod [symmetric] char_of_take_bit_eq)
  then show ?thesis by (induction s) (simp_all add: as_bytes_def of_bytes_def)
qed

lemma as_bytes_of_bytes [simp]: "as_bytes (of_bytes bs) = bs"
proof -
  have "word_of_nat (of_char (char_of (unat b) :: char)) = b" for b :: byte
  proof -
    have "unat b < 256" using unsigned_less [of b] by simp
    then show ?thesis by (simp add: of_char_of)
  qed
  then show ?thesis by (induction bs) (simp_all add: as_bytes_def of_bytes_def)
qed

lemma length_as_bytes [simp]: "length (as_bytes s) = length s"
  by (simp add: as_bytes_def)

lemma from_utf8_as_bytes: "rust_string s \<Longrightarrow> from_utf8 (as_bytes s) = Some s"
  by (simp add: from_utf8_def rust_string_def)

lemma from_utf8_Some: "from_utf8 bs = Some s \<Longrightarrow> as_bytes s = bs \<and> rust_string s"
  by (auto simp: from_utf8_def rust_string_def split: if_splits)

lemma utf8_valid_ascii: "\<forall>b \<in> set bs. b < 0x80 \<Longrightarrow> utf8_valid bs"
  by (induction bs) auto

section \<open>Output chunks\<close>

text \<open>\<open>#[repr(u8)] enum OutputStream\<close> and its \<open>TryFrom<u8>\<close>.\<close>

datatype output_stream = Stdout | Stderr | Terminal | Stdin

fun stream_byte :: "output_stream \<Rightarrow> byte" where
  "stream_byte Stdout = 0"
| "stream_byte Stderr = 1"
| "stream_byte Terminal = 2"
| "stream_byte Stdin = 3"

definition stream_try_from :: "byte \<Rightarrow> string + output_stream" where
  "stream_try_from value =
     (if value = 0 then Inr Stdout
      else if value = 1 then Inr Stderr
      else if value = 2 then Inr Terminal
      else if value = 3 then Inr Stdin
      else Inl ''unknown output stream'')"

record output_chunk =
  chunk_stream :: output_stream
  chunk_id :: string
  chunk_bytes :: bytes

text \<open>\<open>u16::to_be_bytes\<close> and \<open>u16::from_be_bytes\<close>.\<close>

definition to_be_bytes :: "16 word \<Rightarrow> bytes" where
  "to_be_bytes w = [ucast (drop_bit 8 w), ucast w]"

definition from_be_bytes :: "byte \<Rightarrow> byte \<Rightarrow> 16 word" where
  "from_be_bytes h l = push_bit 8 (ucast h) OR ucast l"

text \<open>\<open>OutputChunk::encode\<close>: \<open>None\<close> is the panic of \<open>u16::try_from(len).expect(...)\<close>.\<close>

definition encode :: "output_chunk \<Rightarrow> bytes option" where
  "encode c =
     (let n = length (chunk_id c)
      in if n < 2 ^ 16
         then Some (stream_byte (chunk_stream c) # to_be_bytes (word_of_nat n)
           @ as_bytes (chunk_id c) @ chunk_bytes c)
         else None)"

definition decode :: "bytes \<Rightarrow> string + output_chunk" where
  "decode bs =
     (if length bs < 3 then Inl ''short output header''
      else case stream_try_from (bs ! 0) of
        Inl e \<Rightarrow> Inl e
      | Inr stream \<Rightarrow>
          (let len = unat (from_be_bytes (bs ! 1) (bs ! 2))
           in if length bs < 3 + len then Inl ''short output id''
              else case from_utf8 (take len (drop 3 bs)) of
                None \<Rightarrow> Inl ''invalid output id''
              | Some i \<Rightarrow>
                  Inr \<lparr>chunk_stream = stream, chunk_id = i, chunk_bytes = drop (3 + len) bs\<rparr>))"

lemma stream_round_trip [simp]: "stream_try_from (stream_byte st) = Inr st"
  by (cases st) (simp_all add: stream_try_from_def)

lemma stream_try_from_Inr: "stream_try_from b = Inr st \<Longrightarrow> stream_byte st = b"
  by (auto simp: stream_try_from_def split: if_splits)

lemma from_to_be_bytes [simp]: "from_be_bytes (ucast (drop_bit 8 w)) (ucast w) = w"
  by (rule bit_word_eqI) (auto simp: from_be_bytes_def bit_simps)

lemma to_from_be_bytes: "to_be_bytes (from_be_bytes h l) = [h, l]"
proof -
  have "\<not> bit l (8 + n)" for n
    using bit_imp_le_length [of l "8 + n"] by auto
  then show ?thesis
    unfolding to_be_bytes_def from_be_bytes_def
    by (auto intro!: bit_word_eqI simp: bit_simps dest: bit_imp_le_length)
qed

section \<open>The codec contract\<close>

text \<open>
  What a sender and a receiver of byte messages rely on: an encoder that is total on the admissible
  values, and a decoder that accepts exactly the encodings.
\<close>

locale byte_codec =
  fixes enc :: "'a \<Rightarrow> bytes option" and dec :: "bytes \<Rightarrow> 'e + 'a" and ok :: "'a \<Rightarrow> bool"
  assumes enc_total: "ok a \<Longrightarrow> \<exists>bs. enc a = Some bs"
    and dec_enc: "ok a \<Longrightarrow> enc a = Some bs \<Longrightarrow> dec bs = Inr a"
    and enc_dec: "dec bs = Inr a \<Longrightarrow> ok a \<and> enc a = Some bs"
begin

lemma dec_iff: "ok a \<Longrightarrow> dec bs = Inr a \<longleftrightarrow> enc a = Some bs"
  using dec_enc enc_dec by blast

lemma enc_inj: "ok a \<Longrightarrow> ok b \<Longrightarrow> enc a = enc b \<Longrightarrow> a = b"
  using enc_total [of a] dec_enc [of a] dec_enc [of b] by fastforce

lemma dec_inj: "dec bs = Inr a \<Longrightarrow> dec cs = Inr a \<Longrightarrow> bs = cs"
  using enc_dec [of bs a] enc_dec [of cs a] by simp

lemma dec_rejects: "(\<And>a. ok a \<Longrightarrow> enc a \<noteq> Some bs) \<Longrightarrow> \<exists>e. dec bs = Inl e"
  using enc_dec [of bs] by (cases "dec bs") auto

end

definition chunk_ok :: "output_chunk \<Rightarrow> bool" where
  "chunk_ok c \<longleftrightarrow> rust_string (chunk_id c) \<and> length (chunk_id c) < 2 ^ 16"

lemma from_to_be_bytes_nth:
  "from_be_bytes ((b # to_be_bytes w @ r) ! 1) ((b # to_be_bytes w @ r) ! 2) = w"
  by (simp add: to_be_bytes_def)

lemma decode_encode:
  assumes ok: "chunk_ok c" and bs: "encode c = Some bs"
  shows "decode bs = Inr c"
proof -
  let ?n = "length (chunk_id c)" and ?i = "as_bytes (chunk_id c)"
  have n: "?n < 65536" and u: "from_utf8 ?i = Some (chunk_id c)"
    using ok by (auto simp: chunk_ok_def from_utf8_as_bytes)
  have b: "bs = stream_byte (chunk_stream c) # to_be_bytes (word_of_nat ?n) @ ?i @ chunk_bytes c"
    using bs by (simp add: encode_def Let_def split: if_splits)
  have len: "unat (from_be_bytes (bs ! 1) (bs ! 2)) = ?n"
    unfolding b from_to_be_bytes_nth using n by (simp add: unat_of_nat)
  have d: "drop 3 bs = ?i @ chunk_bytes c" and l: "length bs = 3 + ?n + length (chunk_bytes c)"
    by (simp_all add: b to_be_bytes_def numeral_3_eq_3)
  have dd: "drop (3 + ?n) bs = chunk_bytes c"
    using d by (simp add: add.commute flip: drop_drop)
  have st: "stream_try_from (bs ! 0) = Inr (chunk_stream c)" by (simp add: b)
  show ?thesis
    unfolding decode_def Let_def len st d using u by (simp add: dd l)
qed

lemma encode_decode:
  assumes "decode bs = Inr c"
  shows "chunk_ok c \<and> encode c = Some bs"
proof -
  define len where "len = unat (from_be_bytes (bs ! 1) (bs ! 2))"
  obtain st i where st: "stream_try_from (bs ! 0) = Inr st"
    and i: "from_utf8 (take len (drop 3 bs)) = Some i"
    and l: "3 + len \<le> length bs"
    and c: "c = \<lparr>chunk_stream = st, chunk_id = i, chunk_bytes = drop (3 + len) bs\<rparr>"
    using assms by (auto simp: decode_def len_def Let_def split: if_splits sum.splits option.splits)
  obtain a h w r where bs: "bs = a # h # w # r"
    using l by (cases bs; cases "tl bs"; cases "tl (tl bs)") auto
  have len16: "len < 2 ^ 16" using unsigned_less [of "from_be_bytes (bs ! 1) (bs ! 2)"]
    by (simp add: len_def)
  have ii: "as_bytes i = take len r" and rs: "rust_string i"
    using from_utf8_Some [OF i] by (auto simp: bs)
  have li: "length i = len"
    using arg_cong [OF ii, of length] l by (simp add: bs)
  have w: "word_of_nat len = from_be_bytes h w" by (simp add: len_def bs)
  have dr: "drop (3 + len) bs = drop len r"
    by (simp add: bs add.commute flip: drop_drop)
  have sb: "stream_byte st = a" using st by (simp add: bs stream_try_from_Inr)
  have "encode c = Some bs"
    using len16 unfolding c dr encode_def Let_def
    by (simp add: li w ii to_from_be_bytes sb) (simp add: bs)
  with rs li len16 show ?thesis by (simp add: chunk_ok_def c)
qed

interpretation chunk: byte_codec encode decode chunk_ok
  by unfold_locales (simp add: encode_def Let_def chunk_ok_def,
    rule decode_encode, assumption, assumption, rule encode_decode)

text \<open>
  An output chunk whose id is a string of fewer than 65536 bytes is always encoded, and the
  decoder returns exactly this chunk on exactly this encoding, for every stream and payload.
\<close>

theorem chunk_round_trip:
  assumes "chunk_ok c"
  shows "(\<exists>bs. encode c = Some bs) \<and> (\<forall>bs. decode bs = Inr c \<longleftrightarrow> encode c = Some bs)"
  using assms chunk.enc_total chunk.dec_iff by blast

definition sample_chunk :: output_chunk where
  "sample_chunk = \<lparr>chunk_stream = Stderr, chunk_id = ''c-1'', chunk_bytes = [1, 2, 255]\<rparr>"

lemma sample_chunk_ok: "chunk_ok sample_chunk"
  by (simp add: chunk_ok_def sample_chunk_def rust_string_def as_bytes_def)

theorem chunk_round_trip_witness:
  "encode sample_chunk = Some [1, 0, 3, 0x63, 0x2D, 0x31, 1, 2, 255] \<and>
   decode [1, 0, 3, 0x63, 0x2D, 0x31, 1, 2, 255] = Inr sample_chunk"
proof -
  have "encode sample_chunk = Some [1, 0, 3, 0x63, 0x2D, 0x31, 1, 2, 255]"
    by (simp add: sample_chunk_def encode_def as_bytes_def to_be_bytes_def)
  moreover from chunk_round_trip [OF sample_chunk_ok, THEN conjunct2, THEN spec] this
  have "decode [1, 0, 3, 0x63, 0x2D, 0x31, 1, 2, 255] = Inr sample_chunk" by (rule iffD2)
  ultimately show ?thesis by (rule conjI)
qed

text \<open>
  Whatever bytes a worker sends, a message the decoder accepts is the canonical encoding of the
  chunk it returns, whose id is valid UTF-8; in particular no two byte strings decode to one chunk.
\<close>

theorem decode_canonical:
  assumes "decode bs = Inr c"
  shows "rust_string (chunk_id c) \<and> encode c = Some bs \<and> (\<forall>cs. decode cs = Inr c \<longleftrightarrow> cs = bs)"
proof -
  have "decode cs = Inr c \<longleftrightarrow> cs = bs" for cs
    using chunk.dec_inj [OF _ assms, of cs] assms by (intro iffI) simp_all
  with encode_decode [OF assms] show ?thesis by (simp add: chunk_ok_def)
qed

theorem decode_canonical_witness:
  "\<exists>c. decode [2, 0, 1, 0x73, 7] = Inr c \<and> encode c = Some [2, 0, 1, 0x73, 7]"
proof -
  have d: "decode [2, 0, 1, 0x73, 7] =
      Inr \<lparr>chunk_stream = Terminal, chunk_id = ''s'', chunk_bytes = [7]\<rparr>"
    by (simp add: decode_def stream_try_from_def from_be_bytes_def from_utf8_def of_bytes_def
        char_of_def bit_0)
  from decode_canonical [OF d] d show ?thesis by (intro exI conjI) (assumption, simp)
qed

end
