(* ===== verification/CaptureStore.thy ===== *)
theory CaptureStore
  imports WireApi
begin

text \<open>
  The output spool: \<open>shiitake-worker-api/src/capture.rs\<close> (layout, purge, startup reconciliation) and
  the descriptor-based access of \<open>shiitake-server/src/pool/mod.rs\<close> (\<open>open_capture_stream\<close>,
  \<open>valid_capture_id\<close>, the pinned root).

  The operating system is a parameter: \<open>openat\<close>, \<open>open\<close>, \<open>fstat\<close>, \<open>remove_dir_all\<close> and the
  directory listing are arguments of the definitions, so every statement holds for all of their
  possible answers.  A path is the list of its components; joining an empty component leaves the
  path unchanged, as \<open>Path::join("")\<close> names the same directory.
\<close>

section \<open>Layout\<close>

datatype capture_stream = OutStream | ErrStream

fun file_name :: "capture_stream \<Rightarrow> string" where
  "file_name OutStream = ''stdout''"
| "file_name ErrStream = ''stderr''"

type_synonym path = "string list"

definition path_join :: "path \<Rightarrow> string \<Rightarrow> path" where
  "path_join p s = (if s = '''' then p else p @ [s])"

text \<open>\<open>char::is_ascii_alphanumeric\<close>; every byte of a multi-byte UTF-8 character is above 127, so
  filtering characters and filtering bytes drop the same bytes.\<close>

definition is_ascii_alphanumeric :: "char \<Rightarrow> bool" where
  "is_ascii_alphanumeric c \<longleftrightarrow>
     (let n = (of_char c :: nat)
      in (48 \<le> n \<and> n \<le> 57) \<or> (65 \<le> n \<and> n \<le> 90) \<or> (97 \<le> n \<and> n \<le> 122))"

definition id_char :: "char \<Rightarrow> bool" where
  "id_char c \<longleftrightarrow> is_ascii_alphanumeric c \<or> c = CHR ''-'' \<or> c = CHR ''_''"

definition sanitize_id :: "string \<Rightarrow> string" where
  "sanitize_id s = filter id_char s"

definition handle_dir :: "path \<Rightarrow> exec_id \<Rightarrow> path" where
  "handle_dir root rid = path_join root (sanitize_id (eid_str rid))"

definition stream_path :: "path \<Rightarrow> exec_id \<Rightarrow> capture_stream \<Rightarrow> path" where
  "stream_path root rid stream = path_join (handle_dir root rid) (file_name stream)"

definition valid_capture_id :: "string \<Rightarrow> bool" where
  "valid_capture_id s \<longleftrightarrow> s \<noteq> '''' \<and> length s \<le> 128 \<and> list_all id_char s"

lemma sanitize_valid [simp]: "valid_capture_id s \<Longrightarrow> sanitize_id s = s"
  by (simp add: valid_capture_id_def sanitize_id_def list_all_iff)

lemma sanitize_idem [simp]: "sanitize_id (sanitize_id s) = sanitize_id s"
  by (simp add: sanitize_id_def)

lemma id_char_safe: "id_char c \<Longrightarrow> c \<noteq> CHR ''/'' \<and> c \<noteq> CHR ''.''"
  by (auto simp: id_char_def is_ascii_alphanumeric_def)

lemma handle_dir_valid: "valid_capture_id (eid_str rid) \<Longrightarrow> handle_dir root rid = root @ [eid_str rid]"
  by (simp add: handle_dir_def path_join_def) (simp add: valid_capture_id_def)

lemma stream_path_valid:
  "valid_capture_id (eid_str rid) \<Longrightarrow>
     stream_path root rid st = root @ [eid_str rid, file_name st]"
  by (cases st) (simp_all add: stream_path_def handle_dir_valid path_join_def)

lemma file_name_inj [simp]: "file_name a = file_name b \<longleftrightarrow> a = b"
  by (cases a; cases b) simp_all

text \<open>
  Handles with valid ids never share capture storage: the directory of each is a direct child of
  the root named by its id (one component, with no separator and no dot), so two streams have the same
  path only when both the handle and the stream are the same.
\<close>

theorem capture_paths_separate:
  assumes "valid_capture_id (eid_str a)" and "valid_capture_id (eid_str b)"
  shows "handle_dir root a = root @ [eid_str a] \<and>
    CHR ''/'' \<notin> set (eid_str a) \<and> CHR ''.'' \<notin> set (eid_str a) \<and>
    (stream_path root a st = stream_path root b st' \<longleftrightarrow> a = b \<and> st = st')"
proof -
  have "CHR ''/'' \<notin> set (eid_str a) \<and> CHR ''.'' \<notin> set (eid_str a)"
    using assms(1) id_char_safe by (auto simp: valid_capture_id_def list_all_iff)
  then show ?thesis
    using assms by (auto simp: handle_dir_valid stream_path_valid exec_id.expand)
qed

theorem capture_paths_separate_witness:
  "stream_path [''capture''] (ExecId ''c-1'') OutStream
     \<noteq> stream_path [''capture''] (ExecId ''c-2'') OutStream"
proof -
  have v: "valid_capture_id (eid_str (ExecId ''c-1''))" "valid_capture_id (eid_str (ExecId ''c-2''))"
    by (simp_all add: valid_capture_id_def id_char_def is_ascii_alphanumeric_def)
  show ?thesis using capture_paths_separate [OF v] by simp
qed

section \<open>Descriptor access\<close>

datatype io_kind = NotFound | InvalidInput | OtherError
record io_error =
  io_kind :: io_kind
  io_message :: string

type_synonym fd = nat

record open_flags =
  o_write :: bool
  o_append :: bool
  o_directory :: bool
  o_nofollow :: bool
  o_cloexec :: bool

definition dir_flags :: open_flags where
  "dir_flags = \<lparr>o_write = False, o_append = False, o_directory = True, o_nofollow = True,
     o_cloexec = True\<rparr>"

definition file_flags :: open_flags where
  "file_flags = \<lparr>o_write = True, o_append = True, o_directory = False, o_nofollow = True,
     o_cloexec = True\<rparr>"

type_synonym openat_fn = "fd \<Rightarrow> string \<Rightarrow> open_flags \<Rightarrow> io_error + fd"

text \<open>\<open>CString::new\<close> fails on an interior NUL byte.\<close>

definition c_string :: "string \<Rightarrow> io_error + string" where
  "c_string s =
     (if CHR 0x00 \<in> set s
      then Inl \<lparr>io_kind = InvalidInput, io_message = ''nul byte''\<rparr> else Inr s)"

definition open_capture_stream ::
    "openat_fn \<Rightarrow> fd \<Rightarrow> exec_id \<Rightarrow> capture_stream \<Rightarrow> io_error + fd" where
  "open_capture_stream openat root rid stream =
     (if \<not> valid_capture_id (eid_str rid)
      then Inl \<lparr>io_kind = InvalidInput,
                io_message = ''capture handle has invalid path characters''\<rparr>
      else case c_string (eid_str rid) of
        Inl e \<Rightarrow> Inl e
      | Inr component \<Rightarrow>
          (case openat root component dir_flags of
            Inl e \<Rightarrow> Inl e
          | Inr dir \<Rightarrow>
              (case c_string (file_name stream) of
                Inl e \<Rightarrow> Inl e
              | Inr name \<Rightarrow> openat dir name file_flags)))"

definition open_capture_root :: "(path \<Rightarrow> open_flags \<Rightarrow> io_error + fd) \<Rightarrow> path \<Rightarrow> io_error + fd" where
  "open_capture_root os_open root =
     (if \<exists>c \<in> set root. CHR 0x00 \<in> set c
      then Inl \<lparr>io_kind = InvalidInput, io_message = ''nul byte''\<rparr>
      else os_open root dir_flags)"

text \<open>
  \<open>WorkerPool::capture_dir\<close>: the pinned root of a \<open>OnceLock\<close>; the second component is the lock's
  content afterwards.
\<close>

definition capture_dir ::
    "(path \<Rightarrow> open_flags \<Rightarrow> io_error + fd) \<Rightarrow> path \<Rightarrow> fd option \<Rightarrow> fd option \<times> fd option" where
  "capture_dir os_open root pinned =
     (case pinned of
       Some dir \<Rightarrow> (Some dir, pinned)
     | None \<Rightarrow>
         (case open_capture_root os_open root of
           Inl _ \<Rightarrow> (None, None)
         | Inr dir \<Rightarrow> (Some dir, Some dir)))"

definition capture_len ::
    "openat_fn \<Rightarrow> (fd \<Rightarrow> io_error + 64 word) \<Rightarrow> fd option \<Rightarrow> exec_id \<Rightarrow> capture_stream \<Rightarrow> 64 word"
  where
  "capture_len openat fstat_len dir rid stream =
     (case dir of
       None \<Rightarrow> 0
     | Some d \<Rightarrow>
         (case open_capture_stream openat d rid stream of
           Inl _ \<Rightarrow> 0
         | Inr file \<Rightarrow> (case fstat_len file of Inl _ \<Rightarrow> 0 | Inr n \<Rightarrow> n)))"

text \<open>The length of a stream's file as the worker sees it by its path.\<close>

definition stream_len :: "(path \<Rightarrow> io_error + 64 word) \<Rightarrow> path \<Rightarrow> exec_id \<Rightarrow> capture_stream \<Rightarrow> 64 word" where
  "stream_len metadata root rid stream =
     (case metadata (stream_path root rid stream) of Inr n \<Rightarrow> n | Inl _ \<Rightarrow> 0)"

lemma valid_no_nul: "valid_capture_id s \<Longrightarrow> CHR 0x00 \<notin> set s"
  by (auto simp: valid_capture_id_def list_all_iff id_char_def is_ascii_alphanumeric_def)

lemma file_name_no_nul [simp]: "CHR 0x00 \<notin> set (file_name st)"
  by (cases st) simp_all

lemma c_string_file_name [simp]: "c_string (file_name st) = Inr (file_name st)"
  by (cases st) (simp_all add: c_string_def)

lemma open_capture_stream_valid:
  "valid_capture_id (eid_str rid) \<Longrightarrow>
     open_capture_stream openat root rid st =
       (case openat root (eid_str rid) dir_flags of
         Inl e \<Rightarrow> Inl e | Inr dir \<Rightarrow> openat dir (file_name st) file_flags)"
  by (simp add: open_capture_stream_def c_string_def valid_no_nul split: sum.splits)

text \<open>
  Whatever the operating system answers and whatever id a worker supplies, a spool file is opened
  only relative to the pinned root, as \<open>id/stdout\<close> or \<open>id/stderr\<close> with a valid id, and with
  \<open>O_NOFOLLOW\<close> on both components; an invalid id is refused before any system call is made.
\<close>

theorem open_capture_stream_confined:
  "(open_capture_stream openat root rid st = Inr fd \<longleftrightarrow>
      valid_capture_id (eid_str rid) \<and>
      (\<exists>dir. openat root (eid_str rid) dir_flags = Inr dir \<and>
             openat dir (file_name st) file_flags = Inr fd)) \<and>
   o_nofollow dir_flags \<and> o_directory dir_flags \<and> o_nofollow file_flags \<and>
   (open_capture_stream openat root rid st = open_capture_stream openat' root rid st \<or>
      valid_capture_id (eid_str rid))"
proof (cases "valid_capture_id (eid_str rid)")
  case True
  then show ?thesis
    by (auto simp: open_capture_stream_valid dir_flags_def file_flags_def split: sum.splits)
next
  case False
  then show ?thesis by (simp add: open_capture_stream_def dir_flags_def file_flags_def)
qed

text \<open>A pinned root stays pinned: a later call neither reopens nor replaces it.\<close>

lemma capture_dir_pinned:
  "capture_dir os_open root pinned = (r, pinned') \<Longrightarrow>
     r = pinned' \<and> capture_dir os_open' root' pinned' = (case r of
       None \<Rightarrow> capture_dir os_open' root' None | Some d \<Rightarrow> (Some d, Some d))"
  by (auto simp: capture_dir_def split: option.splits sum.splits)

section \<open>Purging\<close>

definition purge :: "(path \<Rightarrow> io_error + unit) \<Rightarrow> path \<Rightarrow> exec_id \<Rightarrow> io_error + unit" where
  "purge remove_dir_all root rid =
     (case remove_dir_all (handle_dir root rid) of
       Inr _ \<Rightarrow> Inr ()
     | Inl e \<Rightarrow> if io_kind e = NotFound then Inr () else Inl e)"

datatype file_type = TDir | TFile | TSymlink

text \<open>
  One \<open>next_entry\<close> result: an error, or an entry's path with the result of its \<open>file_type\<close>.  The
  loop's accumulators are the count of removed directories and the failures, in order.
\<close>

type_synonym dir_item = "io_error + (path \<times> (io_error + file_type))"

fun purge_entries ::
    "(path \<Rightarrow> io_error + unit) \<Rightarrow> dir_item list \<Rightarrow> nat \<Rightarrow> (path \<times> io_error) list
     \<Rightarrow> io_error + (nat \<times> (path \<times> io_error) list)" where
  "purge_entries rm [] removed failed = Inr (removed, failed)"
| "purge_entries rm (Inl e # items) removed failed = Inl e"
| "purge_entries rm (Inr (p, Inr TDir) # items) removed failed =
     (case rm p of
       Inr _ \<Rightarrow> purge_entries rm items (removed + 1) failed
     | Inl e \<Rightarrow> purge_entries rm items removed (failed @ [(p, e)]))"
| "purge_entries rm (Inr (p, Inr t) # items) removed failed = purge_entries rm items removed failed"
| "purge_entries rm (Inr (p, Inl e) # items) removed failed =
     purge_entries rm items removed (failed @ [(p, e)])"

definition purge_orphans ::
    "(path \<Rightarrow> io_error + unit) \<Rightarrow> io_error + dir_item list
     \<Rightarrow> io_error + (nat \<times> (path \<times> io_error) list)" where
  "purge_orphans remove_dir_all listing =
     (case listing of
       Inl e \<Rightarrow> if io_kind e = NotFound then Inr (0, []) else Inl e
     | Inr items \<Rightarrow> purge_entries remove_dir_all items 0 [])"

text \<open>The directories of a listing, and the failures a sweep over it reports.\<close>

fun dirs_of :: "dir_item list \<Rightarrow> path list" where
  "dirs_of [] = []"
| "dirs_of (Inr (p, Inr TDir) # items) = p # dirs_of items"
| "dirs_of (_ # items) = dirs_of items"

fun failures_of :: "(path \<Rightarrow> io_error + unit) \<Rightarrow> dir_item list \<Rightarrow> (path \<times> io_error) list" where
  "failures_of rm [] = []"
| "failures_of rm (Inr (p, Inr TDir) # items) =
     (case rm p of Inl e \<Rightarrow> (p, e) # failures_of rm items | Inr _ \<Rightarrow> failures_of rm items)"
| "failures_of rm (Inr (p, Inl e) # items) = (p, e) # failures_of rm items"
| "failures_of rm (_ # items) = failures_of rm items"

lemma purge_entries_spec:
  "list_all (\<lambda>i. \<not> isl i) items \<Longrightarrow>
     purge_entries rm items n fs =
       Inr (n + length (filter (\<lambda>p. rm p = Inr ()) (dirs_of items)), fs @ failures_of rm items)"
  by (induction rm items n fs rule: purge_entries.induct) (simp_all split: sum.splits)

lemma failures_of_cong:
  "\<forall>p \<in> set (dirs_of items). rm' p = rm p \<Longrightarrow> failures_of rm' items = failures_of rm items"
  by (induction rm items rule: failures_of.induct) (simp_all split: sum.splits)

text \<open>
  Startup reconciliation of a readable listing removes every directory whose removal succeeds and
  counts exactly those; one failure stops neither the sweep nor the boot and is reported in order;
  files and symbolic links are never removed; a missing root is not an error, and a second sweep of
  the emptied root finds nothing to do.
\<close>

theorem purge_orphans_sweeps_all:
  assumes "list_all (\<lambda>i. \<not> isl i) items"
  shows "purge_orphans rm (Inr items) =
      Inr (length (filter (\<lambda>p. rm p = Inr ()) (dirs_of items)), failures_of rm items) \<and>
    (\<forall>rm'. (\<forall>p \<in> set (dirs_of items). rm' p = rm p) \<longrightarrow>
       purge_orphans rm' (Inr items) = purge_orphans rm (Inr items)) \<and>
    purge_orphans rm (Inr []) = Inr (0, []) \<and>
    (io_kind e = NotFound \<longrightarrow> purge_orphans rm (Inl e) = Inr (0, []))"
proof -
  note spec = purge_entries_spec [OF assms]
  have cong: "purge_orphans rm' (Inr items) = purge_orphans rm (Inr items)"
    if same: "\<forall>p \<in> set (dirs_of items). rm' p = rm p" for rm'
  proof -
    have "filter (\<lambda>p. rm' p = Inr ()) (dirs_of items) = filter (\<lambda>p. rm p = Inr ()) (dirs_of items)"
      using same by (intro filter_cong) simp_all
    then show ?thesis
      by (simp only: purge_orphans_def sum.case spec failures_of_cong [OF same])
  qed
  have result: "purge_orphans rm (Inr items) =
      Inr (length (filter (\<lambda>p. rm p = Inr ()) (dirs_of items)), failures_of rm items)"
    by (simp add: purge_orphans_def spec)
  show ?thesis
  proof (intro conjI allI impI)
    show "purge_orphans rm' (Inr items) = purge_orphans rm (Inr items)"
      if "\<forall>p \<in> set (dirs_of items). rm' p = rm p" for rm'
      using that by (rule cong)
  qed (simp_all add: result, simp_all add: purge_orphans_def)
qed

definition sample_listing :: "dir_item list" where
  "sample_listing = [Inr ([''capture'', ''a''], Inr TDir), Inr ([''capture'', ''README''], Inr TFile),
     Inr ([''capture'', ''lost+found''], Inr TDir)]"

definition sample_rm :: "path \<Rightarrow> io_error + unit" where
  "sample_rm p = (if p = [''capture'', ''lost+found'']
     then Inl \<lparr>io_kind = OtherError, io_message = ''denied''\<rparr> else Inr ())"

theorem purge_orphans_sweeps_all_witness:
  "purge_orphans sample_rm (Inr sample_listing) =
     Inr (1, [([''capture'', ''lost+found''], \<lparr>io_kind = OtherError, io_message = ''denied''\<rparr>)])"
proof -
  have "list_all (\<lambda>i. \<not> isl i) sample_listing" by (simp add: sample_listing_def)
  from purge_orphans_sweeps_all [OF this, of sample_rm] show ?thesis
    by (simp add: sample_listing_def sample_rm_def)
qed

end
