(* ===== verification/ServerApi.thy ===== *)
theory ServerApi
  imports CaptureStore
begin

text \<open>
  The public HTTP contract, \<open>shiitake-server-api/src/lib.rs\<close>, and the request-side functions of
  \<open>shiitake-server/src/http/sessions.rs\<close> that touch no state: the validation of a session request
  and the minting of public ids.  A time in a response is \<open>to_epoch\<close> of a \<open>SystemTime\<close>; the model's
  \<open>time\<close> already counts from the epoch.
\<close>

section \<open>Request and response types\<close>

datatype session_state = Opening | Active | Closing | Closed | Failed

datatype handle_status = Running | Completed | Oomkilled | Error

datatype exit_cause =
  Normal | Signal | OomContainer | WorkerDied | WorkerError | OutputError | Cancelled

text \<open>The \<open>IntoStaticStr\<close> view of a cause, its snake-case name on the wire and in metric labels.\<close>

fun cause_label :: "exit_cause \<Rightarrow> string" where
  "cause_label Normal = ''normal''"
| "cause_label Signal = ''signal''"
| "cause_label OomContainer = ''oom_container''"
| "cause_label WorkerDied = ''worker_died''"
| "cause_label WorkerError = ''worker_error''"
| "cause_label OutputError = ''output_error''"
| "cause_label Cancelled = ''cancelled''"

definition default_cols :: "16 word" where
  "default_cols = 80"

definition default_rows :: "16 word" where
  "default_rows = 24"

record create_session_request =
  req_profile :: string
  req_workdir :: "string option"
  req_env :: env_map
  req_drop_to :: "drop_to option"
  req_cols :: "16 word"
  req_rows :: "16 word"

record session_response =
  resp_session_id :: session_id
  resp_worker_id :: worker_id
  resp_profile :: string
  resp_state :: session_state
  resp_created_at :: time

record session_command_request =
  req_command :: string
  req_mode :: command_mode

record profile_response =
  prof_name :: string
  prof_idle :: nat
  prof_allocated :: nat

record spawn_response =
  spawn_handle :: exec_id
  spawn_started_at :: time

record status_response =
  st_handle :: exec_id
  st_session_id :: "session_id option"
  st_worker_id :: worker_id
  st_status :: handle_status
  st_started_at :: time
  st_finished_at :: "time option"
  st_exit_code :: "i32 option"
  st_exit_cause :: "exit_cause option"
  st_exit_signal :: "i32 option"
  st_cancelled :: bool
  st_stdout_bytes :: "64 word"
  st_stderr_bytes :: "64 word"

record handle_snapshot_json =
  hs_handle :: exec_id
  hs_status :: handle_status
  hs_exit_cause :: "exit_cause option"
  hs_cancelled :: bool

record health_response =
  health_status :: string
  health_service :: string
  health_idle :: nat
  health_inflight :: nat
  health_interactive :: nat
  health_sessions :: nat

record ready_response =
  rdy_ready :: bool
  rdy_service :: string
  rdy_idle :: nat
  rdy_inflight :: nat
  rdy_sessions :: nat
  rdy_required :: nat

section \<open>Validation of a session request\<close>

text \<open>The status codes the handlers answer with, and an error reply.\<close>

type_synonym http_error = "nat \<times> string"

definition BAD_REQUEST :: nat where "BAD_REQUEST = 400"
definition MAX_SESSION_ENV_ENTRIES :: nat where "MAX_SESSION_ENV_ENTRIES = 128"
definition MAX_SESSION_ENV_BYTES :: nat where "MAX_SESSION_ENV_BYTES = 64 * 1024"
definition MAX_SESSION_WORKDIR_BYTES :: nat where "MAX_SESSION_WORKDIR_BYTES = 4096"

text \<open>\<open>usize::saturating_add\<close> on the 64-bit targets the server is built for.\<close>

definition saturating_add :: "nat \<Rightarrow> nat \<Rightarrow> nat" where
  "saturating_add a b = min (a + b) (2 ^ 64 - 1)"

definition env_size :: "env_map \<Rightarrow> nat" where
  "env_size e = fold (\<lambda>(key, value) size. saturating_add (saturating_add size (length key)) (length value)) e 0"

definition valid_profile :: "string \<Rightarrow> bool" where
  "valid_profile profile \<longleftrightarrow> profile \<noteq> '''' \<and> list_all id_char profile"

definition validate_session_request :: "create_session_request \<Rightarrow> http_error + unit" where
  "validate_session_request req =
     (if \<not> valid_profile (req_profile req) \<or> req_cols req = 0 \<or> req_rows req = 0
      then Inl (BAD_REQUEST, ''invalid profile or terminal size'')
      else if length (req_env req) > MAX_SESSION_ENV_ENTRIES
        \<or> env_size (req_env req) > MAX_SESSION_ENV_BYTES
        \<or> (case req_workdir req of None \<Rightarrow> False | Some p \<Rightarrow> length p > MAX_SESSION_WORKDIR_BYTES)
      then Inl (BAD_REQUEST, ''session input is too large'')
      else Inr ())"

text \<open>The bytes of an environment, counted without saturation.\<close>

definition env_bytes :: "env_map \<Rightarrow> nat" where
  "env_bytes e = sum_list (map (\<lambda>(k, v). length k + length v) e)"

lemma fold_env_size:
  "n < 2 ^ 64 \<Longrightarrow>
     fold (\<lambda>(key, value) size. saturating_add (saturating_add size (length key)) (length value)) e n
       = min (n + env_bytes e) (2 ^ 64 - 1)"
proof (induction e arbitrary: n)
  case Nil
  then show ?case by (simp add: env_bytes_def)
next
  case (Cons kv e)
  obtain k v where kv: "kv = (k, v)" by (cases kv)
  let ?m = "saturating_add (saturating_add n (length k)) (length v)"
  have "?m = min (n + length k + length v) (2 ^ 64 - 1)"
    by (simp add: saturating_add_def)
  moreover from this have "?m < 2 ^ 64" by simp
  ultimately show ?case
    using Cons.IH [of ?m] by (simp add: kv env_bytes_def)
qed

lemma env_size_exact: "env_size e = min (env_bytes e) (2 ^ 64 - 1)"
  using fold_env_size [of 0 e] by (simp add: env_size_def)

text \<open>
  A session request is accepted exactly when its profile is a non-empty name of letters, digits,
  dashes and underscores, its terminal has at least one column and row, and its input is within the
  documented bounds of 128 environment entries, 64 KiB of keys and values and a 4096-byte working
  directory; the saturating size computation never accepts a larger environment.
\<close>

theorem validate_session_request_iff:
  "validate_session_request req = Inr () \<longleftrightarrow>
     req_profile req \<noteq> '''' \<and> list_all id_char (req_profile req) \<and>
     0 < unat (req_cols req) \<and> 0 < unat (req_rows req) \<and>
     length (req_env req) \<le> 128 \<and> env_bytes (req_env req) \<le> 65536 \<and>
     (case req_workdir req of None \<Rightarrow> True | Some p \<Rightarrow> length p \<le> 4096)"
proof -
  have "65536 < env_size e \<longleftrightarrow> 65536 < env_bytes e" for e
    by (simp add: env_size_exact)
  then show ?thesis
    by (auto simp: validate_session_request_def valid_profile_def MAX_SESSION_ENV_ENTRIES_def
        MAX_SESSION_ENV_BYTES_def MAX_SESSION_WORKDIR_BYTES_def unat_gt_0 not_less
        split: option.splits)
qed

section \<open>Public ids\<close>

definition ALPHABET :: string where
  "ALPHABET = ''0123456789abcdefghjkmnpqrstvwxyz''"

text \<open>The fold over the bytes: \<open>(value << 8) | u128::from(byte)\<close>.\<close>

definition pack_bytes :: "bytes \<Rightarrow> 128 word" where
  "pack_bytes bs = foldl (\<lambda>v b. push_bit 8 v OR ucast b) 0 bs"

definition shifts :: "nat list" where
  "shifts = map (\<lambda>n. n * 5) (rev [0..<16])"

definition digit_at :: "128 word \<Rightarrow> nat \<Rightarrow> nat" where
  "digit_at v s = unat (drop_bit s v AND 31)"

definition encode_public_id :: "char \<Rightarrow> bytes \<Rightarrow> string" where
  "encode_public_id kind bs =
     kind # CHR ''-'' # map (\<lambda>s. ALPHABET ! digit_at (pack_bytes bs) s) shifts"

text \<open>The ten bytes of a version 4 UUID that carry only random bits.\<close>

definition new_public_id :: "char \<Rightarrow> bytes \<Rightarrow> string" where
  "new_public_id kind uuid =
     encode_public_id kind (map (\<lambda>i. uuid ! i) [0, 1, 2, 3, 4, 5, 7, 9, 10, 11])"

lemma digit_at_bound: "digit_at v s < 32"
proof -
  have "drop_bit s v AND 31 \<le> 31" by (rule word_and_le1)
  then show ?thesis by (simp add: digit_at_def word_le_nat_alt)
qed

lemma length_ALPHABET: "length ALPHABET = 32"
  by (simp add: ALPHABET_def)

lemma distinct_ALPHABET: "distinct ALPHABET"
  by (simp add: ALPHABET_def)

lemma ALPHABET_id_char: "list_all id_char ALPHABET"
  by (simp add: ALPHABET_def id_char_def is_ascii_alphanumeric_def)

lemma length_shifts: "length shifts = 16"
  by (simp add: shifts_def)

lemma set_shifts: "set shifts = {n * 5 | n. n < 16}"
  by (auto simp: shifts_def)

lemma digit_char: "ALPHABET ! digit_at v s \<in> set ALPHABET"
  using digit_at_bound [of v s] by (simp add: length_ALPHABET)

text \<open>
  Every minted id is 18 characters long: its kind, a dash, and 16 characters of the unambiguous
  alphabet; such an id always passes the pool's check of command handle ids, so a command is never
  refused for the id the server itself minted.
\<close>

theorem public_id_shape:
  "length (encode_public_id kind bs) = 18 \<and>
   take 2 (encode_public_id kind bs) = [kind, CHR ''-''] \<and>
   set (drop 2 (encode_public_id kind bs)) \<subseteq> set ALPHABET \<and>
   valid_capture_id (encode_public_id CHR ''c'' bs)"
proof -
  have "list_all id_char (map (\<lambda>s. ALPHABET ! digit_at (pack_bytes bs) s) shifts)"
    using ALPHABET_id_char digit_char by (auto simp: list_all_iff)
  then show ?thesis
    using digit_char
    by (auto simp: encode_public_id_def length_shifts valid_capture_id_def id_char_def
        is_ascii_alphanumeric_def)
qed

lemma pack_bytes_snoc: "pack_bytes (bs @ [b]) = push_bit 8 (pack_bytes bs) OR ucast b"
  by (simp add: pack_bytes_def)

lemma pack_bytes_high: "8 * length bs \<le> n \<Longrightarrow> \<not> bit (pack_bytes bs) n"
proof (induction bs arbitrary: n rule: rev_induct)
  case Nil
  then show ?case by (simp add: pack_bytes_def)
next
  case (snoc b bs)
  then show ?case
    using bit_imp_le_length [of b n] by (auto simp: pack_bytes_snoc bit_simps)
qed

lemma pack_bytes_inj:
  "length bs = length cs \<Longrightarrow> length bs \<le> 16 \<Longrightarrow> pack_bytes bs = pack_bytes cs \<Longrightarrow> bs = cs"
proof (induction bs arbitrary: cs rule: rev_induct)
  case Nil
  then show ?case by simp
next
  case (snoc b bs)
  obtain ds d where cs: "cs = ds @ [d]" and len: "length ds = length bs"
    using snoc.prems(1) by (cases cs rule: rev_cases) auto
  have eq: "bit (push_bit 8 (pack_bytes bs) OR ucast b) n
      = bit (push_bit 8 (pack_bytes ds) OR ucast d) n" for n
    using snoc.prems(3) by (simp add: cs pack_bytes_snoc)
  have "b = d"
  proof (rule bit_word_eqI)
    fix n assume "n < LENGTH(8)"
    with eq [of n] show "bit b n = bit d n" by (simp add: bit_simps)
  qed
  moreover have "pack_bytes bs = pack_bytes ds"
  proof (rule bit_word_eqI)
    fix n assume "n < LENGTH(128)"
    show "bit (pack_bytes bs) n = bit (pack_bytes ds) n"
    proof (cases "n < 120")
      case True
      then show ?thesis
        using eq [of "n + 8"] bit_imp_le_length [of b "n + 8"] bit_imp_le_length [of d "n + 8"]
        by (auto simp: bit_simps)
    next
      case False
      then show ?thesis
        using snoc.prems(2) len pack_bytes_high [of bs n] pack_bytes_high [of ds n] by simp
    qed
  qed
  ultimately show ?case
    using snoc.IH [of ds] snoc.prems(2) len by (simp add: cs)
qed

lemma digits_determine:
  assumes "\<forall>s \<in> set shifts. digit_at v s = digit_at w s" and "n < 80"
  shows "bit v n = bit w n"
proof -
  let ?s = "n div 5 * 5"
  have "?s \<in> set shifts" using assms(2) by (auto simp: set_shifts)
  with assms(1) have "digit_at v ?s = digit_at w ?s" by blast
  then have "drop_bit ?s v AND 31 = drop_bit ?s w AND 31"
    by (simp only: digit_at_def word_unat_eq_iff)
  then have "bit (drop_bit ?s v AND 31) (n mod 5) = bit (drop_bit ?s w AND 31) (n mod 5)"
    by simp
  moreover have "bit (31 :: 128 word) (n mod 5)"
  proof -
    have "(31 :: 128 word) = mask 5" by (simp add: mask_eq_exp_minus_1)
    moreover have "n mod 5 < 5" by simp
    ultimately show ?thesis by (simp only: bit_mask_iff) simp
  qed
  ultimately show ?thesis by (simp add: bit_simps)
qed

text \<open>
  The id encodes all 80 random bits: two ids of the same kind are equal only when the ten random
  bytes they were minted from are equal, so distinct random draws never collide.
\<close>

theorem public_id_injective:
  assumes "length bs = 10" and "length cs = 10"
  shows "encode_public_id kind bs = encode_public_id kind cs \<longleftrightarrow> bs = cs"
proof
  assume eq: "encode_public_id kind bs = encode_public_id kind cs"
  have "\<forall>s \<in> set shifts. digit_at (pack_bytes bs) s = digit_at (pack_bytes cs) s"
    using eq digit_at_bound
    by (auto simp: encode_public_id_def length_ALPHABET nth_eq_iff_index_eq [OF distinct_ALPHABET])
  then have "bit (pack_bytes bs) n = bit (pack_bytes cs) n" for n
    using digits_determine pack_bytes_high [of bs n] pack_bytes_high [of cs n] assms
    by (cases "n < 80") auto
  then have "pack_bytes bs = pack_bytes cs" by (intro bit_word_eqI)
  with assms show "bs = cs" by (intro pack_bytes_inj) simp_all
qed simp

theorem public_id_injective_witness:
  "encode_public_id CHR ''s'' [0, 0, 0, 0, 0, 0, 0, 0, 0, 1]
     \<noteq> encode_public_id CHR ''s'' [1, 0, 0, 0, 0, 0, 0, 0, 0, 0]"
proof -
  have l: "length [0, 0, 0, 0, 0, 0, 0, 0, 0, 1 :: byte] = 10"
    "length [1, 0, 0, 0, 0, 0, 0, 0, 0, 0 :: byte] = 10" by simp_all
  show ?thesis using public_id_injective [OF l] by simp
qed

end
