(* ===== verification/PoolState.thy ===== *)
theory PoolState
  imports ServerApi
begin

text \<open>
  The state of \<open>shiitake-server/src/pool/mod.rs\<close>: the \<open>PoolState\<close> behind the pool's mutex, the
  records it holds, and the read-only queries.

  An operation is a function of the state that returns the new state, a result, and the list of the
  effects it has outside the state, in order: frames handed to a socket, channels fired, capture
  files written.  A \<open>SharedSink\<close> is the number of its connection; a channel end is the number of its
  channel, so \<open>same_channel\<close> is equality.  \<open>span\<close> and the log lines are not modelled.
\<close>

section \<open>Records\<close>

record worker_entry =
  we_id :: worker_id
  we_profile :: string
  we_sink :: conn

record pending_entry =
  pe_sink :: conn
  pe_worker :: worker_id
  pe_profile :: string
  pe_session :: "session_id option"
  pe_mode :: command_mode
  pe_started :: time

record session_record =
  sr_worker :: worker_id
  sr_profile :: string
  sr_sink :: conn
  sr_state :: session_state
  sr_created :: time
  sr_activity :: time
  sr_finished :: "time option"
  sr_opened :: "chan option"
  sr_closed :: "chan list"
  sr_terminal :: "chan option"
  sr_workdir :: string
  sr_env :: env_map
  sr_drop_to :: "drop_to option"
  sr_stateful :: nat

definition clear_inputs :: "session_record \<Rightarrow> session_record" where
  "clear_inputs r = r\<lparr>sr_workdir := '''', sr_env := [], sr_drop_to := None\<rparr>"

record worker_liveness =
  lv_last_seen :: time
  lv_shutdown :: conn
  lv_location :: "worker_location option"
  lv_profile :: string

text \<open>A handle's immutable identity and its runtime, which the code keeps under a mutex of its own.\<close>

record handle_row =
  hr_id :: exec_id
  hr_session :: "session_id option"
  hr_worker :: worker_id
  hr_started :: time
  hr_polled :: time
  hr_status :: handle_status
  hr_finished :: "time option"
  hr_exit_code :: "i32 option"
  hr_exit_signal :: "i32 option"
  hr_cause :: "exit_cause option"
  hr_cancel_requested :: bool
  hr_cancelled :: bool
  hr_spool_failed :: bool

record handle_snapshot =
  sn_handle :: exec_id
  sn_session :: "session_id option"
  sn_worker :: worker_id
  sn_started :: time
  sn_status :: handle_status
  sn_finished :: "time option"
  sn_exit_code :: "i32 option"
  sn_exit_signal :: "i32 option"
  sn_cause :: "exit_cause option"
  sn_cancelled :: bool

record session_snapshot =
  ss_session :: session_id
  ss_worker :: worker_id
  ss_profile :: string
  ss_state :: session_state
  ss_created :: time

record pool =
  idle :: "worker_entry list"
  inflight :: "(exec_id, pending_entry) hmap"
  handles :: "(exec_id, handle_row) hmap"
  liveness :: "(worker_id, worker_liveness) hmap"
  pty_sessions :: "(worker_id, chan) hmap"
  sessions :: "(session_id, session_record) hmap"
  worker_sessions :: "(worker_id, session_id) hmap"

definition new_pool :: pool where
  "new_pool = \<lparr>idle = [], inflight = [], handles = [], liveness = [], pty_sessions = [],
     sessions = [], worker_sessions = []\<rparr>"

text \<open>The fields of the \<open>WorkerPool\<close> handle itself; the probe answers for a pod, a namespace and a
  container.\<close>

record pool_config =
  cfg_probe :: "(string \<Rightarrow> string \<Rightarrow> string \<Rightarrow> bool) option"
  cfg_pod_name :: string
  cfg_namespace :: string
  cfg_capture_root :: path

datatype dispatch_error = NoIdleWorker | DispatchSend string

datatype session_error =
    UnknownProfile
  | Busy
  | SessionNotFound
  | NotActive
  | TerminalBusy
  | WorkerErr string

datatype terminal_event = TermOutput bytes | TermClosed "string option"
datatype pty_event = PtyOutput bytes | PtyExited "i32 option" "i32 option" "string option"

datatype effect =
    SendFrame conn message
  | FireReady chan "string + unit"
  | FireClosed chan
  | SendTerminal chan terminal_event
  | SendPty chan pty_event
  | NotifyShutdown conn
  | NotifyCompletion exec_id
  | RecordExec exec_id exit_cause
  | AppendSpool exec_id capture_stream bytes
  | CreateSpool exec_id
  | PurgeSpool exec_id
  | PoolRejected

text \<open>How a send, a wait or a filesystem call inside a handler turned out.\<close>

datatype send_outcome = Sent | SendFailed string | SendTimedOut

definition PTY_OUTPUT_BACKLOG :: nat where
  "PTY_OUTPUT_BACKLOG = 64"

section \<open>Snapshots and queries\<close>

definition session_snap :: "session_id \<Rightarrow> session_record \<Rightarrow> session_snapshot" where
  "session_snap sid r = \<lparr>ss_session = sid, ss_worker = sr_worker r, ss_profile = sr_profile r,
     ss_state = sr_state r, ss_created = sr_created r\<rparr>"

definition snapshot_from :: "handle_row \<Rightarrow> handle_snapshot" where
  "snapshot_from row = \<lparr>sn_handle = hr_id row, sn_session = hr_session row,
     sn_worker = hr_worker row, sn_started = hr_started row, sn_status = hr_status row,
     sn_finished = hr_finished row, sn_exit_code = hr_exit_code row,
     sn_exit_signal = hr_exit_signal row, sn_cause = hr_cause row, sn_cancelled = hr_cancelled row\<rparr>"

definition classify :: "result_frame \<Rightarrow> handle_status \<times> exit_cause" where
  "classify r =
     (if res_cancelled r then (Error, Cancelled)
      else if res_exit_signal r \<noteq> None then (Error, Signal)
      else if res_error r \<noteq> None then (Error, WorkerError)
      else (Completed, Normal))"

text \<open>\<open>snapshot\<close>: the idle workers, and the distinct workers that hold anything.\<close>

definition busy_workers :: "pool \<Rightarrow> worker_id list" where
  "busy_workers p = remdups
     (map (\<lambda>(_, e). pe_worker e) (inflight p) @ map fst (worker_sessions p) @ map fst (pty_sessions p))"

definition pool_snapshot :: "pool \<Rightarrow> nat \<times> nat" where
  "pool_snapshot p = (length (idle p), length (busy_workers p))"

definition interactive_count :: "pool \<Rightarrow> nat" where
  "interactive_count p = length (pty_sessions p)"

definition session_count :: "pool \<Rightarrow> nat" where
  "session_count p = length (worker_sessions p)"

definition live_state :: "session_state \<Rightarrow> bool" where
  "live_state st \<longleftrightarrow> st \<in> {Opening, Active, Closing}"

lemma live_state_iff: "live_state st \<longleftrightarrow> st \<noteq> Closed \<and> st \<noteq> Failed"
  by (cases st) (simp_all add: live_state_def)

text \<open>\<open>profiles\<close>: the three loops over the counts map, then the sort by name.\<close>

definition count_entry :: "string \<Rightarrow> (nat \<times> nat \<Rightarrow> nat \<times> nat) \<Rightarrow> (string, nat \<times> nat) hmap \<Rightarrow>
    (string, nat \<times> nat) hmap" where
  "count_entry name f m = (case hget m name of None \<Rightarrow> hput name (f (0, 0)) m
     | Some c \<Rightarrow> hput name (f c) m)"

definition profile_counts :: "pool \<Rightarrow> (string, nat \<times> nat) hmap" where
  "profile_counts p =
     (let m1 = fold (\<lambda>(_, l). count_entry (lv_profile l) id) (liveness p) [];
          m2 = fold (\<lambda>w. count_entry (we_profile w) (\<lambda>(i, a). (i + 1, a))) (idle p) m1
      in fold (\<lambda>(_, r). if live_state (sr_state r)
                then count_entry (sr_profile r) (\<lambda>(i, a). (i, a + 1)) else id) (sessions p) m2)"

definition profiles :: "pool \<Rightarrow> profile_response list" where
  "profiles p = sort_key prof_name
     (map (\<lambda>(n, i, a). \<lparr>prof_name = n, prof_idle = i, prof_allocated = a\<rparr>) (profile_counts p))"

definition worker_location ::
    "pool_config \<Rightarrow> worker_id \<Rightarrow> worker_location option \<Rightarrow> string \<times> string \<times> string" where
  "worker_location cfg wid location =
     (case location of
       Some l \<Rightarrow> (pod l, namespace l, container l)
     | None \<Rightarrow> (cfg_pod_name cfg, cfg_namespace cfg, wid_str wid))"

text \<open>The counts map after the three loops, by name.\<close>

lemma hget_count_entry:
  "hget (count_entry n f m) x =
     (if x = n then Some (f (case hget m n of None \<Rightarrow> (0, 0) | Some c \<Rightarrow> c)) else hget m x)"
  by (auto simp: count_entry_def split: option.splits)

lemma hwf_count_entry: "hwf m \<Longrightarrow> hwf (count_entry n f m)"
  by (simp add: count_entry_def split: option.splits)

definition count_of :: "(string, nat \<times> nat) hmap \<Rightarrow> string \<Rightarrow> nat \<times> nat" where
  "count_of m n = (case hget m n of None \<Rightarrow> (0, 0) | Some c \<Rightarrow> c)"

lemma count_of_entry:
  "count_of (count_entry n f m) x = (if x = n then f (count_of m n) else count_of m x)"
  by (simp add: count_of_def hget_count_entry)

lemma fold_live_counts:
  "(hhas (fold (\<lambda>(_, l). count_entry (lv_profile l) id) ls m) x \<longleftrightarrow>
      hhas m x \<or> x \<in> (lv_profile \<circ> snd) ` set ls) \<and>
   count_of (fold (\<lambda>(_, l). count_entry (lv_profile l) id) ls m) x = count_of m x \<and>
   (hwf m \<longrightarrow> hwf (fold (\<lambda>(_, l). count_entry (lv_profile l) id) ls m))"
proof (induction ls arbitrary: m)
  case Nil
  then show ?case by simp
next
  case (Cons l ls)
  then show ?case
    by (cases l) (auto simp: hhas_def hget_count_entry count_of_entry hwf_count_entry)
qed

lemma fold_idle_counts:
  "(hhas (fold (\<lambda>w. count_entry (we_profile w) (\<lambda>(i, a). (i + 1, a))) ws m) x \<longleftrightarrow>
      hhas m x \<or> x \<in> we_profile ` set ws) \<and>
   count_of (fold (\<lambda>w. count_entry (we_profile w) (\<lambda>(i, a). (i + 1, a))) ws m) x =
     (fst (count_of m x) + length (filter (\<lambda>w. we_profile w = x) ws), snd (count_of m x)) \<and>
   (hwf m \<longrightarrow> hwf (fold (\<lambda>w. count_entry (we_profile w) (\<lambda>(i, a). (i + 1, a))) ws m))"
proof (induction ws arbitrary: m)
  case Nil
  then show ?case by simp
next
  case (Cons w ws)
  then show ?case
    by (auto simp: hhas_def hget_count_entry count_of_entry hwf_count_entry split: prod.splits)
qed

lemma fold_session_counts:
  fixes rs :: "(session_id, session_record) hmap"
  defines "g \<equiv> \<lambda>(_ :: session_id, r). if live_state (sr_state r)
    then count_entry (sr_profile r) (\<lambda>(i, a). (i, a + 1)) else id"
  shows "(hhas (fold g rs m) x \<longleftrightarrow>
      hhas m x \<or> (\<exists>(_, r) \<in> set rs. live_state (sr_state r) \<and> sr_profile r = x)) \<and>
   count_of (fold g rs m) x = (fst (count_of m x),
     snd (count_of m x) + hcount (\<lambda>_ r. live_state (sr_state r) \<and> sr_profile r = x) rs) \<and>
   (hwf m \<longrightarrow> hwf (fold g rs m))"
proof (induction rs arbitrary: m)
  case Nil
  then show ?case by simp
next
  case (Cons kr rs)
  obtain k r where kr: "kr = (k, r)" by (cases kr)
  have c: "hcount P ((k, r) # rs) = (if P k r then 1 else 0) + hcount P rs" for P
    by (simp add: hcount_def hretain_def)
  show ?case
    using Cons.IH [of "g (k, r) m"]
    by (auto simp: kr c g_def hhas_def hget_count_entry count_of_entry hwf_count_entry
        split: prod.splits if_splits)
qed

end
