(* ===== verification/PoolHandles.thy ===== *)
theory PoolHandles
  imports PoolState
begin

text \<open>
  The handle side of \<open>pool/mod.rs\<close>: how a command handle is finished (by its Result, by the close of
  its session, by the loss of its worker), cancelled, polled, listed and purged, how worker output is
  routed, and the session-less dispatch and pinned-terminal operations.

  Each critical section (one \<open>lock().await\<close> of the pool) is a definition of its own.  A handler with
  several sections is their composition in the order of the code, and takes a \<open>world\<close>: what the other
  tasks do to the pool at its suspension points (\<open>w_yield\<close>, numbered in the order of the code, and \<open>w_wait\<close>
  for those of a worker's read loop around the handler of a message), the
  clock readings, and the outcomes of its sends, waits and filesystem calls.  A statement about a
  handler for every world is a statement about every interleaving of that handler.

  A handler that holds an \<open>Arc\<close> of a row reads the row from the map again.  The two differ only when
  the row was purged in between, which the sweeper does to finished handles alone.
\<close>

section \<open>The environment of a handler\<close>

datatype ready_wait = ReadyOk | ReadyErr string | ReadyDropped | ReadyTimedOut
datatype spool_outcome = SpoolOk | SpoolNoRoot | SpoolOpenFailed | SpoolWriteFailed

record world =
  w_wait :: "nat \<Rightarrow> pool \<Rightarrow> pool"
  w_yield :: "nat \<Rightarrow> pool \<Rightarrow> pool"
  w_clock :: "nat \<Rightarrow> time"
  w_send :: send_outcome
  w_setup :: "string option"
  w_serialize :: "string option"
  w_ready :: ready_wait
  w_closed_late :: bool
  w_spool :: spool_outcome

text \<open>\<open>timeout(d, send).await.map_err(late).and_then(id)\<close>: the error of a bounded send.\<close>

definition send_error :: "string \<Rightarrow> send_outcome \<Rightarrow> string option" where
  "send_error late r = (case r of Sent \<Rightarrow> None | SendFailed e \<Rightarrow> Some e | SendTimedOut \<Rightarrow> Some late)"

definition evict_worker :: "worker_id \<Rightarrow> pool \<Rightarrow> effect list" where
  "evict_worker w p =
     (case hget (liveness p) w of None \<Rightarrow> [] | Some l \<Rightarrow> [NotifyShutdown (lv_shutdown l)])"

section \<open>Finishing a handle\<close>

text \<open>The body shared by the three finishers: under the row's lock, a row that is no longer running is
  left alone; otherwise its outcome is written, recorded once, and its waiters are woken.\<close>

definition finish_row ::
    "(handle_row \<Rightarrow> handle_row) \<Rightarrow> exec_id \<Rightarrow> pool \<Rightarrow> pool \<times> effect list" where
  "finish_row upd rid p =
     (case hget (handles p) rid of
       None \<Rightarrow> (p, [])
     | Some row \<Rightarrow>
         if hr_status row = Running
         then (p\<lparr>handles := hput rid (upd row) (handles p)\<rparr>,
               [RecordExec rid (the (hr_cause (upd row))), NotifyCompletion rid])
         else (p, []))"

definition closed_row :: "exit_cause \<Rightarrow> time \<Rightarrow> handle_row \<Rightarrow> handle_row" where
  "closed_row cause now row = row\<lparr>hr_finished := Some now, hr_status := Error,
     hr_cancelled := (cause = Cancelled), hr_cause := Some cause\<rparr>"

definition dropped_row :: "handle_status \<Rightarrow> exit_cause \<Rightarrow> time \<Rightarrow> handle_row \<Rightarrow> handle_row" where
  "dropped_row status cause now row =
     (let row1 = row\<lparr>hr_finished := Some now, hr_status := status, hr_cause := Some cause\<rparr>
      in if cause = OomContainer then row1\<lparr>hr_exit_signal := Some 9\<rparr> else row1)"

definition result_row :: "result_frame \<Rightarrow> time \<Rightarrow> handle_row \<Rightarrow> handle_row" where
  "result_row result now row =
     (let (status, cause) =
        if hr_spool_failed row then (Error, OutputError) else classify result
      in row\<lparr>hr_finished := Some now, hr_exit_code := res_exit_code result,
           hr_exit_signal := res_exit_signal result, hr_cancelled := res_cancelled result,
           hr_status := status, hr_cause := Some cause\<rparr>)"

text \<open>The loop over the pending handles: the \<open>k\<close>-th suspension point precedes each row.\<close>

fun finish_rows ::
    "(time \<Rightarrow> handle_row \<Rightarrow> handle_row) \<Rightarrow> world \<Rightarrow> nat \<Rightarrow> exec_id list \<Rightarrow> pool \<Rightarrow> pool \<times> effect list"
  where
  "finish_rows upd W k [] p = (p, [])"
| "finish_rows upd W k (rid # rids) p =
     (let (p1, fx1) = finish_row (upd (w_clock W k)) rid (w_yield W k p);
          (p2, fx2) = finish_rows upd W (Suc k) rids p1
      in (p2, fx1 @ fx2))"

section \<open>complete_request\<close>

definition complete_take :: "time \<Rightarrow> exec_id \<Rightarrow> pool \<Rightarrow> pool" where
  "complete_take now rid p =
     (case hget (inflight p) rid of
       None \<Rightarrow> p
     | Some e \<Rightarrow>
         let p1 = p\<lparr>inflight := hdel rid (inflight p)\<rparr>
         in case pe_session e of
             Some sid \<Rightarrow>
               p1\<lparr>sessions := hmod sid (\<lambda>r.
                 let r1 = r\<lparr>sr_activity := now\<rparr>
                 in if pe_mode e = Stateful then r1\<lparr>sr_stateful := sr_stateful r1 - 1\<rparr> else r1)
                 (sessions p1)\<rparr>
           | None \<Rightarrow>
               p1\<lparr>idle := idle p1 @ [\<lparr>we_id = pe_worker e, we_profile = pe_profile e,
                                      we_sink = pe_sink e\<rparr>]\<rparr>)"

definition complete_request :: "world \<Rightarrow> nat \<Rightarrow> result_frame \<Rightarrow> pool \<Rightarrow> pool \<times> effect list" where
  "complete_request W k result p =
     (let p1 = complete_take (w_clock W k) (res_request_id result) p
      in finish_row (result_row result (w_clock W (Suc k))) (res_request_id result) (w_yield W k p1))"

section \<open>handle_worker_drop\<close>

definition drop_inflight :: "worker_id \<Rightarrow> pool \<Rightarrow> (exec_id \<times> pending_entry) list \<times> pool" where
  "drop_inflight w p =
     (filter (\<lambda>(_, e). pe_worker e = w) (inflight p),
      p\<lparr>inflight := hretain (\<lambda>_ e. pe_worker e \<noteq> w) (inflight p)\<rparr>)"

text \<open>What the second critical section takes out: the location, the closers, the terminal and the
  effects it has under the lock.\<close>

record dropped =
  dp_location :: "worker_location option"
  dp_closed :: "chan list"
  dp_terminal :: "chan option"
  dp_effects :: "effect list"

definition fail_session :: "time \<Rightarrow> session_record \<Rightarrow> session_record" where
  "fail_session now r = (clear_inputs (r\<lparr>sr_state := Failed, sr_finished := Some now\<rparr>))
     \<lparr>sr_terminal := None, sr_opened := None, sr_closed := []\<rparr>"

definition drop_worker :: "time \<Rightarrow> worker_id \<Rightarrow> pool \<Rightarrow> dropped \<times> pool" where
  "drop_worker now w p =
     (let failed = (case hget (worker_sessions p) w of
                     None \<Rightarrow> None
                   | Some sid \<Rightarrow> map_option (Pair sid) (hget (sessions p) sid));
          ready = (case failed of
                     Some (_, r) \<Rightarrow> (case sr_opened r of
                         Some ch \<Rightarrow> [FireReady ch (Inl ''worker disconnected'')] | None \<Rightarrow> [])
                   | None \<Rightarrow> []);
          pty = (case hget (pty_sessions p) w of
                   Some ch \<Rightarrow> [SendPty ch (PtyExited None None (Some ''worker disconnected''))]
                 | None \<Rightarrow> [])
      in (\<lparr>dp_location = (case hget (liveness p) w of None \<Rightarrow> None | Some l \<Rightarrow> lv_location l),
           dp_closed = (case failed of None \<Rightarrow> [] | Some (_, r) \<Rightarrow> sr_closed r),
           dp_terminal = (case failed of None \<Rightarrow> None | Some (_, r) \<Rightarrow> sr_terminal r),
           dp_effects = ready @ pty\<rparr>,
          p\<lparr>idle := filter (\<lambda>e. we_id e \<noteq> w) (idle p),
            worker_sessions := hdel w (worker_sessions p),
            sessions := (case failed of None \<Rightarrow> sessions p
                         | Some (sid, _) \<Rightarrow> hmod sid (fail_session now) (sessions p)),
            pty_sessions := hdel w (pty_sessions p),
            liveness := hdel w (liveness p)\<rparr>))"

definition drop_outcome ::
    "pool_config \<Rightarrow> worker_id \<Rightarrow> worker_location option \<Rightarrow> handle_status \<times> exit_cause" where
  "drop_outcome cfg w location =
     (let oom = (case cfg_probe cfg of
                  Some probe \<Rightarrow>
                    (let (pod_name, ns, cont) = worker_location cfg w location in probe pod_name ns cont)
                | None \<Rightarrow> False)
      in if oom then (Oomkilled, OomContainer) else (Error, WorkerDied))"

definition handle_worker_drop ::
    "pool_config \<Rightarrow> world \<Rightarrow> nat \<Rightarrow> worker_id \<Rightarrow> pool \<Rightarrow> pool \<times> effect list" where
  "handle_worker_drop cfg W k w p =
     (let (pending, p1) = drop_inflight w p;
          (d, p2) = drop_worker (w_clock W k) w (w_yield W k p1);
          fx = dp_effects d @ (case dp_terminal d of None \<Rightarrow> []
                 | Some ch \<Rightarrow> [SendTerminal ch (TermClosed (Some ''worker disconnected''))])
      in if pending = [] then (p2, fx @ map FireClosed (dp_closed d))
         else let (status, cause) = drop_outcome cfg w (dp_location d);
                  (p3, fx3) = finish_rows (dropped_row status cause) W (Suc k) (map fst pending) p2
              in (p3, fx @ fx3 @ map FireClosed (dp_closed d)))"

section \<open>Polling, cancelling, listing and purging handles\<close>

definition poll_row :: "time \<Rightarrow> exec_id \<Rightarrow> pool \<Rightarrow> pool" where
  "poll_row now rid p = p\<lparr>handles := hmod rid (\<lambda>row. row\<lparr>hr_polled := now\<rparr>) (handles p)\<rparr>"

definition touch_and_snapshot :: "time \<Rightarrow> exec_id \<Rightarrow> pool \<Rightarrow> handle_snapshot option \<times> pool" where
  "touch_and_snapshot now rid p =
     (map_option snapshot_from (hget (handles p) rid), poll_row now rid p)"

definition touch_session_handle ::
    "time \<Rightarrow> session_id \<Rightarrow> exec_id \<Rightarrow> pool \<Rightarrow> handle_snapshot option \<times> pool" where
  "touch_session_handle now sid rid p =
     (case hget (handles p) rid of
       None \<Rightarrow> (None, p)
     | Some row \<Rightarrow>
         if hr_session row \<noteq> Some sid then (None, p)
         else (Some (snapshot_from row), poll_row now rid p))"

text \<open>\<open>cancel\<close>: the flag is set under the row's lock, the sink is looked up under the pool's lock, and
  the snapshot is taken again at the end.\<close>

definition cancel_request :: "exec_id \<Rightarrow> pool \<Rightarrow> bool \<times> pool" where
  "cancel_request rid p =
     (case hget (handles p) rid of
       None \<Rightarrow> (False, p)
     | Some row \<Rightarrow>
         if hr_status row = Running \<and> \<not> hr_cancel_requested row
         then (True, p\<lparr>handles := hput rid (row\<lparr>hr_cancel_requested := True\<rparr>) (handles p)\<rparr>)
         else (False, p))"

definition cancel ::
    "world \<Rightarrow> exec_id \<Rightarrow> pool \<Rightarrow> handle_snapshot option \<times> pool \<times> effect list" where
  "cancel W rid p =
     (case hget (handles p) rid of
       None \<Rightarrow> (None, p, [])
     | Some row0 \<Rightarrow>
         let (send_cancel, p1) = cancel_request rid p;
             p2 = w_yield W 0 p1;
             fx = (if send_cancel
                   then (case hget (inflight p2) rid of None \<Rightarrow> []
                         | Some e \<Rightarrow> [SendFrame (pe_sink e) (Text (Cancel rid))])
                   else []);
             p3 = w_yield W 1 p2;
             row = (case hget (handles p3) rid of Some r \<Rightarrow> r | None \<Rightarrow> row0)
         in (Some (snapshot_from row), p3, fx))"

definition purge_handle :: "exec_id \<Rightarrow> pool \<Rightarrow> pool \<times> effect list" where
  "purge_handle rid p =
     (p\<lparr>handles := hdel rid (handles p)\<rparr>,
      if hhas (handles p) rid then [PurgeSpool rid] else [])"

definition list_snapshots :: "pool \<Rightarrow> handle_snapshot list" where
  "list_snapshots p = map (\<lambda>(_, row). snapshot_from row) (handles p)"

text \<open>\<open>sort_by(started_at).then(handle_id)\<close>: the stable sort by the second key, then by the first.\<close>

definition sort_commands :: "handle_snapshot list \<Rightarrow> handle_snapshot list" where
  "sort_commands xs = sort_key sn_started (sort_key (\<lambda>s. eid_str (sn_handle s)) xs)"

definition list_session_commands ::
    "time \<Rightarrow> session_id \<Rightarrow> pool \<Rightarrow> handle_snapshot list option \<times> pool" where
  "list_session_commands now sid p =
     (case hget (sessions p) sid of
       None \<Rightarrow> (None, p)
     | Some r \<Rightarrow>
         (let r1 = (if sr_state r = Active then r\<lparr>sr_activity := now\<rparr> else r);
              mine = filter (\<lambda>(_, row). hr_session row = Some sid) (handles p)
          in (Some (sort_commands (map (\<lambda>(_, row). snapshot_from row) mine)),
              p\<lparr>sessions := hput sid r1 (sessions p),
                handles := map (\<lambda>(rid, row). (rid, if hr_session row = Some sid
                  then row\<lparr>hr_polled := now\<rparr> else row)) (handles p)\<rparr>)))"

definition last_polled :: "exec_id \<Rightarrow> pool \<Rightarrow> time option" where
  "last_polled rid p = map_option hr_polled (hget (handles p) rid)"

definition wait_returns :: "exec_id \<Rightarrow> pool \<Rightarrow> bool" where
  "wait_returns rid p =
     (case hget (handles p) rid of None \<Rightarrow> True | Some row \<Rightarrow> hr_status row \<noteq> Running)"

section \<open>Routing worker output\<close>

definition mark_spool_failed :: "exec_id \<Rightarrow> pool \<Rightarrow> pool" where
  "mark_spool_failed rid p =
     p\<lparr>handles := hmod rid (\<lambda>row. row\<lparr>hr_spool_failed := True\<rparr>) (handles p)\<rparr>"

definition owns_request :: "worker_id \<Rightarrow> exec_id \<Rightarrow> pool \<Rightarrow> bool" where
  "owns_request w rid p =
     (case hget (inflight p) rid of None \<Rightarrow> False | Some e \<Rightarrow> pe_worker e = w)"

definition route_spool ::
    "world \<Rightarrow> worker_id \<Rightarrow> capture_stream \<Rightarrow> output_chunk \<Rightarrow> pool \<Rightarrow> pool \<times> effect list" where
  "route_spool W w which c p =
     (if \<not> valid_capture_id (chunk_id c) then (p, [])
      else let rid = ExecId (chunk_id c)
           in if \<not> owns_request w rid p then (p, [])
              else case w_spool W of
                SpoolOk \<Rightarrow> (w_yield W 0 p, [AppendSpool rid which (chunk_bytes c)])
              | _ \<Rightarrow> (mark_spool_failed rid (w_yield W 0 p), []))"

definition route_output ::
    "world \<Rightarrow> worker_id \<Rightarrow> output_chunk \<Rightarrow> pool \<Rightarrow> pool \<times> effect list" where
  "route_output W w c p =
     (case chunk_stream c of
       Stdout \<Rightarrow> route_spool W w OutStream c p
     | Stderr \<Rightarrow> route_spool W w ErrStream c p
     | Terminal \<Rightarrow>
         (p, case hget (worker_sessions p) w of
               None \<Rightarrow> []
             | Some sid \<Rightarrow>
                 if sid_str sid \<noteq> chunk_id c then []
                 else case hget (sessions p) sid of
                   None \<Rightarrow> []
                 | Some r \<Rightarrow> (case sr_terminal r of None \<Rightarrow> []
                              | Some ch \<Rightarrow> [SendTerminal ch (TermOutput (chunk_bytes c))]))
     | Stdin \<Rightarrow> (p, []))"

section \<open>Session-less dispatch and pinned terminals\<close>

definition fresh_row :: "exec_id \<Rightarrow> session_id option \<Rightarrow> worker_id \<Rightarrow> time \<Rightarrow> handle_row" where
  "fresh_row rid sid w now = \<lparr>hr_id = rid, hr_session = sid, hr_worker = w, hr_started = now,
     hr_polled = now, hr_status = Running, hr_finished = None, hr_exit_code = None,
     hr_exit_signal = None, hr_cause = None, hr_cancel_requested = False, hr_cancelled = False,
     hr_spool_failed = False\<rparr>"

definition pop_idle :: "pool \<Rightarrow> (worker_entry \<times> pool) option" where
  "pop_idle p = (case idle p of [] \<Rightarrow> None | w # ws \<Rightarrow> Some (w, p\<lparr>idle := ws\<rparr>))"

definition dispatch_register :: "worker_entry \<Rightarrow> exec_id \<Rightarrow> time \<Rightarrow> time \<Rightarrow> pool \<Rightarrow> pool" where
  "dispatch_register wk rid started now p =
     p\<lparr>inflight := hput rid \<lparr>pe_sink = we_sink wk, pe_worker = we_id wk, pe_profile = we_profile wk,
         pe_session = None, pe_mode = Parallel, pe_started = now\<rparr> (inflight p),
       handles := hput rid (fresh_row rid None (we_id wk) started) (handles p)\<rparr>"

text \<open>What is undone when the files of the capture cannot be made, and when the frame cannot be sent.\<close>

definition put_back :: "worker_entry \<Rightarrow> pool \<Rightarrow> pool" where
  [simp]: "put_back wk p = p\<lparr>idle := wk # idle p\<rparr>"

definition dispatch_forget :: "exec_id \<Rightarrow> pool \<Rightarrow> pool" where
  [simp]: "dispatch_forget rid p = p\<lparr>inflight := hdel rid (inflight p), handles := hdel rid (handles p)\<rparr>"

text \<open>The send of \<open>dispatch\<close> has no time limit, so \<open>SendTimedOut\<close> does not occur in it.\<close>

definition dispatch ::
    "world \<Rightarrow> execute_frame \<Rightarrow> pool \<Rightarrow> (dispatch_error + handle_snapshot) \<times> pool \<times> effect list" where
  "dispatch W execute p =
     (let rid = request_id execute; started = w_clock W 0
      in if \<not> valid_capture_id (eid_str rid)
         then (Inl (DispatchSend ''invalid command handle id''), p, [])
         else case pop_idle p of
           None \<Rightarrow> (Inl NoIdleWorker, p, [PoolRejected])
         | Some (wk, p1) \<Rightarrow>
             let p2 = w_yield W 0 p1
             in case w_setup W of
               Some e \<Rightarrow> (Inl (DispatchSend (''capture setup: '' @ e)), put_back wk p2,
                          [CreateSpool rid, PurgeSpool rid])
             | None \<Rightarrow>
                 (case w_serialize W of
                   Some e \<Rightarrow> (Inl (DispatchSend e), put_back wk p2,
                              [CreateSpool rid, PurgeSpool rid])
                 | None \<Rightarrow>
                     (let p3 = dispatch_register wk rid started (w_clock W 1) p2;
                          p4 = w_yield W 1 p3;
                          fx = [CreateSpool rid, SendFrame (we_sink wk) (Text (Execute execute))]
                      in case send_error [] (w_send W) of
                        Some e \<Rightarrow>
                          (Inl (DispatchSend (''worker '' @ wid_str (we_id wk) @ '': '' @ e)),
                           dispatch_forget rid p4,
                           fx @ [PurgeSpool rid] @ evict_worker (we_id wk) p4)
                      | None \<Rightarrow>
                          (Inr (snapshot_from (fresh_row rid None (we_id wk) started)), p4, fx))))"

definition acquire_pinned :: "chan \<Rightarrow> pool \<Rightarrow> worker_entry option \<times> pool" where
  "acquire_pinned ch p =
     (case pop_idle p of
       None \<Rightarrow> (None, p)
     | Some (wk, p1) \<Rightarrow> (Some wk, p1\<lparr>pty_sessions := hput (we_id wk) ch (pty_sessions p1)\<rparr>))"

definition release_pinned :: "worker_entry \<Rightarrow> pool \<Rightarrow> pool" where
  "release_pinned wk p =
     (let p1 = p\<lparr>pty_sessions := hdel (we_id wk) (pty_sessions p)\<rparr>
      in if hhas (liveness p1) (we_id wk) then p1\<lparr>idle := idle p1 @ [wk]\<rparr> else p1)"

end
