(* ===== verification/PoolSessions.thy ===== *)
theory PoolSessions
  imports PoolHandles
begin

text \<open>
  The session side of \<open>pool/mod.rs\<close>: creation, close, command submission and terminal attachment, the
  frames a worker answers with, the read loop of a worker's connection, and the two periodic tasks
  (sweeper and keepalive).
\<close>

section \<open>Creating a session\<close>

definition touch_session :: "time \<Rightarrow> session_id \<Rightarrow> pool \<Rightarrow> pool" where
  "touch_session now sid p = p\<lparr>sessions := hmod sid (\<lambda>r.
     if sr_state r = Active then r\<lparr>sr_activity := now\<rparr> else r) (sessions p)\<rparr>"

definition session_snapshot :: "time \<Rightarrow> session_id \<Rightarrow> pool \<Rightarrow> session_snapshot option \<times> pool" where
  "session_snapshot now sid p =
     (map_option (session_snap sid) (hget (sessions p) sid), touch_session now sid p)"

definition created_session_snapshot ::
    "time \<Rightarrow> session_id \<Rightarrow> pool \<Rightarrow> (session_error + session_snapshot) \<times> pool" where
  "created_session_snapshot now sid p =
     (case hget (sessions p) sid of
       None \<Rightarrow> (Inl SessionNotFound, p)
     | Some r \<Rightarrow>
         if sr_state r \<noteq> Active \<or> \<not> hhas (liveness p) (sr_worker r)
            \<or> hget (worker_sessions p) (sr_worker r) \<noteq> Some sid
         then (Inl (WorkerErr ''worker disconnected during open''), p)
         else (Inr (session_snap sid r), touch_session now sid p))"

definition opening_record ::
    "time \<Rightarrow> string \<Rightarrow> session_open_frame \<Rightarrow> chan \<Rightarrow> worker_entry \<Rightarrow> session_record" where
  "opening_record now profile op ready wk = \<lparr>sr_worker = we_id wk, sr_profile = profile,
     sr_sink = we_sink wk, sr_state = Opening, sr_created = now, sr_activity = now,
     sr_finished = None, sr_opened = Some ready, sr_closed = [], sr_terminal = None,
     sr_workdir = open_working_dir op, sr_env = open_env op, sr_drop_to = open_drop_to op,
     sr_stateful = 0\<rparr>"

definition create_reserve ::
    "time \<Rightarrow> string \<Rightarrow> session_open_frame \<Rightarrow> chan \<Rightarrow> pool \<Rightarrow> (session_error + worker_entry) \<times> pool"
  where
  "create_reserve now profile op ready p =
     (if \<not> list_ex (\<lambda>(_, l). lv_profile l = profile) (liveness p) then (Inl UnknownProfile, p)
      else case take_first (\<lambda>w. we_profile w = profile) (idle p) of
        None \<Rightarrow> (Inl Busy, p)
      | Some (wk, rest) \<Rightarrow>
          (Inr wk, p\<lparr>idle := rest,
             worker_sessions := hput (we_id wk) (open_session_id op) (worker_sessions p),
             sessions := hput (open_session_id op) (opening_record now profile op ready wk)
               (sessions p)\<rparr>))"

definition create_session ::
    "pool_config \<Rightarrow> world \<Rightarrow> chan \<Rightarrow> string \<Rightarrow> session_open_frame \<Rightarrow> pool \<Rightarrow>
     (session_error + session_snapshot) \<times> pool \<times> effect list" where
  "create_session cfg W ready profile op p =
     (let sid = open_session_id op
      in case create_reserve (w_clock W 0) profile op ready p of
        (Inl e, p1) \<Rightarrow> (Inl e, p1, [])
      | (Inr wk, p1) \<Rightarrow>
          let fx = [SendFrame (we_sink wk) (Text (SessionOpen op))];
              p2 = w_yield W 0 p1
          in case send_error ''session open send timed out'' (w_send W) of
            Some e \<Rightarrow>
              (let (p3, fx3) = handle_worker_drop cfg W 1 (we_id wk) p2
               in (Inl (WorkerErr e), p3, fx @ fx3))
          | None \<Rightarrow>
              (let p3 = w_yield W 1 p2
               in case w_ready W of
                 ReadyOk \<Rightarrow>
                   (let (r, p4) = created_session_snapshot (w_clock W 1) sid p3 in (r, p4, fx))
               | ReadyErr e \<Rightarrow> (Inl (WorkerErr e), p3, fx)
               | ReadyDropped \<Rightarrow> (Inl (WorkerErr ''worker disconnected during open''), p3, fx)
               | ReadyTimedOut \<Rightarrow>
                   (let p4 = w_yield W 2 p3
                    in (Inl (WorkerErr ''session open timed out''), p4,
                        fx @ [SendFrame (we_sink wk) (Text (SessionClose sid))]
                          @ evict_worker (we_id wk) p4))))"

section \<open>Closing a session\<close>

definition session_commands :: "session_id \<Rightarrow> pool \<Rightarrow> exec_id list" where
  "session_commands sid p = map fst (filter (\<lambda>(_, e). pe_session e = Some sid) (inflight p))"

text \<open>The sweeper's condition, checked when it selects a session and again under the lock.\<close>

definition idle_session :: "time \<Rightarrow> nat \<Rightarrow> session_id \<Rightarrow> session_record \<Rightarrow> pool \<Rightarrow> bool" where
  "idle_session now ttl sid r p \<longleftrightarrow>
     sr_state r = Active \<and> sr_terminal r = None \<and> session_commands sid p = []
     \<and> duration_since now (sr_activity r) > ttl"

text \<open>What the locked section of \<open>close_session_inner\<close> decides: reply at once, or send (for the first
  closer) and wait.\<close>

datatype close_step =
    CloseReply "session_error + session_snapshot"
  | CloseWait conn worker_id bool

definition close_begin ::
    "(time \<times> nat) option \<Rightarrow> chan \<Rightarrow> session_id \<Rightarrow> pool \<Rightarrow> close_step \<times> pool" where
  "close_begin gate ch sid p =
     (case hget (sessions p) sid of
       None \<Rightarrow> (CloseReply (Inl SessionNotFound), p)
     | Some r \<Rightarrow>
         if (case gate of None \<Rightarrow> False | Some (now, ttl) \<Rightarrow> \<not> idle_session now ttl sid r p)
         then (CloseReply (Inr (session_snap sid r)), p)
         else if sr_state r \<in> {Closed, Failed}
         then (CloseReply (Inr (session_snap sid r)), p)
         else (CloseWait (sr_sink r) (sr_worker r) (sr_state r \<noteq> Closing),
               p\<lparr>sessions := hput sid (r\<lparr>sr_state := Closing, sr_closed := sr_closed r @ [ch]\<rparr>)
                  (sessions p)\<rparr>))"

definition close_session_inner ::
    "world \<Rightarrow> (time \<times> nat) option \<Rightarrow> chan \<Rightarrow> session_id \<Rightarrow> pool \<Rightarrow>
     (session_error + session_snapshot) \<times> pool \<times> effect list" where
  "close_session_inner W gate ch sid p =
     (if \<not> hhas (sessions p) sid then (Inl SessionNotFound, p, [])
      else case close_begin gate ch sid (w_yield W 0 p) of
        (CloseReply r, p1) \<Rightarrow> (r, p1, [])
      | (CloseWait sink w send_close, p1) \<Rightarrow>
          let fx = (if send_close then [SendFrame sink (Text (SessionClose sid))] else []);
              late = (if send_close
                      then send_error ''session close send timed out'' (w_send W) else None);
              p2 = w_yield W 1 p1
          in case late of
            Some e \<Rightarrow> (Inl (WorkerErr e), p2, fx @ evict_worker w p2)
          | None \<Rightarrow>
              (let p3 = w_yield W 2 p2
               in if w_closed_late W
                  then (Inl (WorkerErr ''session close timed out; worker evicted''), p3,
                        fx @ evict_worker w p3)
                  else case session_snapshot (w_clock W 0) sid p3 of
                    (Some s, p4) \<Rightarrow> (Inr s, p4, fx)
                  | (None, p4) \<Rightarrow> (Inl SessionNotFound, p4, fx)))"

definition close_session ::
    "world \<Rightarrow> chan \<Rightarrow> session_id \<Rightarrow> pool \<Rightarrow>
     (session_error + session_snapshot) \<times> pool \<times> effect list" where
  "close_session W ch sid p = close_session_inner W None ch sid p"

section \<open>Submitting a command\<close>

definition submit_error :: "command_mode \<Rightarrow> session_id \<Rightarrow> pool \<Rightarrow> session_error option" where
  "submit_error mode sid p =
     (case hget (sessions p) sid of
       None \<Rightarrow> Some SessionNotFound
     | Some r \<Rightarrow>
         if sr_state r \<noteq> Active then Some NotActive
         else if mode = Stateful \<and> sr_terminal r \<noteq> None then Some TerminalBusy
         else None)"

text \<open>What the first section copies out of the record for the rest of the handler.\<close>

record captured =
  cp_worker :: worker_id
  cp_profile :: string
  cp_sink :: conn
  cp_workdir :: string
  cp_env :: env_map
  cp_drop_to :: "drop_to option"

definition captured_of :: "session_record \<Rightarrow> captured" where
  "captured_of r = \<lparr>cp_worker = sr_worker r, cp_profile = sr_profile r, cp_sink = sr_sink r,
     cp_workdir = sr_workdir r, cp_env = sr_env r, cp_drop_to = sr_drop_to r\<rparr>"

definition submit_check ::
    "command_mode \<Rightarrow> session_id \<Rightarrow> pool \<Rightarrow> session_error + captured" where
  "submit_check mode sid p =
     (case submit_error mode sid p of
       Some e \<Rightarrow> Inl e
     | None \<Rightarrow> Inr (captured_of (the (hget (sessions p) sid))))"

definition submit_register ::
    "time \<Rightarrow> time \<Rightarrow> captured \<Rightarrow> session_id \<Rightarrow> exec_id \<Rightarrow> command_mode \<Rightarrow> pool \<Rightarrow>
     session_error option \<times> pool" where
  "submit_register started now cap sid rid mode p =
     (case submit_error mode sid p of
       Some e \<Rightarrow> (Some e, p)
     | None \<Rightarrow>
         (None, p\<lparr>
            inflight := hput rid \<lparr>pe_sink = cp_sink cap, pe_worker = cp_worker cap,
              pe_profile = cp_profile cap, pe_session = Some sid, pe_mode = mode,
              pe_started = now\<rparr> (inflight p),
            handles := hput rid (fresh_row rid (Some sid) (cp_worker cap) started) (handles p),
            sessions := hmod sid (\<lambda>r. r\<lparr>
              sr_stateful := (if mode = Stateful then sr_stateful r + 1 else sr_stateful r),
              sr_activity := now\<rparr>) (sessions p)\<rparr>))"

definition run_frame ::
    "captured \<Rightarrow> session_id \<Rightarrow> exec_id \<Rightarrow> string \<Rightarrow> command_mode \<Rightarrow> frame" where
  "run_frame cap sid rid cmd mode =
     SessionRun sid \<lparr>request_id = rid, command = cmd, working_dir = cp_workdir cap,
       env = cp_env cap, exec_drop_to = cp_drop_to cap\<rparr> mode"

definition submit_session_command ::
    "pool_config \<Rightarrow> world \<Rightarrow> session_id \<Rightarrow> exec_id \<Rightarrow> string \<Rightarrow> command_mode \<Rightarrow> pool \<Rightarrow>
     (session_error + handle_snapshot) \<times> pool \<times> effect list" where
  "submit_session_command cfg W sid rid cmd mode p =
     (if \<not> valid_capture_id (eid_str rid)
      then (Inl (WorkerErr ''invalid command handle id''), p, [])
      else if \<not> hhas (sessions p) sid then (Inl SessionNotFound, p, [])
      else let p1 = w_yield W 0 p
      in case submit_check mode sid p1 of
        Inl e \<Rightarrow> (Inl e, p1, [])
      | Inr cap \<Rightarrow>
          let p2 = w_yield W 1 p1
          in case w_setup W of
            Some e \<Rightarrow> (Inl (WorkerErr e), p2, [CreateSpool rid, PurgeSpool rid])
          | None \<Rightarrow>
              (case submit_register (w_clock W 0) (w_clock W 1) cap sid rid mode p2 of
                (Some e, p3) \<Rightarrow> (Inl e, p3, [CreateSpool rid, PurgeSpool rid])
              | (None, p3) \<Rightarrow>
                  (let p4 = w_yield W 2 p3;
                       fx = [CreateSpool rid,
                             SendFrame (cp_sink cap) (Text (run_frame cap sid rid cmd mode))]
                   in case send_error ''session command send timed out'' (w_send W) of
                     Some e \<Rightarrow>
                       (let (p5, fx5) = handle_worker_drop cfg W 3 (cp_worker cap) p4
                        in (Inl (WorkerErr e), p5, fx @ fx5))
                   | None \<Rightarrow>
                       (Inr (snapshot_from (case hget (handles p4) rid of Some row \<Rightarrow> row
                          | None \<Rightarrow> fresh_row rid (Some sid) (cp_worker cap) (w_clock W 0))),
                        p4, fx))))"

section \<open>The terminal\<close>

record attachment =
  at_session :: session_id
  at_sink :: conn
  at_reservation :: chan

definition attach_terminal ::
    "time \<Rightarrow> chan \<Rightarrow> session_id \<Rightarrow> pool \<Rightarrow> (session_error + attachment) \<times> pool" where
  "attach_terminal now ch sid p =
     (case hget (sessions p) sid of
       None \<Rightarrow> (Inl SessionNotFound, p)
     | Some r \<Rightarrow>
         if sr_state r \<noteq> Active then (Inl NotActive, p)
         else if sr_terminal r \<noteq> None then (Inl TerminalBusy, p)
         else if sr_stateful r > 0 then (Inl TerminalBusy, p)
         else (Inr \<lparr>at_session = sid, at_sink = sr_sink r, at_reservation = ch\<rparr>,
               p\<lparr>sessions := hput sid (r\<lparr>sr_terminal := Some ch, sr_activity := now\<rparr>)
                 (sessions p)\<rparr>))"

definition detach_terminal_if :: "time \<Rightarrow> session_id \<Rightarrow> chan \<Rightarrow> pool \<Rightarrow> pool" where
  "detach_terminal_if now sid reservation p =
     p\<lparr>sessions := hmod sid (\<lambda>r. if sr_terminal r = Some reservation
         then r\<lparr>sr_terminal := None, sr_activity := now\<rparr> else r) (sessions p)\<rparr>"

definition terminal_send :: "attachment \<Rightarrow> bytes \<Rightarrow> effect list option" where
  "terminal_send a bs = map_option (\<lambda>b. [SendFrame (at_sink a) (Binary b)])
     (encode \<lparr>chunk_stream = Stdin, chunk_id = sid_str (at_session a), chunk_bytes = bs\<rparr>)"

definition terminal_resize_frame :: "attachment \<Rightarrow> 16 word \<Rightarrow> 16 word \<Rightarrow> effect list" where
  "terminal_resize_frame a cols rows =
     [SendFrame (at_sink a) (Text (SessionResize (at_session a) cols rows))]"

end
