(* ===== verification/Traces.thy ===== *)
theory Traces
  imports Main
begin

text \<open>
  Loops that turn one input at a time into effects, and monitors of the traces they leave.  A monitor
  reads a trace from left to right and refuses it at the first effect that breaks the discipline it
  watches; a loop whose every turn moves the monitor along with a view of its own state only leaves
  traces the monitor accepts.
\<close>

fun drive :: "('s \<Rightarrow> bool) \<Rightarrow> ('s \<Rightarrow> 'i \<Rightarrow> 's \<times> 'a list) \<Rightarrow> 'i list \<Rightarrow> 's \<Rightarrow> 's \<times> 'a list" where
  "drive live turn [] s = (s, [])"
| "drive live turn (i # is) s =
     (if live s then
        let (s1, a1) = turn s i; (s2, a2) = drive live turn is s1 in (s2, a1 @ a2)
      else (s, []))"

fun monitor :: "('m \<Rightarrow> 'a \<Rightarrow> 'm option) \<Rightarrow> 'm \<Rightarrow> 'a list \<Rightarrow> 'm option" where
  "monitor watch m [] = Some m"
| "monitor watch m (a # as) = (case watch m a of None \<Rightarrow> None | Some m1 \<Rightarrow> monitor watch m1 as)"

lemma monitor_append:
  "monitor watch m (as @ bs) =
     (case monitor watch m as of None \<Rightarrow> None | Some m1 \<Rightarrow> monitor watch m1 bs)"
  by (induction as arbitrary: m) (auto split: option.split)

lemma monitor_append_Some:
  "monitor watch m (as @ bs) = Some m2 \<longleftrightarrow>
     (\<exists>m1. monitor watch m as = Some m1 \<and> monitor watch m1 bs = Some m2)"
  by (auto simp: monitor_append split: option.split)

lemma monitor_neutral:
  "(\<And>a. a \<in> set as \<Longrightarrow> watch m a = Some m) \<Longrightarrow> monitor watch m as = Some m"
  by (induction as) auto

text \<open>What a monitor has seen at a point of an accepted trace.\<close>

lemma monitor_at:
  assumes "monitor watch m (as @ a # bs) = Some m2"
  obtains m1 m1' where "monitor watch m as = Some m1" "watch m1 a = Some m1'"
    "monitor watch m1' bs = Some m2"
  using assms by (auto simp: monitor_append_Some split: option.splits)

text \<open>A value of the monitor's state that only the effects \<open>P\<close> end.\<close>

lemma monitor_until:
  assumes "monitor watch m as = Some m1" "holds m" "\<not> holds m1"
    and keep: "\<And>x a y. watch x a = Some y \<Longrightarrow> holds x \<Longrightarrow> \<not> ends a \<Longrightarrow> holds y"
  shows "\<exists>a \<in> set as. ends a"
  using assms(1,2,3)
proof (induction as arbitrary: m)
  case Nil
  then show ?case by simp
next
  case (Cons a as)
  then obtain y where y: "watch m a = Some y" "monitor watch y as = Some m1"
    by (auto split: option.splits)
  show ?case
  proof (cases "ends a")
    case True
    then show ?thesis by simp
  next
    case False
    with keep [OF y(1)] Cons.prems(2) have "holds y" by simp
    from Cons.IH [OF y(2) this Cons.prems(3)] show ?thesis by auto
  qed
qed

lemma drive_append:
  "drive live turn (is @ js) s =
     (let (s1, a1) = drive live turn is s; (s2, a2) = drive live turn js s1 in (s2, a1 @ a2))"
proof (induction "is" arbitrary: s)
  case Nil
  then show ?case by simp
next
  case (Cons i "is")
  have "\<not> live s \<Longrightarrow> drive live turn js s = (s, [])" by (cases js) simp_all
  with Cons show ?case by (auto simp: Let_def split_beta)
qed

text \<open>What every turn keeps, the loop keeps.\<close>

lemma drive_keeps:
  assumes "\<And>s i. i \<in> set is \<Longrightarrow> P s \<Longrightarrow> P (fst (turn s i))"
  shows "P s \<Longrightarrow> P (fst (drive live turn is s))"
  using assms by (induction "is" arbitrary: s) (auto simp: Let_def split_beta)

text \<open>An effect of a loop is an effect of one of its turns.\<close>

lemma drive_effect:
  "a \<in> set (snd (drive live turn is s)) \<Longrightarrow> \<exists>i \<in> set is. \<exists>s. a \<in> set (snd (turn s i))"
  by (induction "is" arbitrary: s) (auto simp: Let_def split_beta split: if_splits)

text \<open>What a turn keeps unless it leaves an effect \<open>ends\<close> or leaves the loop, the loop keeps.\<close>

lemma drive_unless:
  assumes "drive live turn is s = (t, as)" "live t" "P s"
    and keep: "\<And>s i t as. turn s i = (t, as) \<Longrightarrow> P s \<Longrightarrow> P t \<or> (\<exists>a \<in> set as. ends a) \<or> \<not> live t"
  shows "P t \<or> (\<exists>a \<in> set as. ends a)"
  using assms(1,2,3)
proof (induction "is" arbitrary: s as)
  case Nil
  then show ?case by simp
next
  case (Cons i "is")
  show ?case
  proof (cases "live s")
    case True
    obtain s1 a1 where t1: "turn s i = (s1, a1)" by fastforce
    obtain s2 a2 where t2: "drive live turn is s1 = (s2, a2)" by fastforce
    have eq: "as = a1 @ a2" "t = s2" using Cons.prems(1) True t1 t2 by simp_all
    have "\<not> live s1 \<Longrightarrow> s2 = s1" using t2 by (cases "is") auto
    with keep [OF t1 Cons.prems(3)] eq Cons.prems(2) consider "P s1" | "\<exists>a \<in> set a1. ends a" by blast
    then show ?thesis
    proof cases
      case 1
      from Cons.IH [OF t2 [folded eq(2)] Cons.prems(2) 1] eq(1) show ?thesis by auto
    next
      case 2
      with eq(1) show ?thesis by auto
    qed
  next
    case False
    with Cons.prems show ?thesis by simp
  qed
qed

text \<open>A loop whose turns keep an invariant and move a monitor along.\<close>

locale monitored_loop =
  fixes live :: "'s \<Rightarrow> bool" and turn :: "'s \<Rightarrow> 'i \<Rightarrow> 's \<times> 'a list" and inv :: "'s \<Rightarrow> bool"
    and input_ok :: "'i \<Rightarrow> bool"
    and watch :: "'m \<Rightarrow> 'a \<Rightarrow> 'm option" and view :: "'s \<Rightarrow> 'm"
  assumes turn_inv: "inv s \<Longrightarrow> live s \<Longrightarrow> input_ok i \<Longrightarrow> turn s i = (t, as) \<Longrightarrow> inv t"
    and turn_watch: "inv s \<Longrightarrow> live s \<Longrightarrow> input_ok i \<Longrightarrow> turn s i = (t, as) \<Longrightarrow>
      monitor watch (view s) as = Some (view t)"
begin

lemma drive_inv: "drive live turn is s = (t, as) \<Longrightarrow> inv s \<Longrightarrow> list_all input_ok is \<Longrightarrow> inv t"
proof (induction "is" arbitrary: s as t)
  case Nil
  then show ?case by simp
next
  case (Cons i "is")
  then show ?case
    by (auto split: if_splits prod.splits dest: turn_inv)
qed

lemma drive_watch:
  "drive live turn is s = (t, as) \<Longrightarrow> inv s \<Longrightarrow> list_all input_ok is \<Longrightarrow>
    monitor watch (view s) as = Some (view t)"
proof (induction "is" arbitrary: s as t)
  case Nil
  then show ?case by simp
next
  case (Cons i "is")
  show ?case
  proof (cases "live s")
    case True
    obtain s1 a1 where t1: "turn s i = (s1, a1)" by fastforce
    obtain s2 a2 where t2: "drive live turn is s1 = (s2, a2)" by fastforce
    have ok: "input_ok i" "list_all input_ok is" using Cons.prems(3) by simp_all
    have "as = a1 @ a2" "t = s2" using Cons.prems(1) True t1 t2 by simp_all
    moreover have "monitor watch (view s) a1 = Some (view s1)"
      by (rule turn_watch [OF Cons.prems(2) True ok(1) t1])
    moreover have "monitor watch (view s1) a2 = Some (view s2)"
      by (rule Cons.IH [OF t2 turn_inv [OF Cons.prems(2) True ok(1) t1] ok(2)])
    ultimately show ?thesis by (simp add: monitor_append_Some)
  next
    case False
    with Cons.prems(1) show ?thesis by simp
  qed
qed

end

end
