(* ===== verification/PoolConn.thy ===== *)
theory PoolConn
  imports PoolSessions Traces
begin

text \<open>
  The worker side of \<open>pool/mod.rs\<close>: the registration of a connection, the handlers of the frames a
  worker sends, its read loop (one function call per input of the \<open>select!\<close>), and the two periodic
  tasks of the pool, the sweeper and the keepalive pinger.
\<close>

section \<open>Frames of the session protocol\<close>

definition ready_record :: "time \<Rightarrow> string option \<Rightarrow> session_record \<Rightarrow> session_record" where
  "ready_record now error r =
     (let r1 = (if sr_state r = Opening
                then (case error of
                        Some _ \<Rightarrow> clear_inputs (r\<lparr>sr_state := Failed, sr_finished := Some now\<rparr>)
                      | None \<Rightarrow> r\<lparr>sr_state := Active\<rparr>)
                else r)
      in r1\<lparr>sr_opened := None\<rparr>)"

definition session_ready ::
    "time \<Rightarrow> worker_id \<Rightarrow> session_id \<Rightarrow> string option \<Rightarrow> pool \<Rightarrow> pool \<times> effect list" where
  "session_ready now w sid error p =
     (case hget (sessions p) sid of
       None \<Rightarrow> (p, [])
     | Some r \<Rightarrow>
         if sr_worker r \<noteq> w then (p, [])
         else (p\<lparr>sessions := hput sid (ready_record now error r) (sessions p)\<rparr>,
               case sr_opened r of None \<Rightarrow> []
               | Some ch \<Rightarrow> [FireReady ch (case error of None \<Rightarrow> Inr () | Some e \<Rightarrow> Inl e)]))"

record closed_out =
  co_pending :: "exec_id list"
  co_closed :: "chan list"
  co_terminal :: "chan option"
  co_cause :: exit_cause
  co_effects :: "effect list"

definition close_cause :: "string option \<Rightarrow> session_record \<Rightarrow> exit_cause" where
  "close_cause error r =
     (if sr_state r = Closing \<and> error = None then Cancelled else WorkerError)"

definition closed_record :: "time \<Rightarrow> string option \<Rightarrow> session_record \<Rightarrow> session_record" where
  "closed_record now error r = (clear_inputs (r\<lparr>
     sr_state := (if error \<noteq> None then Failed else Closed), sr_finished := Some now\<rparr>))
     \<lparr>sr_terminal := None, sr_opened := None, sr_closed := []\<rparr>"

text \<open>The locked section of \<open>session_closed\<close>; \<open>None\<close> when it returns early.\<close>

definition close_take ::
    "time \<Rightarrow> worker_id \<Rightarrow> session_id \<Rightarrow> string option \<Rightarrow> bool \<Rightarrow> pool \<Rightarrow> (closed_out \<times> pool) option"
  where
  "close_take now w sid error reusable p =
     (case hget (sessions p) sid of
       None \<Rightarrow> None
     | Some r \<Rightarrow>
         if sr_worker r \<noteq> w then None
         else Some
           (\<lparr>co_pending = session_commands sid p,
             co_closed = sr_closed r,
             co_terminal = sr_terminal r,
             co_cause = close_cause error r,
             co_effects = (case sr_opened r of None \<Rightarrow> []
               | Some ch \<Rightarrow> [FireReady ch (Inl (case error of Some e \<Rightarrow> e
                              | None \<Rightarrow> ''shell closed''))])\<rparr>,
            p\<lparr>sessions := hput sid (closed_record now error r) (sessions p),
              worker_sessions := hdel w (worker_sessions p),
              idle := (if reusable \<and> hhas (liveness p) w
                then idle p @ [\<lparr>we_id = w, we_profile = sr_profile r, we_sink = sr_sink r\<rparr>]
                else idle p),
              inflight := hretain (\<lambda>_ e. pe_session e \<noteq> Some sid) (inflight p)\<rparr>))"

definition session_closed ::
    "world \<Rightarrow> worker_id \<Rightarrow> session_id \<Rightarrow> string option \<Rightarrow> bool \<Rightarrow> pool \<Rightarrow> pool \<times> effect list" where
  "session_closed W w sid error reusable p =
     (case close_take (w_clock W 0) w sid error reusable p of
       None \<Rightarrow> (p, [])
     | Some (out, p1) \<Rightarrow>
         let (p2, fx) = finish_rows (closed_row (co_cause out)) W 1 (co_pending out) p1
         in (p2, co_effects out
               @ (case co_terminal out of None \<Rightarrow> [] | Some ch \<Rightarrow> [SendTerminal ch (TermClosed error)])
               @ fx @ map FireClosed (co_closed out)))"

section \<open>A worker's connection\<close>

definition register_worker ::
    "time \<Rightarrow> worker_id \<Rightarrow> string \<Rightarrow> worker_location option \<Rightarrow> conn \<Rightarrow> pool \<Rightarrow> string + pool" where
  "register_worker now w profile location c p =
     (if hhas (liveness p) w then Inl (''duplicate worker id '' @ wid_str w)
      else Inr (p\<lparr>idle := idle p @ [\<lparr>we_id = w, we_profile = profile, we_sink = c\<rparr>],
        liveness := hput w \<lparr>lv_last_seen = now, lv_shutdown = c, lv_location = location,
          lv_profile = profile\<rparr> (liveness p)\<rparr>))"

definition touch_worker :: "time \<Rightarrow> worker_id \<Rightarrow> pool \<Rightarrow> pool" where
  "touch_worker now w p = p\<lparr>liveness := hmod w (\<lambda>l. l\<lparr>lv_last_seen := now\<rparr>) (liveness p)\<rparr>"

text \<open>The inputs of the read loop: a message, the end of the stream or a socket error, and the
  shutdown signal.\<close>

datatype conn_input = Received message | StreamEnded | StreamError | Shutdown

definition handle_frame ::
    "world \<Rightarrow> worker_id \<Rightarrow> chan option \<Rightarrow> frame \<Rightarrow> pool \<Rightarrow> pool \<times> effect list" where
  "handle_frame W w pty f p =
     (case f of
       SessionReady sid error \<Rightarrow> session_ready (w_clock W 1) w sid error p
     | SessionClosed sid error reusable \<Rightarrow> session_closed W w sid error reusable p
     | PtyExit _ code signal error \<Rightarrow>
         (p, case pty of None \<Rightarrow> [] | Some ch \<Rightarrow> [SendPty ch (PtyExited code signal error)])
     | Result r \<Rightarrow> complete_request W 1 r p
     | _ \<Rightarrow> (p, []))"

text \<open>One turn of the loop: the wait for the message, the touch of the worker, the look-up of the terminal
  it may be pinned to, and the handler, with the other tasks in between.  The boolean says whether the loop
  goes on.\<close>

definition read_turn ::
    "world \<Rightarrow> worker_id \<Rightarrow> conn_input \<Rightarrow> pool \<Rightarrow> bool \<times> pool \<times> effect list" where
  "read_turn W w inp p =
     (let p0 = w_wait W 0 p
      in case inp of
          Shutdown \<Rightarrow> (False, p0, [])
        | StreamEnded \<Rightarrow> (False, p0, [])
        | StreamError \<Rightarrow> (False, touch_worker (w_clock W 0) w p0, [])
        | Received msg \<Rightarrow>
            let p1 = w_wait W 1 (touch_worker (w_clock W 0) w p0);
                pty = hget (pty_sessions p1) w;
                p2 = w_wait W 2 p1
            in case msg of
                Binary b \<Rightarrow>
                  (case pty of
                    Some ch \<Rightarrow> (True, p2, [SendPty ch (PtyOutput b)])
                  | None \<Rightarrow>
                      (case decode b of
                        Inl _ \<Rightarrow> (True, p2, [])
                      | Inr c \<Rightarrow> (True, route_output W w c p2)))
              | Text f \<Rightarrow> (True, handle_frame W w pty f p2)
              | BadText _ \<Rightarrow> (True, p2, [])
              | Close \<Rightarrow> (False, p2, [])
              | _ \<Rightarrow> (True, p2, []))"

text \<open>The loop over the inputs of one connection, each turn in its own world; the end of the input
  list is the end of the stream.\<close>

definition read_step :: "worker_id \<Rightarrow> bool \<times> pool \<Rightarrow> world \<times> conn_input \<Rightarrow> (bool \<times> pool) \<times> effect list" where
  "read_step w s x =
     (case x of (W, inp) \<Rightarrow> let (go, p1, fx) = read_turn W w inp (snd s) in ((go, p1), fx))"

definition read_loop ::
    "pool_config \<Rightarrow> worker_id \<Rightarrow> (world \<times> conn_input) list \<Rightarrow> world \<Rightarrow> pool \<Rightarrow> pool \<times> effect list"
  where
  "read_loop cfg w ins Wd p =
     (let ((_, p1), fx) = drive fst (read_step w) ins (True, p);
          (p2, fx2) = handle_worker_drop cfg Wd 0 w (w_wait Wd 0 p1)
      in (p2, fx @ fx2))"

definition register_and_run ::
    "pool_config \<Rightarrow> time \<Rightarrow> worker_id \<Rightarrow> string \<Rightarrow> worker_location option \<Rightarrow> conn \<Rightarrow>
     (world \<times> conn_input) list \<Rightarrow> world \<Rightarrow> pool \<Rightarrow> string + (pool \<times> effect list)" where
  "register_and_run cfg now w profile location c ins Wd p =
     (case register_worker now w profile location c p of
       Inl e \<Rightarrow> Inl e
     | Inr p1 \<Rightarrow> Inr (read_loop cfg w ins Wd p1))"

section \<open>The sweeper\<close>

definition sweep_handle ::
    "world \<Rightarrow> time \<Rightarrow> nat \<Rightarrow> nat \<Rightarrow> handle_snapshot \<Rightarrow> pool \<Rightarrow> pool \<times> effect list" where
  "sweep_handle W now running_ttl terminal_ttl snap p =
     (let Wd = (case last_polled (sn_handle snap) p of Some t \<Rightarrow> t | None \<Rightarrow> now);
          quiet = duration_since now Wd
      in if sn_status snap = Running
         then (if sn_session snap = None \<and> quiet > running_ttl
               then (let (_, p1, fx) = cancel W (sn_handle snap) p in (p1, fx))
               else (p, []))
         else (if quiet > terminal_ttl then purge_handle (sn_handle snap) p else (p, [])))"

fun sweep_handles ::
    "(nat \<Rightarrow> world) \<Rightarrow> time \<Rightarrow> nat \<Rightarrow> nat \<Rightarrow> nat \<Rightarrow> handle_snapshot list \<Rightarrow> pool \<Rightarrow> pool \<times> effect list"
  where
  "sweep_handles Ws now rttl tttl k [] p = (p, [])"
| "sweep_handles Ws now rttl tttl k (snap # snaps) p =
     (let (p1, fx1) = sweep_handle (Ws k) now rttl tttl snap p;
          (p2, fx2) = sweep_handles Ws now rttl tttl (Suc k) snaps p1
      in (p2, fx1 @ fx2))"

definition expired_sessions :: "time \<Rightarrow> nat \<Rightarrow> pool \<Rightarrow> session_id list" where
  "expired_sessions now ttl p =
     map fst (filter (\<lambda>(sid, r). idle_session now ttl sid r p) (sessions p))"

fun close_expired ::
    "(nat \<Rightarrow> world) \<Rightarrow> time \<Rightarrow> nat \<Rightarrow> nat \<Rightarrow> session_id list \<Rightarrow> (session_id \<Rightarrow> chan) \<Rightarrow> pool \<Rightarrow>
     pool \<times> effect list" where
  "close_expired Ws now ttl k [] ch p = (p, [])"
| "close_expired Ws now ttl k (sid # sids) ch p =
     (let (_, p1, fx1) = close_session_inner (Ws k) (Some (now, ttl)) (ch sid) sid p;
          (p2, fx2) = close_expired Ws now ttl (Suc k) sids ch p1
      in (p2, fx1 @ fx2))"

definition retain_sessions :: "time \<Rightarrow> nat \<Rightarrow> pool \<Rightarrow> pool" where
  "retain_sessions now ttl p = p\<lparr>sessions := hretain (\<lambda>_ r. case sr_finished r of
     None \<Rightarrow> True | Some at_time \<Rightarrow> duration_since now at_time \<le> ttl) (sessions p)\<rparr>"

definition sweeper_tick ::
    "(nat \<Rightarrow> world) \<Rightarrow> time \<Rightarrow> nat \<Rightarrow> nat \<Rightarrow> (session_id \<Rightarrow> chan) \<Rightarrow> pool \<Rightarrow> pool \<times> effect list" where
  "sweeper_tick Ws now running_ttl terminal_ttl ch p =
     (let snaps = list_snapshots p;
          (p1, fx1) = sweep_handles Ws now running_ttl terminal_ttl 0 snaps p;
          expired = expired_sessions now running_ttl p1;
          (p2, fx2) = close_expired Ws now running_ttl (length snaps) expired ch p1
      in (retain_sessions now terminal_ttl p2, fx1 @ fx2))"

section \<open>The keepalive pinger\<close>

text \<open>\<open>filter(|..| seen.insert(..))\<close>: the first entry for each worker.\<close>

fun first_by :: "('a \<Rightarrow> 'k) \<Rightarrow> 'k list \<Rightarrow> 'a list \<Rightarrow> 'a list" where
  "first_by key seen [] = []"
| "first_by key seen (x # xs) =
     (if key x \<in> set seen then first_by key seen xs
      else x # first_by key (key x # seen) xs)"

definition keepalive_targets :: "pool \<Rightarrow> (worker_id \<times> conn \<times> time \<times> conn) list" where
  "keepalive_targets p =
     (let idles = map (\<lambda>e. (we_id e, we_sink e)) (idle p);
          running = map (\<lambda>(_, e). (pe_worker e, pe_sink e)) (inflight p);
          owned = List.map_filter (\<lambda>(w, sid). map_option (\<lambda>r. (w, sr_sink r)) (hget (sessions p) sid))
            (worker_sessions p)
      in List.map_filter (\<lambda>(w, sink). map_option (\<lambda>l. (w, sink, lv_last_seen l, lv_shutdown l))
           (hget (liveness p) w)) (first_by fst [] (idles @ running @ owned)))"

text \<open>A ping is a send that takes some milliseconds, given up after two seconds: its outcome and what it took.\<close>

definition ping_limit :: time where "ping_limit = 2000"

definition ping_result :: "time \<times> send_outcome \<Rightarrow> send_outcome \<times> time" where
  "ping_result ds = (let (d, r) = ds in if d < ping_limit then (r, d) else (SendTimedOut, ping_limit))"

text \<open>One turn of the loop over the workers: what it does and how long it takes.\<close>

definition keepalive_worker ::
    "time \<Rightarrow> nat \<Rightarrow> (worker_id \<Rightarrow> time \<times> send_outcome) \<Rightarrow> worker_id \<times> conn \<times> time \<times> conn \<Rightarrow> effect list \<times> time"
  where
  "keepalive_worker now limit send t =
     (let (w, sink, last_seen, shutdown) = t
      in if duration_since now last_seen > limit then ([NotifyShutdown shutdown], 0)
         else let (r, d) = ping_result (send w)
              in (SendFrame sink (Ping []) # (if r = Sent then [] else [NotifyShutdown shutdown]), d))"

fun keepalive_workers ::
    "time \<Rightarrow> nat \<Rightarrow> (worker_id \<Rightarrow> time \<times> send_outcome) \<Rightarrow> (worker_id \<times> conn \<times> time \<times> conn) list \<Rightarrow> effect list \<times> time"
  where
  "keepalive_workers now limit send [] = ([], 0)"
| "keepalive_workers now limit send (t # ts) =
     (let (fx1, d1) = keepalive_worker now limit send t; (fx2, d2) = keepalive_workers now limit send ts
      in (fx1 @ fx2, d1 + d2))"

text \<open>What one tick does, and how long the loop is away from its ticker.\<close>

definition keepalive_tick ::
    "time \<Rightarrow> nat \<Rightarrow> (worker_id \<Rightarrow> time \<times> send_outcome) \<Rightarrow> pool \<Rightarrow> effect list \<times> time" where
  "keepalive_tick now limit send p = keepalive_workers now limit send (keepalive_targets p)"

end
