(* ===== verification/PoolInv.thy ===== *)
theory PoolInv
  imports PoolConn
begin

text \<open>
  The invariant of the pool's state, and one preservation lemma for each critical section of
  \<open>pool/mod.rs\<close> that the session API and the worker connections run.
\<close>

section \<open>The invariant\<close>

definition maps_ok :: "pool \<Rightarrow> bool" where
  "maps_ok p \<longleftrightarrow> hwf (inflight p) \<and> hwf (handles p) \<and> hwf (liveness p) \<and> hwf (sessions p)
     \<and> hwf (worker_sessions p)"

text \<open>Every idle entry is a distinct, registered, unreserved worker, with the profile and the socket
  of its registration.\<close>

definition idle_ok :: "pool \<Rightarrow> bool" where
  "idle_ok p \<longleftrightarrow> distinct (map we_id (idle p)) \<and>
     (\<forall>e \<in> set (idle p). hget (worker_sessions p) (we_id e) = None \<and>
        (\<exists>l. hget (liveness p) (we_id e) = Some l \<and> lv_profile l = we_profile e
             \<and> lv_shutdown l = we_sink e))"

text \<open>A reserved worker is registered, and its session names it with its profile and socket.\<close>

definition owner_ok :: "pool \<Rightarrow> bool" where
  "owner_ok p \<longleftrightarrow> (\<forall>w sid. hget (worker_sessions p) w = Some sid \<longrightarrow>
     (\<exists>l. hget (liveness p) w = Some l \<and>
        (\<forall>r. hget (sessions p) sid = Some r \<longrightarrow>
           sr_worker r = w \<and> sr_profile r = lv_profile l \<and> sr_sink r = lv_shutdown l)))"

text \<open>A live session holds its worker and has no end time; a finished one has an end time, no
  terminal, and none of the client's inputs.\<close>

definition session_ok :: "pool \<Rightarrow> session_id \<Rightarrow> session_record \<Rightarrow> bool" where
  "session_ok p sid r \<longleftrightarrow>
     (if live_state (sr_state r)
      then sr_finished r = None \<and> hget (worker_sessions p) (sr_worker r) = Some sid
      else sr_finished r \<noteq> None \<and> sr_terminal r = None \<and> sr_workdir r = [] \<and> sr_env r = []
           \<and> sr_drop_to r = None)"

definition sessions_ok :: "pool \<Rightarrow> bool" where
  "sessions_ok p \<longleftrightarrow> (\<forall>sid r. hget (sessions p) sid = Some r \<longrightarrow> session_ok p sid r)"

text \<open>The handle of an inflight request is running, on the same worker and for the same session, if any; the
  request of a session runs on that session's worker.\<close>

definition requests_ok :: "pool \<Rightarrow> bool" where
  "requests_ok p \<longleftrightarrow> (\<forall>rid e. hget (inflight p) rid = Some e \<longrightarrow>
     (\<exists>row. hget (handles p) rid = Some row \<and> hr_status row = Running \<and>
        hr_worker row = pe_worker e \<and> hr_session row = pe_session e \<and>
        (\<forall>sid r. pe_session e = Some sid \<longrightarrow> hget (sessions p) sid = Some r \<longrightarrow>
           sr_worker r = pe_worker e \<and> sr_sink r = pe_sink e)))"

definition stateful_of :: "session_id \<Rightarrow> pool \<Rightarrow> nat" where
  "stateful_of sid p = hcount (\<lambda>_ e. pe_session e = Some sid \<and> pe_mode e = Stateful) (inflight p)"

text \<open>The counter of stateful commands never undercounts, and an attached terminal excludes them.\<close>

definition terminals_ok :: "pool \<Rightarrow> bool" where
  "terminals_ok p \<longleftrightarrow> (\<forall>sid r. hget (sessions p) sid = Some r \<longrightarrow>
     stateful_of sid p \<le> sr_stateful r \<and>
     (sr_terminal r \<noteq> None \<longrightarrow> stateful_of sid p = 0 \<and> sr_state r \<in> {Active, Closing}))"

definition row_ok :: "exec_id \<Rightarrow> handle_row \<Rightarrow> bool" where
  "row_ok rid row \<longleftrightarrow> hr_id row = rid \<and>
     (if hr_status row = Running
      then hr_finished row = None \<and> hr_cause row = None \<and> \<not> hr_cancelled row
           \<and> hr_exit_code row = None \<and> hr_exit_signal row = None
      else hr_finished row \<noteq> None \<and> hr_cause row \<noteq> None)"

definition rows_ok :: "pool \<Rightarrow> bool" where
  "rows_ok p \<longleftrightarrow> (\<forall>rid row. hget (handles p) rid = Some row \<longrightarrow> row_ok rid row)"

definition pool_inv :: "pool \<Rightarrow> bool" where
  "pool_inv p \<longleftrightarrow> maps_ok p \<and> idle_ok p \<and> owner_ok p \<and> sessions_ok p \<and> requests_ok p
     \<and> terminals_ok p \<and> rows_ok p"

lemmas inv_defs = maps_ok_def idle_ok_def owner_ok_def sessions_ok_def session_ok_def
  requests_ok_def terminals_ok_def rows_ok_def stateful_of_def

lemma pool_invI:
  "\<lbrakk>maps_ok p; idle_ok p; owner_ok p; sessions_ok p; requests_ok p; terminals_ok p; rows_ok p\<rbrakk>
    \<Longrightarrow> pool_inv p"
  by (simp add: pool_inv_def)

lemma pool_invD:
  assumes "pool_inv p"
  shows "maps_ok p" "idle_ok p" "owner_ok p" "sessions_ok p" "requests_ok p" "terminals_ok p" "rows_ok p"
  using assms by (simp_all add: pool_inv_def)

lemma owner_okD:
  assumes "owner_ok p" and "hget (worker_sessions p) w = Some sid"
  obtains l where "hget (liveness p) w = Some l"
    and "\<And>r. hget (sessions p) sid = Some r \<Longrightarrow>
      sr_worker r = w \<and> sr_profile r = lv_profile l \<and> sr_sink r = lv_shutdown l"
  using assms unfolding owner_ok_def by blast

lemma owner_okI:
  assumes "\<And>w sid. hget (worker_sessions p) w = Some sid \<Longrightarrow>
    (\<exists>l. hget (liveness p) w = Some l \<and>
        (\<forall>r. hget (sessions p) sid = Some r \<longrightarrow>
           sr_worker r = w \<and> sr_profile r = lv_profile l \<and> sr_sink r = lv_shutdown l))"
  shows "owner_ok p"
  using assms by (simp add: owner_ok_def)

lemma idle_entryD:
  assumes "idle_ok p" and "e \<in> set (idle p)"
  obtains l where "hget (liveness p) (we_id e) = Some l" "lv_profile l = we_profile e"
    "lv_shutdown l = we_sink e" "hget (worker_sessions p) (we_id e) = None"
  using assms unfolding idle_ok_def by blast

lemma sessions_okI:
  "(\<And>sid r. hget (sessions p) sid = Some r \<Longrightarrow> session_ok p sid r) \<Longrightarrow> sessions_ok p"
  by (simp add: sessions_ok_def)

lemma sessions_okD: "sessions_ok p \<Longrightarrow> hget (sessions p) sid = Some r \<Longrightarrow> session_ok p sid r"
  by (simp add: sessions_ok_def)

text \<open>\<open>session_ok\<close> reads the pool only at the session's worker.\<close>

lemma session_ok_cong:
  "session_ok p sid r \<Longrightarrow>
     (live_state (sr_state r) \<Longrightarrow> hget (worker_sessions p) (sr_worker r) = Some sid \<Longrightarrow>
        hget (worker_sessions q) (sr_worker r) = Some sid) \<Longrightarrow> session_ok q sid r"
  by (simp add: session_ok_def split: if_splits)

lemma requests_okD:
  assumes "requests_ok p" and "hget (inflight p) rid = Some e"
  obtains row where "hget (handles p) rid = Some row" "hr_status row = Running"
    "hr_worker row = pe_worker e" "hr_session row = pe_session e"
    "\<And>sid r. pe_session e = Some sid \<Longrightarrow> hget (sessions p) sid = Some r \<Longrightarrow>
      sr_worker r = pe_worker e \<and> sr_sink r = pe_sink e"
  using assms unfolding requests_ok_def by blast

lemma pool_inv_new: "pool_inv new_pool"
  by (simp add: pool_inv_def inv_defs new_pool_def)

text \<open>Updates that leave the rest of the invariant untouched.\<close>

lemma inv_liveness [simp]:
  "sessions_ok (p\<lparr>liveness := m\<rparr>) = sessions_ok p"
  "requests_ok (p\<lparr>liveness := m\<rparr>) = requests_ok p"
  "terminals_ok (p\<lparr>liveness := m\<rparr>) = terminals_ok p"
  "rows_ok (p\<lparr>liveness := m\<rparr>) = rows_ok p"
  by (simp_all add: inv_defs)

lemma inv_idle [simp]:
  "maps_ok (p\<lparr>idle := xs\<rparr>) = maps_ok p"
  "owner_ok (p\<lparr>idle := xs\<rparr>) = owner_ok p"
  "sessions_ok (p\<lparr>idle := xs\<rparr>) = sessions_ok p"
  "requests_ok (p\<lparr>idle := xs\<rparr>) = requests_ok p"
  "terminals_ok (p\<lparr>idle := xs\<rparr>) = terminals_ok p"
  "rows_ok (p\<lparr>idle := xs\<rparr>) = rows_ok p"
  by (simp_all add: inv_defs)

lemma inv_handles [simp]:
  "idle_ok (p\<lparr>handles := m\<rparr>) = idle_ok p"
  "owner_ok (p\<lparr>handles := m\<rparr>) = owner_ok p"
  "sessions_ok (p\<lparr>handles := m\<rparr>) = sessions_ok p"
  "terminals_ok (p\<lparr>handles := m\<rparr>) = terminals_ok p"
  by (simp_all add: inv_defs)

lemma inv_sessions [simp]:
  "idle_ok (p\<lparr>sessions := m\<rparr>) = idle_ok p"
  "rows_ok (p\<lparr>sessions := m\<rparr>) = rows_ok p"
  by (simp_all add: inv_defs)

lemma inv_inflight [simp]:
  "idle_ok (p\<lparr>inflight := m\<rparr>) = idle_ok p"
  "owner_ok (p\<lparr>inflight := m\<rparr>) = owner_ok p"
  "sessions_ok (p\<lparr>inflight := m\<rparr>) = sessions_ok p"
  "rows_ok (p\<lparr>inflight := m\<rparr>) = rows_ok p"
  by (simp_all add: inv_defs)

text \<open>A change of a session record that keeps its identity keeps the invariant when the new record
  is well formed.\<close>

lemma pool_inv_set_session:
  assumes inv: "pool_inv p" and r: "hget (sessions p) sid = Some r"
    and same: "sr_worker r' = sr_worker r" "sr_profile r' = sr_profile r" "sr_sink r' = sr_sink r"
    and ok: "session_ok p sid r'"
    and st: "stateful_of sid p \<le> sr_stateful r'"
    and te: "sr_terminal r' \<noteq> None \<Longrightarrow> stateful_of sid p = 0 \<and> sr_state r' \<in> {Active, Closing}"
  shows "pool_inv (p\<lparr>sessions := hput sid r' (sessions p)\<rparr>)"
proof (rule pool_invI)
  show "maps_ok (p\<lparr>sessions := hput sid r' (sessions p)\<rparr>)"
    using inv by (simp add: pool_inv_def maps_ok_def)
  show "owner_ok (p\<lparr>sessions := hput sid r' (sessions p)\<rparr>)"
    unfolding owner_ok_def
  proof (intro allI impI)
    fix w s assume "hget (worker_sessions (p\<lparr>sessions := hput sid r' (sessions p)\<rparr>)) w = Some s"
    then have "hget (worker_sessions p) w = Some s" by simp
    with pool_invD(3) [OF inv] obtain l where "hget (liveness p) w = Some l"
      and "\<And>r. hget (sessions p) s = Some r \<Longrightarrow>
        sr_worker r = w \<and> sr_profile r = lv_profile l \<and> sr_sink r = lv_shutdown l"
      by (rule owner_okD) blast
    then show "\<exists>l. hget (liveness (p\<lparr>sessions := hput sid r' (sessions p)\<rparr>)) w = Some l \<and>
        (\<forall>r. hget (sessions (p\<lparr>sessions := hput sid r' (sessions p)\<rparr>)) s = Some r \<longrightarrow>
           sr_worker r = w \<and> sr_profile r = lv_profile l \<and> sr_sink r = lv_shutdown l)"
      using r same by auto
  qed
  show "sessions_ok (p\<lparr>sessions := hput sid r' (sessions p)\<rparr>)"
    using pool_invD(4) [OF inv] ok by (simp add: sessions_ok_def session_ok_def)
  show "requests_ok (p\<lparr>sessions := hput sid r' (sessions p)\<rparr>)"
    using pool_invD(5) [OF inv] r same unfolding requests_ok_def by (fastforce split: if_splits)
  show "terminals_ok (p\<lparr>sessions := hput sid r' (sessions p)\<rparr>)"
    using pool_invD(6) [OF inv] st te by (simp add: terminals_ok_def stateful_of_def)
qed (use inv in \<open>simp_all add: pool_inv_def\<close>)

lemma pool_inv_session_okD:
  assumes "pool_inv p" and "hget (sessions p) sid = Some r"
  shows "session_ok p sid r" "stateful_of sid p \<le> sr_stateful r"
    "sr_terminal r \<noteq> None \<Longrightarrow> stateful_of sid p = 0 \<and> sr_state r \<in> {Active, Closing}"
  using assms by (auto simp: pool_inv_def sessions_ok_def terminals_ok_def)

text \<open>The same for a handle row that stays as finished as it was.\<close>

lemma pool_inv_set_row:
  assumes inv: "pool_inv p" and r: "hget (handles p) rid = Some row"
    and same: "hr_session row' = hr_session row" "hr_worker row' = hr_worker row"
    and ok: "row_ok rid row'"
    and running: "hhas (inflight p) rid \<Longrightarrow> hr_status row' = Running"
  shows "pool_inv (p\<lparr>handles := hput rid row' (handles p)\<rparr>)"
proof (rule pool_invI)
  show "maps_ok (p\<lparr>handles := hput rid row' (handles p)\<rparr>)"
    using inv by (simp add: pool_inv_def maps_ok_def)
  show "requests_ok (p\<lparr>handles := hput rid row' (handles p)\<rparr>)"
    using pool_invD(5) [OF inv] r same running unfolding requests_ok_def hhas_def
    by (fastforce split: if_splits)
  show "rows_ok (p\<lparr>handles := hput rid row' (handles p)\<rparr>)"
    using pool_invD(7) [OF inv] ok by (simp add: rows_ok_def)
qed (use inv in \<open>simp_all add: pool_inv_def\<close>)

lemma hmod_as_hput: "hget m k = Some v \<Longrightarrow> hmod k f m = hput k (f v) m"
  by (simp add: hmod_def)

lemma hget_in_values: "hget m k = Some v \<Longrightarrow> v \<in> snd ` set m"
  by (auto dest: hget_in_set intro: rev_image_eqI)

lemma hmod_absent: "hget m k = None \<Longrightarrow> hmod k f m = m"
  by (simp add: hmod_def)


section \<open>Preservation by the critical sections\<close>

lemma register_worker_inv:
  assumes inv: "pool_inv p" and reg: "register_worker now w profile location c p = Inr p'"
  shows "pool_inv p'"
proof -
  have w: "hget (liveness p) w = None" and p': "p' = p\<lparr>
      idle := idle p @ [\<lparr>we_id = w, we_profile = profile, we_sink = c\<rparr>],
      liveness := hput w \<lparr>lv_last_seen = now, lv_shutdown = c, lv_location = location,
        lv_profile = profile\<rparr> (liveness p)\<rparr>"
    using reg by (auto simp: register_worker_def hhas_def split: if_splits)
  note i = pool_invD [OF inv]
  have ws: "hget (worker_sessions p) w = None"
    using w by (cases "hget (worker_sessions p) w") (auto elim: owner_okD [OF i(3)])
  have "w \<notin> we_id ` set (idle p)" using i(2) w by (auto simp: idle_ok_def)
  then have "idle_ok p'" using i(2) w ws by (auto simp: idle_ok_def p')
  moreover have "owner_ok p'"
    by (rule owner_okI, unfold p', simp, erule owner_okD [OF i(3)]) (use w in auto)
  moreover have "maps_ok p'" using i(1) by (simp add: maps_ok_def p')
  ultimately show ?thesis using i by (intro pool_invI) (simp_all add: p')
qed

lemma touch_worker_inv:
  assumes inv: "pool_inv p"
  shows "pool_inv (touch_worker now w p)"
proof -
  note i = pool_invD [OF inv]
  have "idle_ok (touch_worker now w p)" using i(2) by (fastforce simp: idle_ok_def touch_worker_def)
  moreover have "owner_ok (touch_worker now w p)"
    by (rule owner_okI, unfold touch_worker_def, simp, erule owner_okD [OF i(3)]) auto
  moreover have "maps_ok (touch_worker now w p)" using i(1) by (simp add: maps_ok_def touch_worker_def)
  ultimately show ?thesis using i by (intro pool_invI) (simp_all add: touch_worker_def)
qed

text \<open>A session id is fresh when nothing in the pool mentions it; ids are 80 random bits.\<close>

definition fresh_session :: "session_id \<Rightarrow> pool \<Rightarrow> bool" where
  "fresh_session sid p \<longleftrightarrow> hget (sessions p) sid = None \<and>
     sid \<notin> snd ` set (worker_sessions p) \<and> session_commands sid p = []"

lemma session_commands_Nil:
  "hwf (inflight p) \<Longrightarrow>
     session_commands sid p = [] \<longleftrightarrow> (\<forall>rid e. hget (inflight p) rid = Some e \<longrightarrow> pe_session e \<noteq> Some sid)"
  by (auto simp: session_commands_def filter_empty_conv in_set_hget dest: hget_in_set)

lemma create_reserve_cases:
  assumes "create_reserve now profile op ready p = (Inr wk, p')"
  obtains as bs where "idle p = as @ wk # bs" "we_profile wk = profile"
    "\<forall>x \<in> set as. we_profile x \<noteq> profile"
    "p' = p\<lparr>idle := as @ bs,
      worker_sessions := hput (we_id wk) (open_session_id op) (worker_sessions p),
      sessions := hput (open_session_id op) (opening_record now profile op ready wk) (sessions p)\<rparr>"
  using assms by (auto simp: create_reserve_def split: if_splits option.splits elim!: take_first_Some)

lemma create_reserve_Inl: "create_reserve now profile op ready p = (Inl e, p') \<Longrightarrow> p' = p"
  by (auto simp: create_reserve_def split: if_splits option.splits)

lemma create_reserve_inv:
  assumes inv: "pool_inv p" and fresh: "fresh_session (open_session_id op) p"
    and cr: "create_reserve now profile op ready p = (r, p')"
  shows "pool_inv p'"
proof (cases r)
  case (Inl e)
  with cr inv show ?thesis using create_reserve_Inl by blast
next
  case (Inr wk)
  let ?sid = "open_session_id op"
  note i = pool_invD [OF inv]
  obtain as bs where idle: "idle p = as @ wk # bs" and prof: "we_profile wk = profile"
    and p': "p' = p\<lparr>idle := as @ bs, worker_sessions := hput (we_id wk) ?sid (worker_sessions p),
      sessions := hput ?sid (opening_record now profile op ready wk) (sessions p)\<rparr>"
    using cr Inr by (blast elim: create_reserve_cases)
  obtain l where l: "hget (liveness p) (we_id wk) = Some l" "lv_profile l = profile"
      "lv_shutdown l = we_sink wk" and ws: "hget (worker_sessions p) (we_id wk) = None"
    using i(2) idle prof by (auto simp: idle_ok_def)
  have s0: "hget (sessions p) ?sid = None" and w0: "hget (worker_sessions p) w \<noteq> Some ?sid" for w
    using fresh by (auto simp: fresh_session_def dest: hget_in_values)
  have e0: "hget (inflight p) rid = Some e \<Longrightarrow> pe_session e \<noteq> Some ?sid" for rid e
    using fresh i(1) session_commands_Nil by (auto simp: fresh_session_def maps_ok_def)
  show ?thesis
  proof (rule pool_invI)
    show "maps_ok p'" using i(1) by (simp add: maps_ok_def p')
    have others: "we_id e \<noteq> we_id wk" if "e \<in> set as \<union> set bs" for e
      using i(2) idle that by (auto simp: idle_ok_def rev_image_eqI)
    then show "idle_ok p'" using i(2) idle by (auto simp: idle_ok_def p')
    show "owner_ok p'"
    proof (rule owner_okI)
      fix w sid assume w: "hget (worker_sessions p') w = Some sid"
      show "\<exists>l. hget (liveness p') w = Some l \<and> (\<forall>r. hget (sessions p') sid = Some r \<longrightarrow>
           sr_worker r = w \<and> sr_profile r = lv_profile l \<and> sr_sink r = lv_shutdown l)"
      proof (cases "w = we_id wk")
        case True
        with w l show ?thesis by (simp add: p' opening_record_def)
      next
        case False
        with w have w': "hget (worker_sessions p) w = Some sid" by (simp add: p')
        with w0 [of w] have "sid \<noteq> ?sid" by auto
        with owner_okD [OF i(3) w'] show ?thesis by (auto simp: p')
      qed
    qed
    show "sessions_ok p'"
    proof (rule sessions_okI)
      fix sid r assume r: "hget (sessions p') sid = Some r"
      show "session_ok p' sid r"
      proof (cases "sid = ?sid")
        case True
        with r have "r = opening_record now profile op ready wk" by (simp add: p')
        with True show ?thesis by (simp add: session_ok_def p' opening_record_def live_state_def)
      next
        case False
        with r have "session_ok p sid r" using sessions_okD [OF i(4)] by (simp add: p')
        then show ?thesis by (rule session_ok_cong) (use ws in \<open>auto simp: p'\<close>)
      qed
    qed
    show "requests_ok p'" unfolding requests_ok_def
      using i(5) e0 by (fastforce simp: p' elim: requests_okD)
    have "stateful_of ?sid p = 0"
      using e0 i(1) by (auto simp: stateful_of_def hcount_zero maps_ok_def in_set_hget)
    then show "terminals_ok p'" using i(6)
      by (auto simp: terminals_ok_def p' opening_record_def stateful_of_def)
    show "rows_ok p'" using i(7) by (simp add: rows_ok_def p')
  qed
qed


text \<open>Sections that rewrite one session record.\<close>

lemma touch_session_inv:
  assumes inv: "pool_inv p"
  shows "pool_inv (touch_session now sid p)"
proof (cases "hget (sessions p) sid")
  case None
  with inv show ?thesis by (simp add: touch_session_def hmod_absent)
next
  case (Some r)
  note s = pool_inv_session_okD [OF inv Some]
  show ?thesis unfolding touch_session_def hmod_as_hput [OF Some]
    by (rule pool_inv_set_session [OF inv Some])
      (use s in \<open>auto simp: session_ok_def split: if_splits\<close>)
qed

lemma session_ready_inv:
  assumes inv: "pool_inv p"
  shows "pool_inv (fst (session_ready now w sid error p))"
proof (cases "hget (sessions p) sid")
  case None
  with inv show ?thesis by (simp add: session_ready_def)
next
  case (Some r)
  note s = pool_inv_session_okD [OF inv Some]
  let ?r = "ready_record now error r"
  have same: "sr_worker ?r = sr_worker r" "sr_profile ?r = sr_profile r" "sr_sink ?r = sr_sink r"
    "sr_stateful ?r = sr_stateful r" "sr_terminal ?r = sr_terminal r"
    by (simp_all add: ready_record_def clear_inputs_def Let_def split: option.splits)
  have "sr_terminal r = None" if "sr_state r = Opening"
    using s(3) that by (cases "sr_terminal r") auto
  then have "session_ok p sid ?r"
    using s(1,3)
    by (auto simp: session_ok_def ready_record_def clear_inputs_def live_state_def Let_def split: option.splits if_splits)
  moreover have "sr_state ?r \<in> {Active, Closing}" if "sr_terminal r \<noteq> None"
    using s(3) [OF that] by (auto simp: ready_record_def Let_def)
  ultimately have "pool_inv (p\<lparr>sessions := hput sid ?r (sessions p)\<rparr>)"
    by (intro pool_inv_set_session [OF inv Some]) (use s same in auto)
  with inv Some show ?thesis by (simp add: session_ready_def)
qed

lemma close_begin_inv:
  assumes inv: "pool_inv p"
  shows "pool_inv (snd (close_begin gate ch sid p))"
proof (cases "hget (sessions p) sid")
  case None
  with inv show ?thesis by (simp add: close_begin_def)
next
  case (Some r)
  note s = pool_inv_session_okD [OF inv Some]
  let ?r = "r\<lparr>sr_state := Closing, sr_closed := sr_closed r @ [ch]\<rparr>"
  have "pool_inv (p\<lparr>sessions := hput sid ?r (sessions p)\<rparr>)" if "sr_state r \<notin> {Closed, Failed}"
  proof (rule pool_inv_set_session [OF inv Some])
    have "live_state (sr_state r)" using that by (cases "sr_state r") (auto simp: live_state_def)
    then show "session_ok p sid ?r" using s by (auto simp: session_ok_def live_state_def)
  qed (use s in auto)
  with inv Some show ?thesis by (auto simp: close_begin_def split: option.split)
qed

lemma attach_terminal_inv:
  assumes inv: "pool_inv p"
  shows "pool_inv (snd (attach_terminal now ch sid p))"
proof (cases "hget (sessions p) sid")
  case None
  with inv show ?thesis by (simp add: attach_terminal_def)
next
  case (Some r)
  note s = pool_inv_session_okD [OF inv Some]
  have "pool_inv (p\<lparr>sessions := hput sid (r\<lparr>sr_terminal := Some ch, sr_activity := now\<rparr>) (sessions p)\<rparr>)"
    if "sr_state r = Active" "sr_stateful r = 0"
    by (rule pool_inv_set_session [OF inv Some])
      (use s that in \<open>auto simp: session_ok_def live_state_def split: if_splits\<close>)
  with inv Some show ?thesis by (auto simp: attach_terminal_def)
qed

lemma detach_terminal_inv:
  assumes inv: "pool_inv p"
  shows "pool_inv (detach_terminal_if now sid ch p)"
proof (cases "hget (sessions p) sid")
  case None
  with inv show ?thesis by (simp add: detach_terminal_if_def hmod_absent)
next
  case (Some r)
  note s = pool_inv_session_okD [OF inv Some]
  show ?thesis unfolding detach_terminal_if_def hmod_as_hput [OF Some]
    by (rule pool_inv_set_session [OF inv Some])
      (use s in \<open>auto simp: session_ok_def split: if_splits\<close>)
qed

text \<open>Sections that rewrite one handle row.\<close>

lemma pool_inv_rowD:
  assumes "pool_inv p" and "hget (handles p) rid = Some row"
  shows "row_ok rid row" "hhas (inflight p) rid \<Longrightarrow> hr_status row = Running"
  using assms requests_okD [OF pool_invD(5) [OF assms(1)], of rid]
  by (auto simp: pool_inv_def rows_ok_def hhas_def)

lemma poll_row_inv: "pool_inv p \<Longrightarrow> pool_inv (poll_row now rid p)"
proof (cases "hget (handles p) rid")
  case (Some row)
  assume inv: "pool_inv p"
  show ?thesis unfolding poll_row_def hmod_as_hput [OF Some]
    by (rule pool_inv_set_row [OF inv Some])
      (use pool_inv_rowD [OF inv Some] in \<open>auto simp: row_ok_def split: if_splits\<close>)
qed (simp add: poll_row_def hmod_absent)

lemma mark_spool_failed_inv: "pool_inv p \<Longrightarrow> pool_inv (mark_spool_failed rid p)"
proof (cases "hget (handles p) rid")
  case (Some row)
  assume inv: "pool_inv p"
  show ?thesis unfolding mark_spool_failed_def hmod_as_hput [OF Some]
    by (rule pool_inv_set_row [OF inv Some])
      (use pool_inv_rowD [OF inv Some] in \<open>auto simp: row_ok_def split: if_splits\<close>)
qed (simp add: mark_spool_failed_def hmod_absent)

lemma cancel_request_inv: "pool_inv p \<Longrightarrow> pool_inv (snd (cancel_request rid p))"
proof (cases "hget (handles p) rid")
  case (Some row)
  assume inv: "pool_inv p"
  have "pool_inv (p\<lparr>handles := hput rid (row\<lparr>hr_cancel_requested := True\<rparr>) (handles p)\<rparr>)"
    by (rule pool_inv_set_row [OF inv Some])
      (use pool_inv_rowD [OF inv Some] in \<open>auto simp: row_ok_def split: if_splits\<close>)
  with inv Some show ?thesis by (simp add: cancel_request_def)
qed (simp add: cancel_request_def)

text \<open>A finisher writes a well-formed outcome, for a handle whose request was already taken out.\<close>

definition finisher :: "(handle_row \<Rightarrow> handle_row) \<Rightarrow> bool" where
  "finisher upd \<longleftrightarrow> (\<forall>row. hr_id (upd row) = hr_id row \<and> hr_session (upd row) = hr_session row
     \<and> hr_worker (upd row) = hr_worker row \<and> hr_started (upd row) = hr_started row
     \<and> hr_status (upd row) \<noteq> Running \<and> hr_finished (upd row) \<noteq> None \<and> hr_cause (upd row) \<noteq> None)"

lemma finisher_closed: "finisher (closed_row cause now)"
  by (simp add: finisher_def closed_row_def)

lemma finisher_dropped: "status \<noteq> Running \<Longrightarrow> finisher (dropped_row status cause now)"
  by (simp add: finisher_def dropped_row_def Let_def)

lemma classify_terminal: "fst (classify result) \<noteq> Running"
  by (simp add: classify_def)

lemma finisher_result: "finisher (result_row result now)"
  using classify_terminal [of result]
  by (auto simp: finisher_def result_row_def split: prod.splits if_splits)

lemma finish_row_inv:
  assumes inv: "pool_inv p" and f: "finisher upd" and out: "\<not> hhas (inflight p) rid"
  shows "pool_inv (fst (finish_row upd rid p))"
proof (cases "hget (handles p) rid")
  case None
  with inv show ?thesis by (simp add: finish_row_def)
next
  case (Some row)
  have "pool_inv (p\<lparr>handles := hput rid (upd row) (handles p)\<rparr>)"
    by (rule pool_inv_set_row [OF inv Some])
      (use pool_inv_rowD [OF inv Some] f out in \<open>auto simp: row_ok_def finisher_def\<close>)
  with inv Some show ?thesis by (simp add: finish_row_def)
qed


section \<open>Sections over requests\<close>

lemma stateful_of_hdel:
  "hwf (inflight p) \<Longrightarrow> hget (inflight p) rid = Some e \<Longrightarrow>
     stateful_of sid (p\<lparr>inflight := hdel rid (inflight p)\<rparr>) =
     stateful_of sid p - (if pe_session e = Some sid \<and> pe_mode e = Stateful then 1 else 0)"
  by (simp add: stateful_of_def)

lemma hcount_mono: "(\<And>k v. P k v \<Longrightarrow> Q k v) \<Longrightarrow> hcount P m \<le> hcount Q m"
  by (induction m) (auto simp: hcount_def hretain_def le_SucI)

lemma stateful_of_hretain:
  "stateful_of sid (p\<lparr>inflight := hretain Q (inflight p)\<rparr>) \<le> stateful_of sid p"
  by (simp add: stateful_of_def hcount_hretain) (rule hcount_mono, simp)

lemma terminals_ok_mono:
  assumes ok: "terminals_ok p"
    and sub: "\<And>sid r. hget (sessions q) sid = Some r \<Longrightarrow> hget (sessions p) sid = Some r"
    and le: "\<And>sid. stateful_of sid q \<le> stateful_of sid p"
  shows "terminals_ok q"
  unfolding terminals_ok_def
proof (intro allI impI)
  fix sid r assume "hget (sessions q) sid = Some r"
  with sub have "hget (sessions p) sid = Some r" by blast
  with ok have "stateful_of sid p \<le> sr_stateful r"
    "sr_terminal r \<noteq> None \<longrightarrow> stateful_of sid p = 0 \<and> sr_state r \<in> {Active, Closing}"
    unfolding terminals_ok_def by blast+
  with le [of sid] show "stateful_of sid q \<le> sr_stateful r \<and>
      (sr_terminal r \<noteq> None \<longrightarrow> stateful_of sid q = 0 \<and> sr_state r \<in> {Active, Closing})"
    by (cases "sr_terminal r") simp_all
qed

text \<open>Requests may be taken out; nothing else in the invariant asks for them.\<close>

lemma pool_inv_hdel_inflight:
  assumes inv: "pool_inv p"
  shows "pool_inv (p\<lparr>inflight := hdel rid (inflight p)\<rparr>)"
proof (cases "hget (inflight p) rid")
  case None
  with inv show ?thesis by (simp add: hdel_absent)
next
  case (Some e)
  note i = pool_invD [OF inv]
  let ?p = "p\<lparr>inflight := hdel rid (inflight p)\<rparr>"
  have le: "stateful_of sid ?p \<le> stateful_of sid p" for sid
    using stateful_of_hdel [OF _ Some] i(1) by (simp add: maps_ok_def)
  have "terminals_ok ?p" by (rule terminals_ok_mono [OF i(6)]) (use le in simp_all)
  moreover have "requests_ok ?p" using i(5) by (auto simp: requests_ok_def)
  moreover have "maps_ok ?p" using i(1) by (simp add: maps_ok_def)
  ultimately show ?thesis using i by (intro pool_invI) simp_all
qed

lemma pool_inv_hretain_inflight:
  assumes inv: "pool_inv p"
  shows "pool_inv (p\<lparr>inflight := hretain Q (inflight p)\<rparr>)"
proof -
  note i = pool_invD [OF inv]
  let ?p = "p\<lparr>inflight := hretain Q (inflight p)\<rparr>"
  have "terminals_ok ?p"
    by (rule terminals_ok_mono [OF i(6)]) (simp_all add: stateful_of_hretain)
  moreover have "requests_ok ?p" using i(1,5)
    by (auto simp: requests_ok_def maps_ok_def split: option.splits if_splits)
  moreover have "maps_ok ?p" using i(1) by (simp add: maps_ok_def)
  ultimately show ?thesis using i by (intro pool_invI) simp_all
qed

lemma drop_inflight_inv: "pool_inv p \<Longrightarrow> pool_inv (snd (drop_inflight w p))"
  by (simp add: drop_inflight_def pool_inv_hretain_inflight)

text \<open>A worker that a session-less request, or the handler of a pinned terminal, gives back is still on the
  connection it was taken with, and nothing else has it.\<close>

definition returnable :: "worker_entry \<Rightarrow> pool \<Rightarrow> bool" where
  "returnable wk p \<longleftrightarrow> we_id wk \<notin> we_id ` set (idle p) \<and> hget (worker_sessions p) (we_id wk) = None \<and>
     (\<exists>l. hget (liveness p) (we_id wk) = Some l \<and> lv_profile l = we_profile wk \<and> lv_shutdown l = we_sink wk)"

definition entry_worker :: "pending_entry \<Rightarrow> worker_entry" where
  "entry_worker e = \<lparr>we_id = pe_worker e, we_profile = pe_profile e, we_sink = pe_sink e\<rparr>"

lemma idle_return_inv:
  assumes inv: "pool_inv p" and wk: "returnable wk p" and xs: "xs = idle p @ [wk] \<or> xs = wk # idle p"
  shows "pool_inv (p\<lparr>idle := xs\<rparr>)"
proof -
  note i = pool_invD [OF inv]
  have "idle_ok (p\<lparr>idle := xs\<rparr>)" using i(2) wk xs by (auto simp: idle_ok_def returnable_def)
  with i show ?thesis by (intro pool_invI) simp_all
qed

lemma idle_take_inv:
  assumes inv: "pool_inv p" and idle: "idle p = wk # xs"
  shows "pool_inv (p\<lparr>idle := xs\<rparr>)"
proof -
  note i = pool_invD [OF inv]
  have "idle_ok (p\<lparr>idle := xs\<rparr>)" using i(2) by (auto simp: idle_ok_def idle)
  with i show ?thesis by (intro pool_invI) simp_all
qed

lemma pty_sessions_inv: "pool_inv p \<Longrightarrow> pool_inv (p\<lparr>pty_sessions := m\<rparr>)"
  by (simp add: pool_inv_def inv_defs)

lemma dispatch_register_inv:
  assumes inv: "pool_inv p" and fresh: "hget (handles p) rid = None"
  shows "pool_inv (dispatch_register wk rid t0 now p)"
proof -
  note i = pool_invD [OF inv]
  let ?q = "dispatch_register wk rid t0 now p"
  have free: "hget (inflight p) rid = None"
    using fresh requests_okD [OF i(5), of rid] by (cases "hget (inflight p) rid") force+
  have "stateful_of sid ?q = stateful_of sid p" for sid
    using free by (simp add: stateful_of_def dispatch_register_def)
  then have "terminals_ok ?q" using i(6) by (simp add: terminals_ok_def dispatch_register_def)
  moreover have "requests_ok ?q" using i(5) unfolding requests_ok_def
    by (auto simp: dispatch_register_def fresh_row_def)
  moreover have "rows_ok ?q" using i(7) by (simp add: rows_ok_def dispatch_register_def fresh_row_def row_ok_def)
  moreover have "maps_ok ?q" using i(1) by (simp add: maps_ok_def dispatch_register_def)
  ultimately show ?thesis using i
    by (intro pool_invI) (simp_all add: dispatch_register_def idle_ok_def owner_ok_def sessions_ok_def session_ok_def)
qed

text \<open>A session-less request that could not be sent is forgotten.\<close>

lemma pool_inv_forget:
  assumes inv: "pool_inv p"
  shows "pool_inv (p\<lparr>inflight := hdel rid (inflight p), handles := hdel rid (handles p)\<rparr>)"
proof -
  let ?p = "p\<lparr>inflight := hdel rid (inflight p)\<rparr>"
  note i = pool_invD [OF pool_inv_hdel_inflight [OF inv, of rid]]
  have "requests_ok (?p\<lparr>handles := hdel rid (handles p)\<rparr>)" using i(5) by (auto simp: requests_ok_def)
  moreover have "rows_ok (?p\<lparr>handles := hdel rid (handles p)\<rparr>)" using i(7) by (simp add: rows_ok_def)
  moreover have "maps_ok (?p\<lparr>handles := hdel rid (handles p)\<rparr>)" using i(1) by (simp add: maps_ok_def)
  ultimately have "pool_inv (?p\<lparr>handles := hdel rid (handles p)\<rparr>)" using i by (intro pool_invI) simp_all
  then show ?thesis by simp
qed

lemma complete_take_inv:
  assumes inv: "pool_inv p"
    and home: "\<And>e. hget (inflight p) rid = Some e \<Longrightarrow> pe_session e = None \<Longrightarrow> returnable (entry_worker e) p"
  shows "pool_inv (complete_take now rid p)"
proof (cases "hget (inflight p) rid")
  case None
  with inv show ?thesis by (simp add: complete_take_def)
next
  case (Some e)
  let ?p = "p\<lparr>inflight := hdel rid (inflight p)\<rparr>"
  have inv1: "pool_inv ?p" by (rule pool_inv_hdel_inflight [OF inv])
  show ?thesis
  proof (cases "pe_session e")
    case None
    have "returnable (entry_worker e) ?p" using home [OF Some None] by (simp add: returnable_def)
    from idle_return_inv [OF inv1 this disjI1 [OF refl]] show ?thesis
      using Some None by (simp add: complete_take_def entry_worker_def)
  next
  case sid: (Some sid)
  show ?thesis
  proof (cases "hget (sessions p) sid")
    case None
    with inv1 sid Some show ?thesis by (simp add: complete_take_def hmod_absent)
  next
    case r: (Some r)
    let ?r = "let r1 = r\<lparr>sr_activity := now\<rparr>
      in if pe_mode e = Stateful then r1\<lparr>sr_stateful := sr_stateful r1 - 1\<rparr> else r1"
    have r1: "hget (sessions ?p) sid = Some r" using r by simp
    note s = pool_inv_session_okD [OF inv1 r1]
    have wf: "hwf (inflight p)" using inv by (simp add: pool_inv_def maps_ok_def)
    have "stateful_of sid ?p \<le> sr_stateful ?r"
      using pool_inv_session_okD(2) [OF inv r] s(2) sid stateful_of_hdel [OF wf Some, of sid]
      by (auto simp: Let_def)
    then have "pool_inv (?p\<lparr>sessions := hput sid ?r (sessions ?p)\<rparr>)"
      by (intro pool_inv_set_session [OF inv1 r1])
        (use s in \<open>auto simp: Let_def session_ok_def split: if_splits\<close>)
    with sid Some r show ?thesis by (simp add: complete_take_def hmod_as_hput Let_def)
  qed
  qed
qed

lemma purge_handle_inv:
  assumes inv: "pool_inv p" and out: "\<not> hhas (inflight p) rid"
  shows "pool_inv (fst (purge_handle rid p))"
proof (rule pool_invI)
  note i = pool_invD [OF inv]
  show "maps_ok (fst (purge_handle rid p))" using i(1) by (simp add: purge_handle_def maps_ok_def)
  show "requests_ok (fst (purge_handle rid p))"
    using i(5) out by (fastforce simp: purge_handle_def requests_ok_def hhas_def)
  show "rows_ok (fst (purge_handle rid p))" using i(7) by (simp add: purge_handle_def rows_ok_def)
qed (use inv in \<open>simp_all add: purge_handle_def pool_inv_def\<close>)

lemma retain_sessions_inv:
  assumes inv: "pool_inv p"
  shows "pool_inv (retain_sessions now ttl p)"
proof -
  note i = pool_invD [OF inv]
  let ?p = "retain_sessions now ttl p"
  have wf: "hwf (sessions p)" using i(1) by (simp add: maps_ok_def)
  have sub: "hget (sessions ?p) sid = Some r \<Longrightarrow> hget (sessions p) sid = Some r" for sid r
    using wf by (simp add: retain_sessions_def split: option.splits if_splits)
  have rest: "inflight ?p = inflight p" "handles ?p = handles p" "liveness ?p = liveness p"
    "worker_sessions ?p = worker_sessions p" "idle ?p = idle p"
    by (simp_all add: retain_sessions_def)
  have "maps_ok ?p" using i(1) by (simp add: maps_ok_def retain_sessions_def)
  moreover have "owner_ok ?p"
    by (rule owner_okI, unfold rest, erule owner_okD [OF i(3)]) (use sub in blast)
  moreover have "sessions_ok ?p"
    by (rule sessions_okI, drule sub, drule sessions_okD [OF i(4)]) (simp add: session_ok_def rest)
  moreover have "requests_ok ?p" unfolding requests_ok_def rest
    using i(5) sub unfolding requests_ok_def by blast
  moreover have "terminals_ok ?p"
    by (rule terminals_ok_mono [OF i(6)]) (simp_all add: sub stateful_of_def rest)
  ultimately show ?thesis using i by (intro pool_invI) (simp_all add: retain_sessions_def)
qed


section \<open>Submission, close and drop\<close>

text \<open>What the first section of a submission captured still describes the session, if it exists.\<close>

definition captured_ok :: "session_id \<Rightarrow> captured \<Rightarrow> pool \<Rightarrow> bool" where
  "captured_ok sid cap p \<longleftrightarrow> (\<forall>r. hget (sessions p) sid = Some r \<longrightarrow>
     sr_worker r = cp_worker cap \<and> sr_sink r = cp_sink cap)"

lemma submit_check_captured:
  "submit_check mode sid p = Inr cap \<Longrightarrow>
     captured_ok sid cap p \<and> (\<exists>r. hget (sessions p) sid = Some r \<and> cap = captured_of r)"
  by (auto simp: submit_check_def submit_error_def captured_ok_def captured_of_def
      split: option.splits if_splits)

lemma submit_register_Some: "submit_register t0 now cap sid rid mode p = (Some e, p') \<Longrightarrow> p' = p"
  by (auto simp: submit_register_def split: option.splits)

lemma submit_error_None:
  assumes "submit_error mode sid p = None"
  obtains r where "hget (sessions p) sid = Some r" "sr_state r = Active"
    "mode = Stateful \<longrightarrow> sr_terminal r = None"
  using assms by (auto simp: submit_error_def split: option.splits if_splits)

lemma submit_register_inv:
  assumes inv: "pool_inv p" and fresh: "hget (handles p) rid = None"
    and cap: "captured_ok sid cap p"
    and reg: "submit_register t0 now cap sid rid mode p = (res, p')"
  shows "pool_inv p'"
proof (cases "submit_error mode sid p")
  case (Some e)
  with reg inv show ?thesis by (simp add: submit_register_def)
next
  case None
  then obtain r where r: "hget (sessions p) sid = Some r" and act: "sr_state r = Active"
    and te: "mode = Stateful \<longrightarrow> sr_terminal r = None" by (rule submit_error_None)
  note i = pool_invD [OF inv] and s = pool_inv_session_okD [OF inv r]
  let ?e = "\<lparr>pe_sink = cp_sink cap, pe_worker = cp_worker cap, pe_profile = cp_profile cap,
    pe_session = Some sid, pe_mode = mode, pe_started = now\<rparr>"
  let ?r = "r\<lparr>sr_stateful := (if mode = Stateful then sr_stateful r + 1 else sr_stateful r),
    sr_activity := now\<rparr>"
  let ?q = "p\<lparr>sessions := hput sid ?r (sessions p)\<rparr>"
  have p': "p' = p\<lparr>inflight := hput rid ?e (inflight p),
      handles := hput rid (fresh_row rid (Some sid) (cp_worker cap) t0) (handles p),
      sessions := hput sid ?r (sessions p)\<rparr>"
    using reg None r by (simp add: submit_register_def hmod_as_hput)
  have free: "hget (inflight p) rid = None"
    using fresh requests_okD [OF i(5), of rid] by (cases "hget (inflight p) rid") force+
  have q: "pool_inv ?q"
    by (rule pool_inv_set_session [OF inv r])
      (use s in \<open>auto simp: session_ok_def split: if_splits\<close>)
  note j = pool_invD [OF q]
  show ?thesis
  proof (rule pool_invI)
    show "maps_ok p'" using i(1) by (simp add: maps_ok_def p')
    show "idle_ok p'" using j(2) by (simp add: idle_ok_def p')
    show "owner_ok p'" using j(3) by (simp add: owner_ok_def p')
    show "sessions_ok p'"
    proof (rule sessions_okI)
      fix x rx assume "hget (sessions p') x = Some rx"
      then have "session_ok ?q x rx" using sessions_okD [OF j(4)] by (simp add: p')
      then show "session_ok p' x rx" by (rule session_ok_cong) (simp add: p')
    qed
    show "requests_ok p'" unfolding requests_ok_def
    proof (intro allI impI)
      fix x e assume x: "hget (inflight p') x = Some e"
      show "\<exists>row. hget (handles p') x = Some row \<and> hr_status row = Running \<and>
        hr_worker row = pe_worker e \<and> hr_session row = pe_session e \<and>
        (\<forall>sid r. pe_session e = Some sid \<longrightarrow> hget (sessions p') sid = Some r \<longrightarrow>
          sr_worker r = pe_worker e \<and> sr_sink r = pe_sink e)"
      proof (cases "x = rid")
        case True
        with x cap r show ?thesis by (auto simp: p' fresh_row_def captured_ok_def)
      next
        case False
        with x have "hget (inflight ?q) x = Some e" by (simp add: p')
        with j(5) have "\<exists>row. hget (handles ?q) x = Some row \<and> hr_status row = Running \<and>
          hr_worker row = pe_worker e \<and> hr_session row = pe_session e \<and>
          (\<forall>sid r. pe_session e = Some sid \<longrightarrow> hget (sessions ?q) sid = Some r \<longrightarrow>
            sr_worker r = pe_worker e \<and> sr_sink r = pe_sink e)"
          unfolding requests_ok_def by blast
        moreover have "hget (handles p') x = hget (handles ?q) x" "sessions p' = sessions ?q"
          using False by (simp_all add: p')
        ultimately show ?thesis by simp
      qed
    qed
    have "stateful_of x p' = stateful_of x p + (if x = sid \<and> mode = Stateful then 1 else 0)" for x
      using free by (simp add: p' stateful_of_def)
    then show "terminals_ok p'" using i(6) s te act
      by (auto simp: terminals_ok_def p')
    show "rows_ok p'" using i(7) by (simp add: rows_ok_def p' fresh_row_def row_ok_def)
  qed
qed

text \<open>The worker that reports a session closed either holds it or is no longer registered.\<close>

definition closes_own :: "worker_id \<Rightarrow> session_id \<Rightarrow> pool \<Rightarrow> bool" where
  "closes_own w sid p \<longleftrightarrow> hget (worker_sessions p) w = Some sid
     \<or> (hget (worker_sessions p) w = None \<and> \<not> hhas (liveness p) w)"

text \<open>Both \<open>session_closed\<close> and \<open>handle_worker_drop\<close> end a session and unbind its worker.\<close>

lemma unbind_session_inv:
  assumes inv: "pool_inv p" and r: "hget (sessions p) sid = Some r" and w: "sr_worker r = w"
    and own: "hget (worker_sessions p) w = Some sid \<or> hget (worker_sessions p) w = None"
    and same: "sr_worker r' = w" "sr_profile r' = sr_profile r" "sr_sink r' = sr_sink r"
      "sr_stateful r' = sr_stateful r"
    and ended: "\<not> live_state (sr_state r')" "sr_finished r' \<noteq> None" "sr_terminal r' = None"
      "sr_workdir r' = []" "sr_env r' = []" "sr_drop_to r' = None"
  shows "pool_inv (p\<lparr>sessions := hput sid r' (sessions p),
    worker_sessions := hdel w (worker_sessions p)\<rparr>)"
proof -
  let ?q = "p\<lparr>sessions := hput sid r' (sessions p)\<rparr>"
  note i = pool_invD [OF inv]
  let ?q' = "?q\<lparr>worker_sessions := hdel w (worker_sessions p)\<rparr>"
  have "pool_inv ?q"
    by (rule pool_inv_set_session [OF inv r])
      (use same w ended pool_inv_session_okD(2) [OF inv r] in \<open>simp_all add: session_ok_def\<close>)
  note j = pool_invD [OF this]
  have "maps_ok ?q'" using j(1) by (simp add: maps_ok_def)
  moreover have "idle_ok ?q'" using j(2) by (auto simp: idle_ok_def)
  moreover have "owner_ok ?q'"
    by (rule owner_okI, simp split: if_splits) (erule owner_okD [OF j(3), simplified], auto)
  moreover have "sessions_ok ?q'"
  proof (rule sessions_okI)
    fix x rx assume x: "hget (sessions ?q') x = Some rx"
    then have ok: "session_ok ?q x rx" using sessions_okD [OF j(4)] by simp
    show "session_ok ?q' x rx"
    proof (cases "x = sid")
      case True
      with x ended show ?thesis by (simp add: session_ok_def)
    next
      case False
      show ?thesis by (rule session_ok_cong [OF ok]) (use False own in auto)
    qed
  qed
  moreover have "requests_ok ?q'" using j(5) by (simp add: requests_ok_def)
  moreover have "terminals_ok ?q'" using j(6) by (simp add: terminals_ok_def stateful_of_def)
  moreover have "rows_ok ?q'" using j(7) by (simp add: rows_ok_def)
  ultimately show ?thesis by (intro pool_invI) simp_all
qed


lemma close_take_cases:
  assumes "close_take now w sid error reusable p = Some (out, p')"
  obtains r where "hget (sessions p) sid = Some r" "sr_worker r = w"
    "co_pending out = session_commands sid p" "co_cause out = close_cause error r"
    "co_terminal out = sr_terminal r" "co_closed out = sr_closed r"
    "p' = p\<lparr>sessions := hput sid (closed_record now error r) (sessions p),
       worker_sessions := hdel w (worker_sessions p),
       idle := (if reusable \<and> hhas (liveness p) w
         then idle p @ [\<lparr>we_id = w, we_profile = sr_profile r, we_sink = sr_sink r\<rparr>] else idle p),
       inflight := hretain (\<lambda>_ e. pe_session e \<noteq> Some sid) (inflight p)\<rparr>"
  using assms by (auto simp: close_take_def split: option.splits if_splits)

lemma closed_record_simps [simp]:
  "sr_worker (closed_record now error r) = sr_worker r"
  "sr_profile (closed_record now error r) = sr_profile r"
  "sr_sink (closed_record now error r) = sr_sink r"
  "sr_stateful (closed_record now error r) = sr_stateful r"
  "sr_terminal (closed_record now error r) = None"
  "sr_finished (closed_record now error r) = Some now"
  "sr_state (closed_record now error r) = (if error \<noteq> None then Failed else Closed)"
  "sr_workdir (closed_record now error r) = []"
  "sr_env (closed_record now error r) = []"
  "sr_drop_to (closed_record now error r) = None"
  by (simp_all add: closed_record_def clear_inputs_def)

lemma fail_session_simps [simp]:
  "sr_worker (fail_session now r) = sr_worker r"
  "sr_profile (fail_session now r) = sr_profile r"
  "sr_sink (fail_session now r) = sr_sink r"
  "sr_stateful (fail_session now r) = sr_stateful r"
  "sr_terminal (fail_session now r) = None"
  "sr_finished (fail_session now r) = Some now"
  "sr_state (fail_session now r) = Failed"
  "sr_workdir (fail_session now r) = []"
  "sr_env (fail_session now r) = []"
  "sr_drop_to (fail_session now r) = None"
  by (simp_all add: fail_session_def clear_inputs_def)

lemma close_take_inv:
  assumes inv: "pool_inv p" and own: "closes_own w sid p"
    and ct: "close_take now w sid error reusable p = Some (out, p')"
  shows "pool_inv p'"
proof -
  obtain r where r: "hget (sessions p) sid = Some r" and w: "sr_worker r = w"
    and p': "p' = p\<lparr>sessions := hput sid (closed_record now error r) (sessions p),
       worker_sessions := hdel w (worker_sessions p),
       idle := (if reusable \<and> hhas (liveness p) w
         then idle p @ [\<lparr>we_id = w, we_profile = sr_profile r, we_sink = sr_sink r\<rparr>] else idle p),
       inflight := hretain (\<lambda>_ e. pe_session e \<noteq> Some sid) (inflight p)\<rparr>"
    using ct by (rule close_take_cases) blast
  let ?q = "p\<lparr>sessions := hput sid (closed_record now error r) (sessions p),
    worker_sessions := hdel w (worker_sessions p)\<rparr>"
  let ?s = "?q\<lparr>inflight := hretain (\<lambda>_ e. pe_session e \<noteq> Some sid) (inflight ?q)\<rparr>"
  have "pool_inv ?q"
    by (rule unbind_session_inv [OF inv r w])
      (use own w in \<open>auto simp: closes_own_def live_state_def\<close>)
  then have s: "pool_inv ?s" by (rule pool_inv_hretain_inflight)
  show ?thesis
  proof (cases "reusable \<and> hhas (liveness p) w")
    case False
    with s show ?thesis by (auto simp: p')
  next
    case True
    with own have own': "hget (worker_sessions p) w = Some sid" by (auto simp: closes_own_def)
    from owner_okD [OF pool_invD(3) [OF inv] own'] obtain l
      where l: "hget (liveness p) w = Some l" "sr_profile r = lv_profile l" "sr_sink r = lv_shutdown l"
      using r by blast
    have out: "w \<notin> we_id ` set (idle p)"
      using pool_invD(2) [OF inv] own' by (auto simp: idle_ok_def)
    let ?t = "?s\<lparr>idle := idle p @ [\<lparr>we_id = w, we_profile = sr_profile r, we_sink = sr_sink r\<rparr>]\<rparr>"
    have "idle_ok ?t"
      using pool_invD(2) [OF s] out l by (auto simp: idle_ok_def)
    then have "pool_inv ?t" using pool_invD [OF s] by (intro pool_invI) simp_all
    moreover have "p' = ?t" using True by (intro pool.equality) (simp_all add: p')
    ultimately show ?thesis by simp
  qed
qed

lemma drop_worker_inv:
  assumes inv: "pool_inv p"
  shows "pool_inv (snd (drop_worker now w p))"
proof -
  have forget: "pool_inv q'"
    if q: "pool_inv q" and no: "hget (worker_sessions q) w = None"
      and q': "q' = q\<lparr>idle := filter (\<lambda>e. we_id e \<noteq> w) (idle q), pty_sessions := m,
        liveness := hdel w (liveness q)\<rparr>" for q q' m
  proof -
    let ?q = "q\<lparr>idle := filter (\<lambda>e. we_id e \<noteq> w) (idle q), pty_sessions := m,
      liveness := hdel w (liveness q)\<rparr>"
    note i = pool_invD [OF q]
    have "idle_ok ?q" using i(2) by (auto simp: idle_ok_def distinct_map_filter)
    moreover have "owner_ok ?q"
    proof (rule owner_okI)
      fix v sid assume "hget (worker_sessions ?q) v = Some sid"
      then have v: "hget (worker_sessions q) v = Some sid" by simp
      with no have "v \<noteq> w" by auto
      with owner_okD [OF i(3) v] show "\<exists>l. hget (liveness ?q) v = Some l \<and>
          (\<forall>r. hget (sessions ?q) sid = Some r \<longrightarrow>
             sr_worker r = v \<and> sr_profile r = lv_profile l \<and> sr_sink r = lv_shutdown l)"
        by auto
    qed
    moreover have "maps_ok ?q" using i(1) by (simp add: maps_ok_def)
    ultimately show ?thesis using i unfolding q'
      by (intro pool_invI) (simp_all add: sessions_ok_def session_ok_def requests_ok_def
          terminals_ok_def stateful_of_def rows_ok_def)
  qed
  show ?thesis
  proof (cases "hget (worker_sessions p) w")
    case None
    then show ?thesis
      by (intro forget [OF inv]) (simp_all add: drop_worker_def Let_def hdel_absent)
  next
    case (Some sid)
    show ?thesis
    proof (cases "hget (sessions p) sid")
      case None
      note i = pool_invD [OF inv]
      let ?q = "p\<lparr>worker_sessions := hdel w (worker_sessions p)\<rparr>"
      have "idle_ok ?q" using i(2) by (auto simp: idle_ok_def)
      moreover have "owner_ok ?q"
        by (rule owner_okI, simp split: if_splits) (erule owner_okD [OF i(3)], auto)
      moreover have "sessions_ok ?q"
        by (rule sessions_okI, rule session_ok_cong [OF sessions_okD [OF i(4)]])
          (use None Some in auto)
      moreover have "maps_ok ?q" using i(1) by (simp add: maps_ok_def)
      ultimately have "pool_inv ?q" using i
        by (intro pool_invI) (simp_all add: requests_ok_def terminals_ok_def stateful_of_def rows_ok_def)
      then show ?thesis
        by (rule forget [where m = "hdel w (pty_sessions p)"])
          (use Some None in \<open>auto intro!: pool.equality simp: drop_worker_def Let_def\<close>)
    next
      case r: (Some r)
      have w: "sr_worker r = w"
        by (rule owner_okD [OF pool_invD(3) [OF inv] Some]) (use r in blast)
      have "pool_inv (p\<lparr>sessions := hput sid (fail_session now r) (sessions p),
          worker_sessions := hdel w (worker_sessions p)\<rparr>)"
        by (rule unbind_session_inv [OF inv r w]) (use Some w in \<open>auto simp: live_state_def\<close>)
      then show ?thesis
        by (rule forget [where m = "hdel w (pty_sessions p)"])
          (use Some r in \<open>auto intro!: pool.equality simp: drop_worker_def Let_def hmod_as_hput\<close>)
    qed
  qed
qed

lemma list_session_commands_inv:
  assumes inv: "pool_inv p"
  shows "pool_inv (snd (list_session_commands now sid p))"
proof (cases "hget (sessions p) sid")
  case None
  with inv show ?thesis by (simp add: list_session_commands_def)
next
  case (Some r)
  let ?r = "if sr_state r = Active then r\<lparr>sr_activity := now\<rparr> else r"
  let ?f = "\<lambda>row. if hr_session row = Some sid then row\<lparr>hr_polled := now\<rparr> else row"
  let ?q = "p\<lparr>sessions := hput sid ?r (sessions p)\<rparr>"
  have q: "pool_inv ?q"
    by (rule pool_inv_set_session [OF inv Some])
      (use pool_inv_session_okD [OF inv Some] in \<open>auto simp: session_ok_def split: if_splits\<close>)
  note i = pool_invD [OF q]
  let ?m = "map (\<lambda>(rid, row). (rid, ?f row)) (handles p)"
  have get: "hget ?m x = map_option ?f (hget (handles p) x)" for x
    by (simp add: hget_def map_of_map)
  have "map fst ?m = map fst (handles p)" by (simp add: case_prod_unfold)
  then have "maps_ok (?q\<lparr>handles := ?m\<rparr>)" using i(1) by (simp add: maps_ok_def hwf_def del: map_map)
  moreover have "requests_ok (?q\<lparr>handles := ?m\<rparr>)"
    using i(5) unfolding requests_ok_def by (fastforce simp: get)
  moreover have "rows_ok (?q\<lparr>handles := ?m\<rparr>)"
    unfolding rows_ok_def
  proof (intro allI impI)
    fix x row assume "hget (handles (?q\<lparr>handles := ?m\<rparr>)) x = Some row"
    then obtain z where "hget (handles p) x = Some z" and row: "row = ?f z" by (auto simp: get)
    then have "row_ok x z" using i(7) by (simp add: rows_ok_def)
    then show "row_ok x row" by (auto simp: row row_ok_def split: if_splits)
  qed
  ultimately have "pool_inv (?q\<lparr>handles := ?m\<rparr>)" using i by (intro pool_invI) simp_all
  with Some show ?thesis by (simp add: list_session_commands_def Let_def)
qed

end
