(* ===== verification/PoolCore.thy ===== *)
theory PoolCore
  imports PoolInv
begin

text \<open>
  The part of the invariant that every critical section keeps whatever workers, clients and connections do: requests
  refer to running handles and to the worker of their session, a terminal excludes stateful commands, and handle rows
  are well formed.  It asks nothing of the idle queue, the registrations and the reservations; those are the leases,
  and whether they stay in order depends on the workers (\<open>PoolLease\<close>).
\<close>

section \<open>The core of the invariant\<close>

definition pool_core :: "pool \<Rightarrow> bool" where
  "pool_core p \<longleftrightarrow> maps_ok p \<and> requests_ok p \<and> terminals_ok p \<and> rows_ok p"

lemma pool_coreI: "\<lbrakk>maps_ok p; requests_ok p; terminals_ok p; rows_ok p\<rbrakk> \<Longrightarrow> pool_core p"
  by (simp add: pool_core_def)

lemma pool_coreD:
  assumes "pool_core p"
  shows "maps_ok p" "requests_ok p" "terminals_ok p" "rows_ok p"
  using assms by (simp_all add: pool_core_def)

lemma pool_inv_core: "pool_inv p \<Longrightarrow> pool_core p"
  by (simp add: pool_inv_def pool_core_def)

lemma core_hwf:
  assumes "pool_core p"
  shows "hwf (inflight p)" "hwf (handles p)" "hwf (liveness p)" "hwf (sessions p)" "hwf (worker_sessions p)"
  using pool_coreD(1) [OF assms] by (simp_all add: maps_ok_def)

lemma core_new: "pool_core new_pool"
  by (rule pool_inv_core [OF pool_inv_new])

lemma core_idle [simp]: "pool_core (p\<lparr>idle := xs\<rparr>) = pool_core p" "pool_core (p\<lparr>pty_sessions := m\<rparr>) = pool_core p"
  by (simp_all add: pool_core_def inv_defs)

text \<open>The core reads three maps; the queue, the registrations and the reservations are free.\<close>

lemma core_cong:
  assumes "pool_core p" and "inflight q = inflight p" and "handles q = handles p" and "sessions q = sessions p"
    and "hwf (liveness q)" and "hwf (worker_sessions q)"
  shows "pool_core q"
  using assms by (simp add: pool_core_def inv_defs)

lemma core_terminalD:
  assumes "pool_core p" and "hget (sessions p) sid = Some r"
  shows "stateful_of sid p \<le> sr_stateful r"
    "sr_terminal r \<noteq> None \<Longrightarrow> stateful_of sid p = 0 \<and> sr_state r \<in> {Active, Closing}"
  using pool_coreD(3) [OF assms(1)] assms(2) by (auto simp: terminals_ok_def)

lemma core_rowD:
  assumes "pool_core p" and "hget (handles p) rid = Some row"
  shows "row_ok rid row" "hhas (inflight p) rid \<Longrightarrow> hr_status row = Running"
  using assms requests_okD [OF pool_coreD(2) [OF assms(1)], of rid]
  by (auto simp: pool_core_def rows_ok_def hhas_def)

lemma core_fresh: "pool_core p \<Longrightarrow> hget (handles p) rid = None \<Longrightarrow> hget (inflight p) rid = None"
  by (cases "hget (inflight p) rid") (auto elim: requests_okD [OF pool_coreD(2)])

section \<open>Changes of one entry\<close>

lemma core_set_session:
  assumes core: "pool_core p" and r: "hget (sessions p) sid = Some r"
    and same: "sr_worker r' = sr_worker r" "sr_sink r' = sr_sink r"
    and st: "stateful_of sid p \<le> sr_stateful r'"
    and te: "sr_terminal r' \<noteq> None \<Longrightarrow> stateful_of sid p = 0 \<and> sr_state r' \<in> {Active, Closing}"
  shows "pool_core (p\<lparr>sessions := hput sid r' (sessions p)\<rparr>)"
proof (rule pool_coreI)
  show "maps_ok (p\<lparr>sessions := hput sid r' (sessions p)\<rparr>)" using core by (simp add: pool_core_def maps_ok_def)
  show "requests_ok (p\<lparr>sessions := hput sid r' (sessions p)\<rparr>)"
    using pool_coreD(2) [OF core] r same unfolding requests_ok_def by (fastforce split: if_splits)
  show "terminals_ok (p\<lparr>sessions := hput sid r' (sessions p)\<rparr>)"
    using pool_coreD(3) [OF core] st te by (simp add: terminals_ok_def stateful_of_def)
qed (use core in \<open>simp_all add: pool_core_def\<close>)

lemma core_hmod_session:
  assumes core: "pool_core p"
    and f: "\<And>r. hget (sessions p) sid = Some r \<Longrightarrow> sr_worker (f r) = sr_worker r \<and> sr_sink (f r) = sr_sink r \<and>
      stateful_of sid p \<le> sr_stateful (f r) \<and>
      (sr_terminal (f r) \<noteq> None \<longrightarrow> stateful_of sid p = 0 \<and> sr_state (f r) \<in> {Active, Closing})"
  shows "pool_core (p\<lparr>sessions := hmod sid f (sessions p)\<rparr>)"
proof (cases "hget (sessions p) sid")
  case None
  with core show ?thesis by (simp add: hmod_absent)
next
  case (Some r)
  show ?thesis unfolding hmod_as_hput [OF Some] by (rule core_set_session [OF core Some]) (use f [OF Some] in auto)
qed

lemma core_set_row:
  assumes core: "pool_core p" and r: "hget (handles p) rid = Some row"
    and same: "hr_session row' = hr_session row" "hr_worker row' = hr_worker row"
    and ok: "row_ok rid row'" and running: "hhas (inflight p) rid \<Longrightarrow> hr_status row' = Running"
  shows "pool_core (p\<lparr>handles := hput rid row' (handles p)\<rparr>)"
proof (rule pool_coreI)
  show "maps_ok (p\<lparr>handles := hput rid row' (handles p)\<rparr>)" using core by (simp add: pool_core_def maps_ok_def)
  show "requests_ok (p\<lparr>handles := hput rid row' (handles p)\<rparr>)"
    using pool_coreD(2) [OF core] r same running unfolding requests_ok_def hhas_def by (fastforce split: if_splits)
  show "rows_ok (p\<lparr>handles := hput rid row' (handles p)\<rparr>)"
    using pool_coreD(4) [OF core] ok by (simp add: rows_ok_def)
qed (use core in \<open>simp_all add: pool_core_def\<close>)

lemma core_hmod_row:
  assumes core: "pool_core p"
    and f: "\<And>row. hr_session (f row) = hr_session row \<and> hr_worker (f row) = hr_worker row \<and> hr_status (f row) = hr_status row \<and>
      (row_ok rid row \<longrightarrow> row_ok rid (f row))"
  shows "pool_core (p\<lparr>handles := hmod rid f (handles p)\<rparr>)"
proof (cases "hget (handles p) rid")
  case None
  with core show ?thesis by (simp add: hmod_absent)
next
  case (Some row)
  show ?thesis unfolding hmod_as_hput [OF Some]
    by (rule core_set_row [OF core Some]) (use f core_rowD [OF core Some] in auto)
qed

text \<open>Requests may be taken out.\<close>

lemma core_hretain_inflight:
  assumes core: "pool_core p"
  shows "pool_core (p\<lparr>inflight := hretain Q (inflight p)\<rparr>)"
proof (rule pool_coreI)
  let ?p = "p\<lparr>inflight := hretain Q (inflight p)\<rparr>"
  show "terminals_ok ?p" by (rule terminals_ok_mono [OF pool_coreD(3) [OF core]]) (simp_all add: stateful_of_hretain)
  show "requests_ok ?p" using pool_coreD(2) [OF core] core_hwf(1) [OF core]
    by (auto simp: requests_ok_def split: option.splits if_splits)
  show "maps_ok ?p" using core by (simp add: pool_core_def maps_ok_def)
qed (use core in \<open>simp add: pool_core_def\<close>)

lemma hdel_as_hretain: "hdel k m = hretain (\<lambda>x _. x \<noteq> k) m"
  by (simp add: hdel_def hretain_def AList.delete_eq case_prod_unfold eq_commute)

lemma core_hdel_inflight: "pool_core p \<Longrightarrow> pool_core (p\<lparr>inflight := hdel rid (inflight p)\<rparr>)"
  unfolding hdel_as_hretain by (rule core_hretain_inflight)

lemma core_hdel_row:
  assumes core: "pool_core p" and out: "\<not> hhas (inflight p) rid"
  shows "pool_core (p\<lparr>handles := hdel rid (handles p)\<rparr>)"
proof (rule pool_coreI)
  let ?p = "p\<lparr>handles := hdel rid (handles p)\<rparr>"
  show "maps_ok ?p" using core by (simp add: pool_core_def maps_ok_def)
  show "requests_ok ?p" using pool_coreD(2) [OF core] out by (fastforce simp: requests_ok_def hhas_def)
  show "rows_ok ?p" using pool_coreD(4) [OF core] by (simp add: rows_ok_def)
qed (use core in \<open>simp add: pool_core_def\<close>)

section \<open>Every section keeps the core\<close>

lemma core_register:
  assumes "pool_core p" and "register_worker now w profile location c p = Inr q"
  shows "pool_core q"
  by (rule core_cong [OF assms(1)]) (use assms core_hwf [OF assms(1)] in \<open>auto simp: register_worker_def split: if_splits\<close>)

lemma core_touch_worker:
  assumes "pool_core p"
  shows "pool_core (touch_worker now w p)"
  by (rule core_cong [OF assms]) (simp_all add: touch_worker_def core_hwf [OF assms])

lemma core_reserve:
  assumes core: "pool_core p" and fresh: "fresh_session (open_session_id op) p"
    and cr: "create_reserve now profile op ready p = (r, q)"
  shows "pool_core q"
proof (cases r)
  case (Inl e)
  with cr core show ?thesis using create_reserve_Inl by blast
next
  case (Inr wk)
  let ?sid = "open_session_id op"
  obtain as bs where q: "q = p\<lparr>idle := as @ bs, worker_sessions := hput (we_id wk) ?sid (worker_sessions p),
      sessions := hput ?sid (opening_record now profile op ready wk) (sessions p)\<rparr>"
    using cr Inr by (blast elim: create_reserve_cases)
  have e0: "hget (inflight p) rid = Some e \<Longrightarrow> pe_session e \<noteq> Some ?sid" for rid e
    using fresh core_hwf(1) [OF core] session_commands_Nil by (auto simp: fresh_session_def)
  show ?thesis
  proof (rule pool_coreI)
    show "maps_ok q" using core by (simp add: pool_core_def maps_ok_def q)
    show "requests_ok q" unfolding requests_ok_def
      using pool_coreD(2) [OF core] e0 by (fastforce simp: q elim: requests_okD)
    have "stateful_of ?sid p = 0"
      using e0 core_hwf(1) [OF core] by (auto simp: stateful_of_def hcount_zero in_set_hget)
    then show "terminals_ok q" using pool_coreD(3) [OF core]
      by (auto simp: terminals_ok_def q opening_record_def stateful_of_def)
    show "rows_ok q" using pool_coreD(4) [OF core] by (simp add: rows_ok_def q)
  qed
qed

lemma core_touch_session: "pool_core p \<Longrightarrow> pool_core (touch_session now sid p)"
  unfolding touch_session_def by (rule core_hmod_session) (auto dest: core_terminalD)

lemma core_session_ready:
  assumes core: "pool_core p"
  shows "pool_core (fst (session_ready now w sid error p))"
proof (cases "hget (sessions p) sid")
  case None
  with core show ?thesis by (simp add: session_ready_def)
next
  case (Some r)
  have "pool_core (p\<lparr>sessions := hput sid (ready_record now error r) (sessions p)\<rparr>)"
    by (rule core_set_session [OF core Some])
      (use core_terminalD [OF core Some] in \<open>auto simp: ready_record_def clear_inputs_def Let_def split: option.splits if_splits\<close>)
  with core Some show ?thesis by (simp add: session_ready_def)
qed

lemma core_close_begin:
  assumes core: "pool_core p"
  shows "pool_core (snd (close_begin gate ch sid p))"
proof (cases "hget (sessions p) sid")
  case None
  with core show ?thesis by (simp add: close_begin_def)
next
  case (Some r)
  have "pool_core (p\<lparr>sessions := hput sid (r\<lparr>sr_state := Closing, sr_closed := sr_closed r @ [ch]\<rparr>) (sessions p)\<rparr>)"
    by (rule core_set_session [OF core Some]) (use core_terminalD [OF core Some] in auto)
  with core Some show ?thesis by (auto simp: close_begin_def split: option.split)
qed

lemma core_attach:
  assumes core: "pool_core p"
  shows "pool_core (snd (attach_terminal now ch sid p))"
proof (cases "hget (sessions p) sid")
  case None
  with core show ?thesis by (simp add: attach_terminal_def)
next
  case (Some r)
  have "pool_core (p\<lparr>sessions := hput sid (r\<lparr>sr_terminal := Some ch, sr_activity := now\<rparr>) (sessions p)\<rparr>)"
    if "sr_state r = Active" "sr_stateful r = 0"
    by (rule core_set_session [OF core Some]) (use core_terminalD [OF core Some] that in auto)
  with core Some show ?thesis by (auto simp: attach_terminal_def)
qed

lemma core_detach: "pool_core p \<Longrightarrow> pool_core (detach_terminal_if now sid ch p)"
  unfolding detach_terminal_if_def by (rule core_hmod_session) (auto dest: core_terminalD)

lemma core_poll_row: "pool_core p \<Longrightarrow> pool_core (poll_row now rid p)"
  unfolding poll_row_def by (rule core_hmod_row) (auto simp: row_ok_def)

lemma core_spool_failed: "pool_core p \<Longrightarrow> pool_core (mark_spool_failed rid p)"
  unfolding mark_spool_failed_def by (rule core_hmod_row) (auto simp: row_ok_def)

lemma core_cancel_request:
  assumes core: "pool_core p"
  shows "pool_core (snd (cancel_request rid p))"
proof (cases "hget (handles p) rid")
  case (Some row)
  have "pool_core (p\<lparr>handles := hput rid (row\<lparr>hr_cancel_requested := True\<rparr>) (handles p)\<rparr>)"
    by (rule core_set_row [OF core Some]) (use core_rowD [OF core Some] in \<open>auto simp: row_ok_def split: if_splits\<close>)
  with core Some show ?thesis by (simp add: cancel_request_def)
qed (use core in \<open>simp add: cancel_request_def\<close>)

lemma core_finish_row:
  assumes core: "pool_core p" and f: "finisher upd" and out: "\<not> hhas (inflight p) rid"
  shows "pool_core (fst (finish_row upd rid p))"
proof (cases "hget (handles p) rid")
  case None
  with core show ?thesis by (simp add: finish_row_def)
next
  case (Some row)
  have "pool_core (p\<lparr>handles := hput rid (upd row) (handles p)\<rparr>)"
    by (rule core_set_row [OF core Some]) (use core_rowD [OF core Some] f out in \<open>auto simp: row_ok_def finisher_def\<close>)
  with core Some show ?thesis by (simp add: finish_row_def)
qed

lemma core_drop_inflight: "pool_core p \<Longrightarrow> pool_core (snd (drop_inflight w p))"
  by (simp add: drop_inflight_def core_hretain_inflight)

lemma core_purge: "pool_core p \<Longrightarrow> \<not> hhas (inflight p) rid \<Longrightarrow> pool_core (fst (purge_handle rid p))"
  by (simp add: purge_handle_def core_hdel_row)

lemma core_forget: "pool_core p \<Longrightarrow> pool_core (dispatch_forget rid p)"
  using core_hdel_row [OF core_hdel_inflight [of p rid], of rid] by simp

lemma core_retain:
  assumes core: "pool_core p"
  shows "pool_core (retain_sessions now ttl p)"
proof (rule pool_coreI)
  let ?p = "retain_sessions now ttl p"
  have sub: "hget (sessions ?p) sid = Some r \<Longrightarrow> hget (sessions p) sid = Some r" for sid r
    using core_hwf(4) [OF core] by (simp add: retain_sessions_def split: option.splits if_splits)
  have rest: "inflight ?p = inflight p" "handles ?p = handles p" by (simp_all add: retain_sessions_def)
  show "maps_ok ?p" using core by (simp add: pool_core_def maps_ok_def retain_sessions_def)
  show "requests_ok ?p" unfolding requests_ok_def rest
    using pool_coreD(2) [OF core] sub unfolding requests_ok_def by blast
  show "terminals_ok ?p"
    by (rule terminals_ok_mono [OF pool_coreD(3) [OF core]]) (simp_all add: sub stateful_of_def rest)
  show "rows_ok ?p" using pool_coreD(4) [OF core] by (simp add: retain_sessions_def)
qed

lemma core_list:
  assumes core: "pool_core p"
  shows "pool_core (snd (list_session_commands now sid p))"
proof (cases "hget (sessions p) sid")
  case None
  with core show ?thesis by (simp add: list_session_commands_def)
next
  case (Some r)
  let ?r = "if sr_state r = Active then r\<lparr>sr_activity := now\<rparr> else r"
  let ?f = "\<lambda>row. if hr_session row = Some sid then row\<lparr>hr_polled := now\<rparr> else row"
  let ?q = "p\<lparr>sessions := hput sid ?r (sessions p)\<rparr>"
  have q: "pool_core ?q"
    by (rule core_set_session [OF core Some]) (use core_terminalD [OF core Some] in auto)
  let ?m = "map (\<lambda>(rid, row). (rid, ?f row)) (handles p)"
  have get: "hget ?m x = map_option ?f (hget (handles p) x)" for x
    by (simp add: hget_def map_of_map)
  have "pool_core (?q\<lparr>handles := ?m\<rparr>)"
  proof (rule pool_coreI)
    have "map fst ?m = map fst (handles p)" by (simp add: case_prod_unfold)
    then show "maps_ok (?q\<lparr>handles := ?m\<rparr>)" using pool_coreD(1) [OF q] by (simp add: maps_ok_def hwf_def del: map_map)
    show "requests_ok (?q\<lparr>handles := ?m\<rparr>)"
      using pool_coreD(2) [OF q] unfolding requests_ok_def by (fastforce simp: get)
    show "rows_ok (?q\<lparr>handles := ?m\<rparr>)" unfolding rows_ok_def
    proof (intro allI impI)
      fix x row assume "hget (handles (?q\<lparr>handles := ?m\<rparr>)) x = Some row"
      then obtain z where "hget (handles p) x = Some z" and row: "row = ?f z" by (auto simp: get)
      then have "row_ok x z" using pool_coreD(4) [OF core] by (simp add: rows_ok_def)
      then show "row_ok x row" by (auto simp: row row_ok_def split: if_splits)
    qed
  qed (use pool_coreD(3) [OF q] in simp)
  with Some show ?thesis by (simp add: list_session_commands_def Let_def)
qed

lemma core_close_take:
  assumes core: "pool_core p" and ct: "close_take now w sid error reusable p = Some (out, q)"
  shows "pool_core q"
proof -
  obtain r xs where r: "hget (sessions p) sid = Some r"
    and q: "q = p\<lparr>sessions := hput sid (closed_record now error r) (sessions p),
       worker_sessions := hdel w (worker_sessions p), idle := xs,
       inflight := hretain (\<lambda>_ e. pe_session e \<noteq> Some sid) (inflight p)\<rparr>"
    using ct by (rule close_take_cases) blast
  let ?a = "p\<lparr>sessions := hput sid (closed_record now error r) (sessions p)\<rparr>"
  let ?b = "?a\<lparr>inflight := hretain (\<lambda>_ e. pe_session e \<noteq> Some sid) (inflight ?a)\<rparr>"
  have "pool_core ?a" by (rule core_set_session [OF core r]) (use core_terminalD(1) [OF core r] in auto)
  then have b: "pool_core ?b" by (rule core_hretain_inflight)
  show ?thesis by (rule core_cong [OF b]) (use core_hwf [OF core] in \<open>simp_all add: q\<close>)
qed

lemma core_drop_worker:
  assumes core: "pool_core p"
  shows "pool_core (snd (drop_worker now w p))"
proof -
  let ?s = "case hget (worker_sessions p) w of None \<Rightarrow> sessions p
    | Some sid \<Rightarrow> (case hget (sessions p) sid of None \<Rightarrow> sessions p | Some r \<Rightarrow> hmod sid (fail_session now) (sessions p))"
  have "pool_core (p\<lparr>sessions := ?s\<rparr>)"
    using core core_hmod_session [OF core, where f = "fail_session now"] core_terminalD(1) [OF core]
    by (auto simp: fail_session_def clear_inputs_def split: option.split)
  then show ?thesis
    by (rule core_cong) (use core_hwf [OF core] in \<open>simp_all add: drop_worker_def Let_def split: option.split\<close>)
qed

lemma core_complete_take:
  assumes core: "pool_core p"
  shows "pool_core (complete_take now rid p)"
proof (cases "hget (inflight p) rid")
  case None
  with core show ?thesis by (simp add: complete_take_def)
next
  case (Some e)
  let ?p = "p\<lparr>inflight := hdel rid (inflight p)\<rparr>"
  have core1: "pool_core ?p" by (rule core_hdel_inflight [OF core])
  show ?thesis
  proof (cases "pe_session e")
    case None
    with core1 Some show ?thesis by (simp add: complete_take_def)
  next
    case sid: (Some sid)
    let ?f = "\<lambda>r. let r1 = r\<lparr>sr_activity := now\<rparr>
      in if pe_mode e = Stateful then r1\<lparr>sr_stateful := sr_stateful r1 - 1\<rparr> else r1"
    have "pool_core (?p\<lparr>sessions := hmod sid ?f (sessions ?p)\<rparr>)"
    proof (rule core_hmod_session [OF core1])
      fix r assume r: "hget (sessions ?p) sid = Some r"
      then have r0: "hget (sessions p) sid = Some r" by simp
      show "sr_worker (?f r) = sr_worker r \<and> sr_sink (?f r) = sr_sink r \<and> stateful_of sid ?p \<le> sr_stateful (?f r) \<and>
        (sr_terminal (?f r) \<noteq> None \<longrightarrow> stateful_of sid ?p = 0 \<and> sr_state (?f r) \<in> {Active, Closing})"
        using core_terminalD [OF core1 r] core_terminalD(1) [OF core r0] stateful_of_hdel [OF core_hwf(1) [OF core] Some, of sid] sid
        by (auto simp: Let_def)
    qed
    with sid Some show ?thesis by (simp add: complete_take_def Let_def)
  qed
qed

lemma core_dispatch_register:
  assumes core: "pool_core p" and fresh: "hget (handles p) rid = None"
  shows "pool_core (dispatch_register wk rid t0 now p)"
proof (rule pool_coreI)
  let ?q = "dispatch_register wk rid t0 now p"
  have "stateful_of sid ?q = stateful_of sid p" for sid
    using core_fresh [OF core fresh] by (simp add: stateful_of_def dispatch_register_def)
  then show "terminals_ok ?q" using pool_coreD(3) [OF core] by (simp add: terminals_ok_def dispatch_register_def)
  show "requests_ok ?q" using pool_coreD(2) [OF core] unfolding requests_ok_def
    by (auto simp: dispatch_register_def fresh_row_def)
  show "rows_ok ?q" using pool_coreD(4) [OF core] by (simp add: rows_ok_def dispatch_register_def fresh_row_def row_ok_def)
  show "maps_ok ?q" using pool_coreD(1) [OF core] by (simp add: maps_ok_def dispatch_register_def)
qed

lemma core_submit:
  assumes core: "pool_core p" and fresh: "hget (handles p) rid = None" and cap: "captured_ok sid cap p"
    and reg: "submit_register t0 now cap sid rid mode p = (res, q)"
  shows "pool_core q"
proof (cases "submit_error mode sid p")
  case (Some e)
  with reg core show ?thesis by (simp add: submit_register_def)
next
  case None
  then obtain r where r: "hget (sessions p) sid = Some r" and act: "sr_state r = Active"
    and te: "mode = Stateful \<longrightarrow> sr_terminal r = None" by (rule submit_error_None)
  let ?e = "\<lparr>pe_sink = cp_sink cap, pe_worker = cp_worker cap, pe_profile = cp_profile cap,
    pe_session = Some sid, pe_mode = mode, pe_started = now\<rparr>"
  let ?r = "r\<lparr>sr_stateful := (if mode = Stateful then sr_stateful r + 1 else sr_stateful r), sr_activity := now\<rparr>"
  have q: "q = p\<lparr>inflight := hput rid ?e (inflight p),
      handles := hput rid (fresh_row rid (Some sid) (cp_worker cap) t0) (handles p), sessions := hput sid ?r (sessions p)\<rparr>"
    using reg None r by (simp add: submit_register_def hmod_as_hput)
  note free = core_fresh [OF core fresh]
  let ?s = "p\<lparr>sessions := hput sid ?r (sessions p)\<rparr>"
  have s: "pool_core ?s" by (rule core_set_session [OF core r]) (use core_terminalD [OF core r] in auto)
  show ?thesis
  proof (rule pool_coreI)
    show "maps_ok q" using pool_coreD(1) [OF core] by (simp add: maps_ok_def q)
    show "requests_ok q" unfolding requests_ok_def
    proof (intro allI impI)
      fix x e assume x: "hget (inflight q) x = Some e"
      show "\<exists>row. hget (handles q) x = Some row \<and> hr_status row = Running \<and>
        hr_worker row = pe_worker e \<and> hr_session row = pe_session e \<and>
        (\<forall>sid r. pe_session e = Some sid \<longrightarrow> hget (sessions q) sid = Some r \<longrightarrow>
          sr_worker r = pe_worker e \<and> sr_sink r = pe_sink e)"
      proof (cases "x = rid")
        case True
        with x cap r show ?thesis by (auto simp: q fresh_row_def captured_ok_def)
      next
        case False
        with x have "hget (inflight ?s) x = Some e" by (simp add: q)
        with pool_coreD(2) [OF s] have "\<exists>row. hget (handles ?s) x = Some row \<and> hr_status row = Running \<and>
          hr_worker row = pe_worker e \<and> hr_session row = pe_session e \<and>
          (\<forall>sid r. pe_session e = Some sid \<longrightarrow> hget (sessions ?s) sid = Some r \<longrightarrow>
            sr_worker r = pe_worker e \<and> sr_sink r = pe_sink e)"
          unfolding requests_ok_def by blast
        moreover have "hget (handles q) x = hget (handles ?s) x" "sessions q = sessions ?s"
          using False by (simp_all add: q)
        ultimately show ?thesis by simp
      qed
    qed
    have "stateful_of x q = stateful_of x p + (if x = sid \<and> mode = Stateful then 1 else 0)" for x
      using free by (simp add: q stateful_of_def)
    then show "terminals_ok q" using pool_coreD(3) [OF core] core_terminalD [OF core r] te act
      by (auto simp: terminals_ok_def q)
    show "rows_ok q" using pool_coreD(4) [OF core] by (simp add: rows_ok_def q fresh_row_def row_ok_def)
  qed
qed

lemmas keeps_core = core_touch_worker core_session_ready core_attach core_detach core_cancel_request core_poll_row
  core_touch_session core_list core_spool_failed core_drop_worker core_retain core_close_begin core_drop_inflight
  core_complete_take

end
