(* ===== verification/PoolHeld.thy ===== *)
theory PoolHeld
  imports PoolInv
begin

text \<open>
  Workers held outside the idle queue: a dispatch between its two sections, a session-less command in flight and a
  pinned terminal hold a worker by value, without a mark in the pool.  A holder knows its worker by id and
  socket; what it holds is meaningful as long as the worker is registered on that socket.
\<close>

section \<open>Holders\<close>

text \<open>The worker of an entry is registered, on the connection of the entry.\<close>

definition on_connection :: "worker_entry \<Rightarrow> pool \<Rightarrow> bool" where
  "on_connection wk p \<longleftrightarrow>
     (case hget (liveness p) (we_id wk) of None \<Rightarrow> False | Some l \<Rightarrow> lv_shutdown l = we_sink wk)"

text \<open>The workers of the session-less commands in flight.\<close>

definition lone :: "pool \<Rightarrow> worker_entry list" where
  "lone p = map (entry_worker \<circ> snd) (filter (\<lambda>(rid, e). pe_session e = None) (inflight p))"

text \<open>Holders are of different connections, and while its connection lasts the worker of a holder is neither idle nor
  in a session.\<close>

definition held_ok :: "worker_entry list \<Rightarrow> pool \<Rightarrow> bool" where
  "held_ok hs p \<longleftrightarrow> distinct (map (\<lambda>h. (we_id h, we_sink h)) hs) \<and>
     (\<forall>h \<in> set hs. \<forall>l. hget (liveness p) (we_id h) = Some l \<longrightarrow> lv_shutdown l = we_sink h \<longrightarrow>
        lv_profile l = we_profile h \<and> we_id h \<notin> we_id ` set (idle p) \<and> hget (worker_sessions p) (we_id h) = None)"

lemma held_returnable: "held_ok hs p \<Longrightarrow> h \<in> set hs \<Longrightarrow> on_connection h p \<Longrightarrow> returnable h p"
  by (fastforce simp: held_ok_def on_connection_def returnable_def split: option.splits)

section \<open>Sections that free nobody else's worker\<close>

text \<open>No connection appears or changes, and of the connected workers only one that was idle or in a session is so.\<close>

definition keeps_free :: "pool \<Rightarrow> pool \<Rightarrow> bool" where
  "keeps_free p q \<longleftrightarrow> (\<forall>w l. hget (liveness q) w = Some l \<longrightarrow>
     (\<exists>k. hget (liveness p) w = Some k \<and> lv_shutdown k = lv_shutdown l \<and> lv_profile k = lv_profile l) \<and>
     (w \<in> we_id ` set (idle q) \<or> hget (worker_sessions q) w \<noteq> None \<longrightarrow>
        w \<in> we_id ` set (idle p) \<or> hget (worker_sessions p) w \<noteq> None))"

lemma held_ok_keep:
  assumes ok: "held_ok hs p" and q: "keeps_free p q"
    and sub: "set hs' \<subseteq> set hs" "distinct (map (\<lambda>h. (we_id h, we_sink h)) hs')"
  shows "held_ok hs' q"
  unfolding held_ok_def
proof (intro conjI ballI allI impI)
  fix h l assume h: "h \<in> set hs'" and l: "hget (liveness q) (we_id h) = Some l" "lv_shutdown l = we_sink h"
  from q l(1) obtain k where k: "hget (liveness p) (we_id h) = Some k" "lv_shutdown k = lv_shutdown l"
      "lv_profile k = lv_profile l"
    and free: "we_id h \<in> we_id ` set (idle q) \<or> hget (worker_sessions q) (we_id h) \<noteq> None \<Longrightarrow>
      we_id h \<in> we_id ` set (idle p) \<or> hget (worker_sessions p) (we_id h) \<noteq> None"
    unfolding keeps_free_def by blast
  have "lv_profile k = we_profile h \<and> we_id h \<notin> we_id ` set (idle p) \<and> hget (worker_sessions p) (we_id h) = None"
    using ok h sub(1) k(1,2) l(2) unfolding held_ok_def by auto
  with k(3) free show "lv_profile l = we_profile h" "we_id h \<notin> we_id ` set (idle q)"
    "hget (worker_sessions q) (we_id h) = None" by auto
qed (rule sub(2))

lemma held_ok_same: "held_ok hs p \<Longrightarrow> keeps_free p q \<Longrightarrow> held_ok hs q"
  by (rule held_ok_keep) (auto simp: held_ok_def)

lemma keeps_free_refl [simp]: "keeps_free p p"
  by (auto simp: keeps_free_def)

lemma keeps_free_same:
  "liveness q = liveness p \<Longrightarrow> idle q = idle p \<Longrightarrow> worker_sessions q = worker_sessions p \<Longrightarrow> keeps_free p q"
  by (auto simp: keeps_free_def)

lemma free_touch_worker: "keeps_free p (touch_worker now w p)"
  by (auto simp: keeps_free_def touch_worker_def)

lemma free_reserve: "create_reserve now profile op ready p = (Inr wk, q) \<Longrightarrow> keeps_free p q"
  by (erule create_reserve_cases) (auto simp: keeps_free_def)

lemma free_close_take:
  assumes own: "closes_own w sid p" and ct: "close_take now w sid error reusable p = Some (out, q)"
  shows "keeps_free p q"
  using ct by (rule close_take_cases) (use own in \<open>auto simp: keeps_free_def closes_own_def hhas_def\<close>)

lemma free_drop_worker: "keeps_free p (snd (drop_worker now w p))"
  by (auto simp: keeps_free_def drop_worker_def Let_def split: option.splits if_splits)

lemma free_sections:
  "keeps_free p (fst (session_ready now w sid error p))"
  "keeps_free p (snd (close_begin gate ch sid p))"
  "keeps_free p (snd (attach_terminal now ch sid p))"
  "keeps_free p (detach_terminal_if now sid ch p)"
  "keeps_free p (snd (cancel_request rid p))"
  "keeps_free p (poll_row now rid p)"
  "keeps_free p (touch_session now sid p)"
  "keeps_free p (snd (list_session_commands now sid p))"
  "keeps_free p (mark_spool_failed rid p)"
  "keeps_free p (retain_sessions now ttl p)"
  "keeps_free p (fst (purge_handle rid p))"
  "keeps_free p (fst (finish_row upd rid p))"
  "keeps_free p (snd (drop_inflight w p))"
  "keeps_free p (snd (submit_register t0 now cap sid rid mode p))"
  by (rule keeps_free_same; simp add: session_ready_def close_begin_def attach_terminal_def detach_terminal_if_def
      cancel_request_def poll_row_def touch_session_def list_session_commands_def Let_def mark_spool_failed_def
      retain_sessions_def purge_handle_def finish_row_def drop_inflight_def submit_register_def split: option.split)+

section \<open>The commands without a session\<close>

lemma lone_hretain [simp]: "lone (p\<lparr>inflight := hretain P (inflight p)\<rparr>) =
    map (entry_worker \<circ> snd) (filter (\<lambda>(rid, e). pe_session e = None \<and> P rid e) (inflight p))"
  by (simp add: lone_def hretain_def case_prod_unfold conj_commute)

lemma lone_sub: "set (lone (p\<lparr>inflight := hretain P (inflight p)\<rparr>)) \<subseteq> set (lone p)"
  by (auto simp: lone_def hretain_def)

lemma lone_cong: "inflight q = inflight p \<Longrightarrow> lone q = lone p"
  by (simp add: lone_def)

lemma lone_updates [simp]:
  "lone (p\<lparr>idle := a\<rparr>) = lone p" "lone (p\<lparr>handles := b\<rparr>) = lone p" "lone (p\<lparr>liveness := c\<rparr>) = lone p"
  "lone (p\<lparr>pty_sessions := d\<rparr>) = lone p" "lone (p\<lparr>sessions := f\<rparr>) = lone p" "lone (p\<lparr>worker_sessions := g\<rparr>) = lone p"
  by (simp_all add: lone_def)

lemma lone_distinct_hretain:
  assumes "distinct (map (\<lambda>h. (we_id h, we_sink h)) (as @ lone p))"
  shows "distinct (map (\<lambda>h. (we_id h, we_sink h)) (as @ lone (p\<lparr>inflight := hretain P (inflight p)\<rparr>)))"
proof -
  let ?k = "\<lambda>h. (we_id h, we_sink h)"
  have "lone (p\<lparr>inflight := hretain P (inflight p)\<rparr>)
      = map (entry_worker \<circ> snd) (filter (\<lambda>(rid, e). P rid e) (filter (\<lambda>(rid, e). pe_session e = None) (inflight p)))"
    by (simp add: case_prod_unfold conj_commute)
  moreover have "distinct (map f (filter P xs))" "set (map f (filter P xs)) \<subseteq> set (map f xs)" if "distinct (map f xs)"
    for f :: "exec_id \<times> pending_entry \<Rightarrow> worker_id \<times> conn" and P xs
    using that by (auto simp: distinct_map_filter)
  note this [of "?k \<circ> (entry_worker \<circ> snd)" "filter (\<lambda>(rid, e). pe_session e = None) (inflight p)" "\<lambda>(rid, e). P rid e"]
  ultimately show ?thesis using assms by (auto simp: lone_def)
qed

lemma hdel_split:
  assumes "hwf m" and "hget m k = Some v"
  obtains as bs where "m = as @ (k, v) # bs" "hdel k m = as @ bs"
proof -
  from assms(2) obtain as bs where m: "m = as @ (k, v) # bs" by (meson hget_in_set split_list)
  then have "k \<notin> fst ` set as" "k \<notin> fst ` set bs" using assms(1) by (auto simp: hwf_def)
  then have "filter (\<lambda>(x, _). k \<noteq> x) as = as" "filter (\<lambda>(x, _). k \<noteq> x) bs = bs" by (force simp: filter_id_conv)+
  then have "hdel k m = as @ bs" by (simp add: hdel_def m AList.delete_eq case_prod_unfold)
  with m that show ?thesis by blast
qed

lemma lone_hdel:
  assumes "hwf (inflight p)" and "hget (inflight p) rid = Some e"
  obtains as bs where "lone p = as @ (if pe_session e = None then [entry_worker e] else []) @ bs"
    "lone (p\<lparr>inflight := hdel rid (inflight p)\<rparr>) = as @ bs"
proof -
  obtain xs ys where "inflight p = xs @ (rid, e) # ys" "hdel rid (inflight p) = xs @ ys"
    using assms by (rule hdel_split)
  then show ?thesis
    by (intro that [of "map (entry_worker \<circ> snd) (filter (\<lambda>(rid, e). pe_session e = None) xs)"
        "map (entry_worker \<circ> snd) (filter (\<lambda>(rid, e). pe_session e = None) ys)"]) (simp_all add: lone_def)
qed

lemma lone_hput:
  "hget (inflight p) rid = None \<Longrightarrow> lone (p\<lparr>inflight := hput rid e (inflight p)\<rparr>) =
     lone p @ (if pe_session e = None then [entry_worker e] else [])"
  by (simp add: lone_def hput_fresh)

section \<open>Taking and giving back\<close>

lemma held_ok_take:
  assumes inv: "pool_inv p" and ok: "held_ok hs p" and idle: "idle p = wk # xs"
  shows "held_ok (wk # hs) (p\<lparr>idle := xs\<rparr>)"
proof -
  obtain l where l: "hget (liveness p) (we_id wk) = Some l" "lv_profile l = we_profile wk" "lv_shutdown l = we_sink wk"
    "hget (worker_sessions p) (we_id wk) = None"
    by (rule idle_entryD [OF pool_invD(2) [OF inv]]) (auto simp: idle)
  have "we_id wk \<notin> we_id ` set xs" using pool_invD(2) [OF inv] by (auto simp: idle_ok_def idle)
  moreover have "(we_id h, we_sink h) \<noteq> (we_id wk, we_sink wk)" if "h \<in> set hs" for h
    using ok that l(1,3) by (auto simp: held_ok_def idle)
  ultimately show ?thesis using ok l by (force simp: held_ok_def idle)
qed

lemma held_ok_give:
  assumes ok: "held_ok hs p" and wk: "on_connection wk p" and xs: "set xs = insert wk (set (idle p))"
    and sub: "set hs' \<subseteq> set hs" "distinct (map (\<lambda>h. (we_id h, we_sink h)) (wk # hs'))"
  shows "held_ok hs' (p\<lparr>idle := xs\<rparr>)"
  unfolding held_ok_def
proof (intro conjI ballI allI impI)
  fix h l assume h: "h \<in> set hs'" and l: "hget (liveness (p\<lparr>idle := xs\<rparr>)) (we_id h) = Some l" "lv_shutdown l = we_sink h"
  have r: "lv_profile l = we_profile h" "we_id h \<notin> we_id ` set (idle p)" "hget (worker_sessions p) (we_id h) = None"
    using ok h l sub(1) by (auto simp: held_ok_def)
  have "we_id h \<noteq> we_id wk"
  proof
    assume "we_id h = we_id wk"
    with wk l have "we_sink h = we_sink wk" by (simp add: on_connection_def)
    with \<open>we_id h = we_id wk\<close> imageI [OF h, of "\<lambda>h. (we_id h, we_sink h)"] sub(2) show False by simp
  qed
  with r xs show "lv_profile l = we_profile h" "we_id h \<notin> we_id ` set (idle (p\<lparr>idle := xs\<rparr>))"
    "hget (worker_sessions (p\<lparr>idle := xs\<rparr>)) (we_id h) = None" by auto
qed (use sub(2) in simp)

lemma held_ok_register:
  assumes ok: "held_ok hs p" and reg: "register_worker now w profile location c p = Inr q"
    and fresh: "c \<notin> we_sink ` set hs"
  shows "held_ok hs q"
proof -
  have q: "q = p\<lparr>idle := idle p @ [\<lparr>we_id = w, we_profile = profile, we_sink = c\<rparr>],
      liveness := hput w \<lparr>lv_last_seen = now, lv_shutdown = c, lv_location = location, lv_profile = profile\<rparr> (liveness p)\<rparr>"
    and w: "hget (liveness p) w = None"
    using reg by (auto simp: register_worker_def hhas_def split: if_splits)
  show ?thesis unfolding held_ok_def
  proof (intro conjI ballI allI impI)
    fix h l assume h: "h \<in> set hs" "hget (liveness q) (we_id h) = Some l" "lv_shutdown l = we_sink h"
    have "we_id h \<noteq> w" using h fresh by (auto simp: q)
    with h ok show "lv_profile l = we_profile h" "we_id h \<notin> we_id ` set (idle q)"
      "hget (worker_sessions q) (we_id h) = None" by (auto simp: q held_ok_def)
  qed (use ok in \<open>simp add: held_ok_def\<close>)
qed

end
