(* ===== verification/PoolSystem.thy ===== *)
theory PoolSystem
  imports PoolCore PoolHeld
begin

text \<open>
  The pool as a transition system: every critical section of the session API and of the worker
  connections is one step, in any interleaving.  Besides the pool, a state holds what the running
  tasks remember between their sections: creations in progress, the holder of each session's
  \<open>send_lock\<close>, the handles a \<open>session_closed\<close>, a \<open>handle_worker_drop\<close> or a \<open>complete_request\<close> has
  taken out and not yet finished, the workers that the session-less API has taken out of the queue (by a
  dispatch that has not registered its command yet, or pinned to a terminal), its commands whose frame is not
  sent yet, and two histories, the ids ever issued and the frames sent under the lock.

  A step has a guard only where the state needs it (a task goes on from the section it was in; a holder has the lock)
  or where the environment is documented so: a new session id and a new handle id were never issued before (they are
  random), a client names only sessions whose creation was answered, and a connection is new.  A worker may report any
  session as closed, at any time and repeatedly, and a worker taken without a session may be given back after its
  connection was lost, as in the code; \<open>PoolReach\<close> has the invariant of all runs, \<open>PoolLease\<close> that of the runs in
  which neither happens.  \<open>SessionClose\<close> of a creation that timed out is not in the frame history: it is sent outside
  the lock, for a session no client was told about.
\<close>

section \<open>States and events\<close>

datatype outcome = ByResult result_frame | ByClose exit_cause | ByDrop handle_status exit_cause

datatype holder =
    HoldSubmit captured exec_id string command_mode
  | HoldRun captured exec_id string command_mode
  | HoldClose conn worker_id

datatype lock_frame = WireRun exec_id | WireClose

record sys =
  sp :: pool
  creating :: "session_id list"
  known :: "session_id list"
  locks :: "(session_id, holder) hmap"
  finishing :: "(exec_id \<times> outcome) list"
  opened_ids :: "session_id list"
  issued :: "exec_id list"
  wire :: "(session_id \<times> lock_frame) list"
  popped :: "worker_entry list"
  unsent :: "exec_id list"
  pins :: "worker_entry list"

definition init_sys :: "sys \<Rightarrow> bool" where
  "init_sys s \<longleftrightarrow> s = \<lparr>sp = new_pool, creating = [], known = [], locks = [], finishing = [],
     opened_ids = [], issued = [], wire = [], popped = [], unsent = [], pins = []\<rparr>"

datatype event =
    RegisterEv worker_id string "worker_location option" conn time
  | TouchWorkerEv worker_id time
  | CreateBegin string session_open_frame chan time
  | CreateDone session_id time
  | CreateFail session_id
  | ReadyEv worker_id session_id "string option" time
  | ClosedEv worker_id session_id "string option" bool time
  | SubmitCheck session_id exec_id string command_mode
  | SubmitRegister session_id time time
  | SubmitSend session_id send_outcome
  | CloseBegin "(time \<times> nat) option" session_id chan
  | CloseSend session_id send_outcome
  | AttachEv session_id chan time
  | DetachEv session_id chan time
  | CancelEv exec_id
  | PollEv exec_id time
  | SnapshotEv session_id time
  | ListEv session_id time
  | ResultEv worker_id result_frame time
  | SpoolFailEv exec_id
  | DropRequests worker_id bool
  | DropWorker worker_id time
  | FinishEv exec_id time
  | PurgeEv exec_id
  | SweepSessions time nat
  | ExecTake
  | ExecBack worker_entry
  | ExecRegister worker_entry exec_id time time
  | ExecSend exec_id send_outcome
  | PinEv chan
  | UnpinEv worker_entry

fun outcome_row :: "outcome \<Rightarrow> time \<Rightarrow> handle_row \<Rightarrow> handle_row" where
  "outcome_row (ByResult r) now row = result_row r now row"
| "outcome_row (ByClose cause) now row = closed_row cause now row"
| "outcome_row (ByDrop status cause) now row = dropped_row status cause now row"

definition drop_verdict :: "bool \<Rightarrow> handle_status \<times> exit_cause" where
  "drop_verdict oom = (if oom then (Oomkilled, OomContainer) else (Error, WorkerDied))"

section \<open>Steps\<close>

text \<open>The state after an event, \<open>None\<close> where its guard fails.\<close>

definition set_pool :: "(pool \<Rightarrow> pool) \<Rightarrow> sys \<Rightarrow> sys" where
  "set_pool f s = s\<lparr>sp := f (sp s)\<rparr>"

definition submit_step :: "session_id \<Rightarrow> exec_id \<Rightarrow> string \<Rightarrow> command_mode \<Rightarrow> sys \<Rightarrow> sys option" where
  "submit_step sid rid cmd mode s =
     (if sid \<in> set (known s) \<and> hget (locks s) sid = None \<and> valid_capture_id (eid_str rid)
      then (case submit_check mode sid (sp s) of
              Inl _ \<Rightarrow> Some s
            | Inr cap \<Rightarrow> Some (s\<lparr>locks := hput sid (HoldSubmit cap rid cmd mode) (locks s)\<rparr>))
      else None)"

definition register_step :: "session_id \<Rightarrow> time \<Rightarrow> time \<Rightarrow> sys \<Rightarrow> sys option" where
  "register_step sid t0 now s =
     (case hget (locks s) sid of
       Some (HoldSubmit cap rid cmd mode) \<Rightarrow>
         if rid \<in> set (issued s) then None
         else (case submit_register t0 now cap sid rid mode (sp s) of
             (Some _, p) \<Rightarrow> Some (s\<lparr>sp := p, issued := rid # issued s, locks := hdel sid (locks s)\<rparr>)
           | (None, p) \<Rightarrow> Some (s\<lparr>sp := p, issued := rid # issued s,
                             locks := hput sid (HoldRun cap rid cmd mode) (locks s)\<rparr>))
     | _ \<Rightarrow> None)"

definition send_run_step :: "session_id \<Rightarrow> send_outcome \<Rightarrow> sys \<Rightarrow> sys option" where
  "send_run_step sid r s =
     (case hget (locks s) sid of
       Some (HoldRun cap rid cmd mode) \<Rightarrow>
         Some (s\<lparr>locks := hdel sid (locks s),
                 wire := (if r = Sent then wire s @ [(sid, WireRun rid)] else wire s)\<rparr>)
     | _ \<Rightarrow> None)"

definition close_step :: "(time \<times> nat) option \<Rightarrow> session_id \<Rightarrow> chan \<Rightarrow> sys \<Rightarrow> sys option" where
  "close_step gate sid ch s =
     (if (gate = None \<longrightarrow> sid \<in> set (known s)) \<and> hget (locks s) sid = None
      then (case close_begin gate ch sid (sp s) of
              (CloseWait sink w True, p) \<Rightarrow>
                Some (s\<lparr>sp := p, locks := hput sid (HoldClose sink w) (locks s)\<rparr>)
            | (_, p) \<Rightarrow> Some (s\<lparr>sp := p\<rparr>))
      else None)"

definition send_close_step :: "session_id \<Rightarrow> send_outcome \<Rightarrow> sys \<Rightarrow> sys option" where
  "send_close_step sid r s =
     (case hget (locks s) sid of
       Some (HoldClose sink w) \<Rightarrow>
         Some (s\<lparr>locks := hdel sid (locks s),
                 wire := (if r = Sent then wire s @ [(sid, WireClose)] else wire s)\<rparr>)
     | _ \<Rightarrow> None)"

definition closed_step ::
    "worker_id \<Rightarrow> session_id \<Rightarrow> string option \<Rightarrow> bool \<Rightarrow> time \<Rightarrow> sys \<Rightarrow> sys" where
  "closed_step w sid error reusable now s =
     (case close_take now w sid error reusable (sp s) of
        None \<Rightarrow> s
      | Some (out, p) \<Rightarrow> s\<lparr>sp := p, finishing := finishing s
          @ map (\<lambda>rid. (rid, ByClose (co_cause out))) (co_pending out)\<rparr>)"

definition result_step :: "result_frame \<Rightarrow> time \<Rightarrow> sys \<Rightarrow> sys" where
  "result_step r now s =
     (let p = complete_take now (res_request_id r) (sp s)
      in s\<lparr>sp := p, finishing := (if hhas (handles p) (res_request_id r)
             then finishing s @ [(res_request_id r, ByResult r)] else finishing s)\<rparr>)"

definition drop_step :: "worker_id \<Rightarrow> bool \<Rightarrow> sys \<Rightarrow> sys" where
  "drop_step w oom s =
     (let (pending, p) = drop_inflight w (sp s); (status, cause) = drop_verdict oom
      in s\<lparr>sp := p, finishing := finishing s @ map (\<lambda>(rid, _). (rid, ByDrop status cause)) pending\<rparr>)"

definition finish_step :: "exec_id \<Rightarrow> time \<Rightarrow> sys \<Rightarrow> sys option" where
  "finish_step rid now s =
     (case take_first (\<lambda>(x, _). x = rid) (finishing s) of
       None \<Rightarrow> None
     | Some ((_, how), rest) \<Rightarrow>
         Some (s\<lparr>sp := fst (finish_row (outcome_row how now) rid (sp s)), finishing := rest\<rparr>))"

text \<open>The session-less API: what holds a worker, and its sections.\<close>

definition holders :: "sys \<Rightarrow> worker_entry list" where
  "holders s = popped s @ pins s @ lone (sp s)"

definition take_step :: "sys \<Rightarrow> sys" where
  "take_step s = (case pop_idle (sp s) of None \<Rightarrow> s | Some (wk, p) \<Rightarrow> s\<lparr>sp := p, popped := wk # popped s\<rparr>)"

definition back_step :: "worker_entry \<Rightarrow> sys \<Rightarrow> sys option" where
  "back_step wk s =
     (if wk \<in> set (popped s)
      then Some (s\<lparr>sp := put_back wk (sp s), popped := remove1 wk (popped s)\<rparr>) else None)"

definition exec_step :: "worker_entry \<Rightarrow> exec_id \<Rightarrow> time \<Rightarrow> time \<Rightarrow> sys \<Rightarrow> sys option" where
  "exec_step wk rid t0 now s =
     (if wk \<in> set (popped s) \<and> rid \<notin> set (issued s) \<and> valid_capture_id (eid_str rid)
      then Some (s\<lparr>sp := dispatch_register wk rid t0 now (sp s), popped := remove1 wk (popped s),
                   issued := rid # issued s, unsent := rid # unsent s\<rparr>) else None)"

definition exec_sent_step :: "exec_id \<Rightarrow> send_outcome \<Rightarrow> sys \<Rightarrow> sys option" where
  "exec_sent_step rid r s =
     (if rid \<in> set (unsent s)
      then Some (s\<lparr>sp := (if r = Sent then sp s
                     else dispatch_forget rid (sp s)),
                   unsent := removeAll rid (unsent s)\<rparr>)
      else None)"

definition pin_step :: "chan \<Rightarrow> sys \<Rightarrow> sys" where
  "pin_step ch s = (case acquire_pinned ch (sp s) of (None, _) \<Rightarrow> s
     | (Some wk, p) \<Rightarrow> s\<lparr>sp := p, pins := wk # pins s\<rparr>)"

definition unpin_step :: "worker_entry \<Rightarrow> sys \<Rightarrow> sys option" where
  "unpin_step wk s =
     (if wk \<in> set (pins s)
      then Some (s\<lparr>sp := release_pinned wk (sp s), pins := remove1 wk (pins s)\<rparr>) else None)"

fun apply_event :: "event \<Rightarrow> sys \<Rightarrow> sys option" where
  "apply_event (RegisterEv w profile location c now) s =
     (if c \<in> we_sink ` set (holders s) then None
      else case register_worker now w profile location c (sp s) of
       Inl _ \<Rightarrow> Some s | Inr p \<Rightarrow> Some (s\<lparr>sp := p\<rparr>))"
| "apply_event (TouchWorkerEv w now) s = Some (set_pool (touch_worker now w) s)"
| "apply_event (CreateBegin profile op ready now) s =
     (if open_session_id op \<in> set (opened_ids s) then None
      else (case create_reserve now profile op ready (sp s) of
          (Inl _, p) \<Rightarrow> Some (s\<lparr>opened_ids := open_session_id op # opened_ids s\<rparr>)
        | (Inr _, p) \<Rightarrow> Some (s\<lparr>sp := p, opened_ids := open_session_id op # opened_ids s,
                                creating := open_session_id op # creating s\<rparr>)))"
| "apply_event (CreateDone sid now) s =
     (if sid \<in> set (creating s)
      then (case created_session_snapshot now sid (sp s) of
          (Inl _, p) \<Rightarrow> Some (s\<lparr>sp := p, creating := removeAll sid (creating s)\<rparr>)
        | (Inr _, p) \<Rightarrow> Some (s\<lparr>sp := p, creating := removeAll sid (creating s),
                                known := sid # known s\<rparr>))
      else None)"
| "apply_event (CreateFail sid) s =
     (if sid \<in> set (creating s) then Some (s\<lparr>creating := removeAll sid (creating s)\<rparr>) else None)"
| "apply_event (ReadyEv w sid error now) s =
     Some (set_pool (\<lambda>p. fst (session_ready now w sid error p)) s)"
| "apply_event (ClosedEv w sid error reusable now) s = Some (closed_step w sid error reusable now s)"
| "apply_event (SubmitCheck sid rid cmd mode) s = submit_step sid rid cmd mode s"
| "apply_event (SubmitRegister sid t0 now) s = register_step sid t0 now s"
| "apply_event (SubmitSend sid r) s = send_run_step sid r s"
| "apply_event (CloseBegin gate sid ch) s = close_step gate sid ch s"
| "apply_event (CloseSend sid r) s = send_close_step sid r s"
| "apply_event (AttachEv sid ch now) s =
     (if sid \<in> set (known s) then Some (set_pool (\<lambda>p. snd (attach_terminal now ch sid p)) s) else None)"
| "apply_event (DetachEv sid ch now) s = Some (set_pool (detach_terminal_if now sid ch) s)"
| "apply_event (CancelEv rid) s = Some (set_pool (\<lambda>p. snd (cancel_request rid p)) s)"
| "apply_event (PollEv rid now) s = Some (set_pool (poll_row now rid) s)"
| "apply_event (SnapshotEv sid now) s = Some (set_pool (touch_session now sid) s)"
| "apply_event (ListEv sid now) s = Some (set_pool (\<lambda>p. snd (list_session_commands now sid p)) s)"
| "apply_event (ResultEv w r now) s = Some (result_step r now s)"
| "apply_event (SpoolFailEv rid) s = Some (set_pool (mark_spool_failed rid) s)"
| "apply_event (DropRequests w oom) s = Some (drop_step w oom s)"
| "apply_event (DropWorker w now) s = Some (set_pool (\<lambda>p. snd (drop_worker now w p)) s)"
| "apply_event (FinishEv rid now) s = finish_step rid now s"
| "apply_event (PurgeEv rid) s =
     (case hget (handles (sp s)) rid of
       Some row \<Rightarrow> if hr_status row = Running then None
                   else Some (set_pool (\<lambda>p. fst (purge_handle rid p)) s)
     | None \<Rightarrow> Some s)"
| "apply_event (SweepSessions now ttl) s = Some (set_pool (retain_sessions now ttl) s)"
| "apply_event ExecTake s = Some (take_step s)"
| "apply_event (ExecBack wk) s = back_step wk s"
| "apply_event (ExecRegister wk rid t0 now) s = exec_step wk rid t0 now s"
| "apply_event (ExecSend rid r) s = exec_sent_step rid r s"
| "apply_event (PinEv ch) s = Some (pin_step ch s)"
| "apply_event (UnpinEv wk) s = unpin_step wk s"

definition sys_step :: "sys \<Rightarrow> event \<Rightarrow> sys \<Rightarrow> bool" where
  "sys_step s e t \<longleftrightarrow> apply_event e s = Some t"


section \<open>What a section other than a reservation or a registration may change\<close>

definition outcome_of :: "handle_row \<Rightarrow> handle_status \<times> time option \<times> i32 option \<times> i32 option \<times>
    exit_cause option \<times> bool" where
  "outcome_of row = (hr_status row, hr_finished row, hr_exit_code row, hr_exit_signal row,
     hr_cause row, hr_cancelled row)"

definition ending :: "session_state \<Rightarrow> bool" where
  "ending st \<longleftrightarrow> st \<notin> {Opening, Active}"

definition session_quiet :: "session_record \<Rightarrow> session_record \<Rightarrow> bool" where
  "session_quiet r r' \<longleftrightarrow> sr_worker r' = sr_worker r \<and> sr_sink r' = sr_sink r
     \<and> (ending (sr_state r) \<longrightarrow> ending (sr_state r'))
     \<and> (live_state (sr_state r') \<longrightarrow> live_state (sr_state r))"

definition row_quiet :: "handle_row \<Rightarrow> handle_row \<Rightarrow> bool" where
  "row_quiet row row' \<longleftrightarrow> hr_session row' = hr_session row \<and>
     (hr_status row \<noteq> Running \<longrightarrow> outcome_of row' = outcome_of row)"

definition quiet :: "pool \<Rightarrow> pool \<Rightarrow> bool" where
  "quiet p q \<longleftrightarrow>
     (\<forall>sid r'. hget (sessions q) sid = Some r' \<longrightarrow>
        (\<exists>r. hget (sessions p) sid = Some r \<and> session_quiet r r')) \<and>
     (\<forall>w sid. hget (worker_sessions q) w = Some sid \<longrightarrow> hget (worker_sessions p) w = Some sid) \<and>
     (\<forall>rid e. hget (inflight q) rid = Some e \<longrightarrow> hget (inflight p) rid = Some e) \<and>
     (\<forall>rid row'. hget (handles q) rid = Some row' \<longrightarrow>
        (\<exists>row. hget (handles p) rid = Some row \<and> row_quiet row row'))"

lemma session_quiet_refl [simp]: "session_quiet r r"
  by (simp add: session_quiet_def)

lemma row_quiet_refl [simp]: "row_quiet row row"
  by (simp add: row_quiet_def)

lemma quiet_refl [simp]: "quiet p p"
  by (simp add: quiet_def)

lemma quiet_trans:
  assumes "quiet p q" "quiet q u"
  shows "quiet p u"
proof -
  have s: "session_quiet a c" if "session_quiet a b" "session_quiet b c" for a b c
    using that by (simp add: session_quiet_def)
  have r: "row_quiet a c" if "row_quiet a b" "row_quiet b c" for a b c
    using that by (auto simp: row_quiet_def outcome_of_def)
  show ?thesis
    using assms unfolding quiet_def by (meson s r)
qed

text \<open>One lemma per map that a section may touch.\<close>

lemma quiet_set_session:
  "hget (sessions p) sid = Some r \<Longrightarrow> session_quiet r r' \<Longrightarrow>
     quiet p (p\<lparr>sessions := hput sid r' (sessions p)\<rparr>)"
  by (auto simp: quiet_def)

lemma quiet_hmod_session:
  "(\<And>r. session_quiet r (f r)) \<Longrightarrow> quiet p (p\<lparr>sessions := hmod sid f (sessions p)\<rparr>)"
  by (auto simp: quiet_def)

lemma quiet_set_row:
  "hget (handles p) rid = Some row \<Longrightarrow> row_quiet row row' \<Longrightarrow>
     quiet p (p\<lparr>handles := hput rid row' (handles p)\<rparr>)"
  by (auto simp: quiet_def)

lemma quiet_hmod_row:
  "(\<And>row. row_quiet row (f row)) \<Longrightarrow> quiet p (p\<lparr>handles := hmod rid f (handles p)\<rparr>)"
  by (auto simp: quiet_def)

lemma quiet_inflight:
  "(\<And>rid e. hget m rid = Some e \<Longrightarrow> hget (inflight p) rid = Some e) \<Longrightarrow> quiet p (p\<lparr>inflight := m\<rparr>)"
  by (simp add: quiet_def)

lemma quiet_others:
  "quiet p (p\<lparr>idle := xs\<rparr>)" "quiet p (p\<lparr>liveness := l\<rparr>)" "quiet p (p\<lparr>pty_sessions := t\<rparr>)"
  "quiet p (p\<lparr>worker_sessions := hdel w (worker_sessions p)\<rparr>)"
  by (simp_all add: quiet_def)

lemma quiet_register: "register_worker now w profile loc c p = Inr q \<Longrightarrow> quiet p q"
  by (auto simp: register_worker_def quiet_def split: if_splits)

lemma quiet_touch_worker: "quiet p (touch_worker now w p)"
  by (simp add: touch_worker_def quiet_others)

lemma quiet_touch_session: "quiet p (touch_session now sid p)"
  unfolding touch_session_def by (rule quiet_hmod_session) (simp add: session_quiet_def)

lemma quiet_session_ready: "quiet p (fst (session_ready now w sid error p))"
  by (auto simp: session_ready_def session_quiet_def ready_record_def clear_inputs_def ending_def live_state_def Let_def
      split: option.splits intro!: quiet_set_session)

lemma quiet_close_begin: "quiet p (snd (close_begin gate ch sid p))"
  by (auto simp: close_begin_def session_quiet_def ending_def live_state_iff split: option.splits
      intro!: quiet_set_session)

lemma quiet_attach: "quiet p (snd (attach_terminal now ch sid p))"
  by (auto simp: attach_terminal_def session_quiet_def split: option.splits intro!: quiet_set_session)

lemma quiet_detach: "quiet p (detach_terminal_if now sid ch p)"
  unfolding detach_terminal_if_def by (rule quiet_hmod_session) (simp add: session_quiet_def)

lemma quiet_cancel_request: "quiet p (snd (cancel_request rid p))"
  by (auto simp: cancel_request_def row_quiet_def split: option.splits intro!: quiet_set_row)

lemma quiet_poll: "quiet p (poll_row now rid p)"
  unfolding poll_row_def by (rule quiet_hmod_row) (simp add: row_quiet_def outcome_of_def)

lemma quiet_spool: "quiet p (mark_spool_failed rid p)"
  unfolding mark_spool_failed_def by (rule quiet_hmod_row) (simp add: row_quiet_def outcome_of_def)

lemma quiet_retain: "hwf (sessions p) \<Longrightarrow> quiet p (retain_sessions now ttl p)"
  by (auto simp: quiet_def retain_sessions_def split: option.splits if_splits)

lemma quiet_purge: "quiet p (fst (purge_handle rid p))"
  by (simp add: quiet_def purge_handle_def)

lemma quiet_drop_inflight: "hwf (inflight p) \<Longrightarrow> quiet p (snd (drop_inflight w p))"
  unfolding drop_inflight_def snd_conv
  by (rule quiet_inflight) (simp split: option.splits if_splits)

lemma outcome_row_session [simp]: "hr_session (outcome_row how now row) = hr_session row"
  by (cases how) (auto simp: result_row_def closed_row_def dropped_row_def Let_def split: prod.splits)

lemma quiet_finish_row: "quiet p (fst (finish_row (outcome_row how now) rid p))"
  by (auto simp: finish_row_def row_quiet_def split: option.splits intro!: quiet_set_row)

lemma quiet_complete_take: "quiet p (complete_take now rid p)"
proof (cases "hget (inflight p) rid")
  case (Some e)
  let ?p = "p\<lparr>inflight := hdel rid (inflight p)\<rparr>"
  have q: "quiet p ?p" by (rule quiet_inflight) (simp split: if_splits)
  show ?thesis
  proof (cases "pe_session e")
    case None
    with Some quiet_trans [OF q quiet_others(1)] show ?thesis by (simp add: complete_take_def)
  next
    case (Some sid)
    let ?f = "\<lambda>r. let r1 = r\<lparr>sr_activity := now\<rparr>
      in if pe_mode e = Stateful then r1\<lparr>sr_stateful := sr_stateful r1 - 1\<rparr> else r1"
    have "quiet ?p (?p\<lparr>sessions := hmod sid ?f (sessions ?p)\<rparr>)"
      by (rule quiet_hmod_session) (simp add: session_quiet_def Let_def)
    with q have "quiet p (?p\<lparr>sessions := hmod sid ?f (sessions ?p)\<rparr>)" by (rule quiet_trans)
    with \<open>hget (inflight p) rid = Some e\<close> Some show ?thesis by (simp add: complete_take_def Let_def)
  qed
qed (simp add: complete_take_def)

lemma quiet_close_take:
  "hwf (inflight p) \<Longrightarrow> close_take now w sid error reusable p = Some (out, q) \<Longrightarrow> quiet p q"
  by (erule close_take_cases)
    (auto simp: quiet_def session_quiet_def ending_def live_state_def split: option.splits if_splits)

lemma quiet_drop_worker: "quiet p (snd (drop_worker now w p))"
  by (auto simp: quiet_def drop_worker_def Let_def session_quiet_def ending_def live_state_def split: option.splits if_splits)

lemma quiet_list: "quiet p (snd (list_session_commands now sid p))"
proof -
  have get: "hget (map (\<lambda>(rid, row). (rid, f row)) m) x = map_option f (hget m x)"
    for f :: "handle_row \<Rightarrow> handle_row" and m and x :: exec_id
    by (simp add: hget_def map_of_map)
  show ?thesis
    by (auto simp: quiet_def list_session_commands_def Let_def get session_quiet_def row_quiet_def
        outcome_of_def split: option.splits if_splits)
qed

end
