(* ===== verification/PoolReach.thy ===== *)
theory PoolReach
  imports PoolSystem
begin

text \<open>
  What holds in every reachable state of the pool, whatever clients, workers and connections do: the core of the
  pool's invariant, the ids that were issued, what the holders of session locks remember, the outcomes on their way,
  and the frames sent under the locks; and the facts that no step undoes.
\<close>

section \<open>The invariant of the system\<close>

text \<open>Every id that anything mentions was issued.\<close>

definition ids_ok :: "sys \<Rightarrow> bool" where
  "ids_ok s \<longleftrightarrow>
     (\<forall>sid. hhas (sessions (sp s)) sid \<longrightarrow> sid \<in> set (opened_ids s)) \<and>
     (\<forall>w sid. hget (worker_sessions (sp s)) w = Some sid \<longrightarrow> sid \<in> set (opened_ids s)) \<and>
     (\<forall>rid e sid. hget (inflight (sp s)) rid = Some e \<and> pe_session e = Some sid \<longrightarrow>
        sid \<in> set (opened_ids s)) \<and>
     (\<forall>rid. hhas (handles (sp s)) rid \<longrightarrow> rid \<in> set (issued s)) \<and>
     set (known s) \<subseteq> set (opened_ids s) \<and> set (creating s) \<subseteq> set (opened_ids s) \<and>
     (\<forall>sid. hhas (locks s) sid \<longrightarrow> sid \<in> set (opened_ids s)) \<and>
     fst ` set (wire s) \<subseteq> set (opened_ids s)"

fun holder_ok :: "session_id \<Rightarrow> holder \<Rightarrow> pool \<Rightarrow> bool" where
  "holder_ok sid (HoldSubmit cap _ _ _) p = captured_ok sid cap p"
| "holder_ok sid (HoldRun cap _ _ _) p = captured_ok sid cap p"
| "holder_ok sid (HoldClose _ _) p = (\<forall>r. hget (sessions p) sid = Some r \<longrightarrow> ending (sr_state r))"

definition locks_ok :: "sys \<Rightarrow> bool" where
  "locks_ok s \<longleftrightarrow> (\<forall>sid h. hget (locks s) sid = Some h \<longrightarrow> holder_ok sid h (sp s))"

text \<open>A handle that waits to be finished is not inflight; a running one is inflight or waits.\<close>

fun outcome_ok :: "outcome \<Rightarrow> bool" where
  "outcome_ok (ByDrop status _) \<longleftrightarrow> status \<noteq> Running"
| "outcome_ok _ \<longleftrightarrow> True"

definition finishing_ok :: "sys \<Rightarrow> bool" where
  "finishing_ok s \<longleftrightarrow>
     (\<forall>(rid, how) \<in> set (finishing s). \<not> hhas (inflight (sp s)) rid \<and> rid \<in> set (issued s)
        \<and> outcome_ok how) \<and>
     (\<forall>rid row. hget (handles (sp s)) rid = Some row \<and> hr_status row = Running \<longrightarrow>
        hhas (inflight (sp s)) rid \<or> rid \<in> fst ` set (finishing s))"

text \<open>The frames sent under the locks: nothing follows a session's close.\<close>

fun closes_last :: "(session_id \<times> lock_frame) list \<Rightarrow> bool" where
  "closes_last [] = True"
| "closes_last ((sid, f) # fs) = ((f = WireClose \<longrightarrow> sid \<notin> fst ` set fs) \<and> closes_last fs)"

definition wire_ok :: "sys \<Rightarrow> bool" where
  "wire_ok s \<longleftrightarrow> closes_last (wire s) \<and>
     (\<forall>sid. (sid, WireClose) \<in> set (wire s) \<longrightarrow>
        (\<forall>r. hget (sessions (sp s)) sid = Some r \<longrightarrow> ending (sr_state r)) \<and>
        (case hget (locks s) sid of Some (HoldRun _ _ _ _) \<Rightarrow> False | Some (HoldClose _ _) \<Rightarrow> False
         | _ \<Rightarrow> True))"

text \<open>A command whose frame is not sent yet has no session.\<close>

definition unsent_ok :: "sys \<Rightarrow> bool" where
  "unsent_ok s \<longleftrightarrow> set (unsent s) \<subseteq> set (issued s) \<and>
     (\<forall>rid \<in> set (unsent s). \<forall>row. hget (handles (sp s)) rid = Some row \<longrightarrow> hr_session row = None)"

definition sys_core :: "sys \<Rightarrow> bool" where
  "sys_core s \<longleftrightarrow> pool_core (sp s) \<and> ids_ok s \<and> locks_ok s \<and> finishing_ok s \<and> wire_ok s \<and> unsent_ok s"

lemma sys_coreD:
  assumes "sys_core s"
  shows "pool_core (sp s)" "ids_ok s" "locks_ok s" "finishing_ok s" "wire_ok s"
    "unsent_ok s"
  using assms by (simp_all add: sys_core_def)

lemma holders_updates [simp]:
  "holders (s\<lparr>creating := a\<rparr>) = holders s" "holders (s\<lparr>known := a\<rparr>) = holders s" "holders (s\<lparr>locks := b\<rparr>) = holders s"
  "holders (s\<lparr>finishing := c\<rparr>) = holders s" "holders (s\<lparr>opened_ids := a\<rparr>) = holders s"
  "holders (s\<lparr>issued := d\<rparr>) = holders s" "holders (s\<lparr>wire := f\<rparr>) = holders s" "holders (s\<lparr>unsent := d\<rparr>) = holders s"
  by (simp_all add: holders_def)

lemma ids_okD:
  assumes "ids_ok s"
  shows "hget (sessions (sp s)) sid = Some r \<Longrightarrow> sid \<in> set (opened_ids s)"
    and "hget (worker_sessions (sp s)) w = Some sid \<Longrightarrow> sid \<in> set (opened_ids s)"
    and "hget (inflight (sp s)) rid = Some e \<Longrightarrow> pe_session e = Some sid \<Longrightarrow>
      sid \<in> set (opened_ids s)"
    and "hget (handles (sp s)) rid = Some row \<Longrightarrow> rid \<in> set (issued s)"
    and "hget (locks s) sid = Some h \<Longrightarrow> sid \<in> set (opened_ids s)"
    and "(sid, f) \<in> set (wire s) \<Longrightarrow> sid \<in> set (opened_ids s)"
  using assms by (auto simp: ids_ok_def hhas_def)

lemma inflight_issued:
  assumes inv: "sys_core s" and e: "hget (inflight (sp s)) rid = Some e"
  shows "rid \<in> set (issued s)"
proof -
  obtain row where "hget (handles (sp s)) rid = Some row"
    by (rule requests_okD [OF pool_coreD(2) [OF sys_coreD(1) [OF inv]] e])
  then show ?thesis by (rule ids_okD(4) [OF sys_coreD(2) [OF inv]])
qed

lemma closes_last_append:
  "closes_last (xs @ [(sid, f)]) \<longleftrightarrow> closes_last xs \<and> (sid, WireClose) \<notin> set xs"
  by (induction xs rule: closes_last.induct) auto

lemma init_sys_core: "init_sys s \<Longrightarrow> sys_core s"
  using core_new
  by (simp add: init_sys_def sys_core_def ids_ok_def locks_ok_def finishing_ok_def wire_ok_def new_pool_def unsent_ok_def)

lemma quietD:
  assumes "quiet p q"
  shows "hget (sessions q) sid = Some r' \<Longrightarrow> \<exists>r. hget (sessions p) sid = Some r \<and> session_quiet r r'"
    and "hget (worker_sessions q) w = Some x \<Longrightarrow> hget (worker_sessions p) w = Some x"
    and "hget (inflight q) rid = Some e \<Longrightarrow> hget (inflight p) rid = Some e"
    and "hget (handles q) rid = Some row' \<Longrightarrow> \<exists>row. hget (handles p) rid = Some row \<and> row_quiet row row'"
  using assms by (auto simp: quiet_def)

lemma ids_ok_quiet:
  assumes ok: "ids_ok s" and q: "quiet (sp s) p"
  shows "ids_ok (s\<lparr>sp := p, finishing := f\<rparr>)"
proof -
  note d = quietD [OF q]
  show ?thesis
    using ok unfolding ids_ok_def hhas_def by (auto dest!: d)
qed

lemma unsent_ok_quiet:
  assumes ok: "unsent_ok s" and q: "quiet (sp s) p"
  shows "unsent_ok (s\<lparr>sp := p, finishing := f\<rparr>)"
  using ok quietD(4) [OF q] by (fastforce simp: unsent_ok_def row_quiet_def)

lemma locks_ok_quiet:
  assumes ok: "locks_ok s" and q: "quiet (sp s) p"
  shows "locks_ok (s\<lparr>sp := p, finishing := f\<rparr>)"
proof -
  have "holder_ok sid h p" if "holder_ok sid h (sp s)" for sid h
    using that by (cases h) (auto simp: captured_ok_def session_quiet_def dest!: quietD(1) [OF q])
  with ok show ?thesis by (simp add: locks_ok_def)
qed

lemma wire_ok_quiet:
  assumes ok: "wire_ok s" and q: "quiet (sp s) p"
  shows "wire_ok (s\<lparr>sp := p, finishing := f\<rparr>)"
  using ok unfolding wire_ok_def by (auto simp: session_quiet_def dest!: quietD(1) [OF q])

lemma finishing_ok_quiet:
  assumes ok: "finishing_ok s" and q: "quiet (sp s) p"
    and fin: "\<And>rid how. (rid, how) \<in> set f \<Longrightarrow>
      \<not> hhas (inflight p) rid \<and> rid \<in> set (issued s) \<and> outcome_ok how"
    and out: "\<And>rid row. hget (handles p) rid = Some row \<Longrightarrow> hr_status row = Running \<Longrightarrow>
      hhas (inflight (sp s)) rid \<or> rid \<in> fst ` set (finishing s) \<Longrightarrow>
      hhas (inflight p) rid \<or> rid \<in> fst ` set f"
  shows "finishing_ok (s\<lparr>sp := p, finishing := f\<rparr>)"
proof -
  have "hhas (inflight p) rid \<or> rid \<in> fst ` set f"
    if row: "hget (handles p) rid = Some row" "hr_status row = Running" for rid row
  proof -
    from quietD(4) [OF q row(1)] obtain old where "hget (handles (sp s)) rid = Some old"
      "row_quiet old row" by blast
    with row(2) have "hhas (inflight (sp s)) rid \<or> rid \<in> fst ` set (finishing s)"
      using ok by (auto simp: finishing_ok_def row_quiet_def outcome_of_def)
    with row show ?thesis by (rule out)
  qed
  with fin show ?thesis by (auto simp: finishing_ok_def)
qed

lemma core_quiet:
  assumes inv: "sys_core s" and q: "quiet (sp s) p" and p: "pool_core p"
    and fin: "\<And>rid how. (rid, how) \<in> set f \<Longrightarrow>
      \<not> hhas (inflight p) rid \<and> rid \<in> set (issued s) \<and> outcome_ok how"
    and out: "\<And>rid row. hget (handles p) rid = Some row \<Longrightarrow> hr_status row = Running \<Longrightarrow>
      hhas (inflight (sp s)) rid \<or> rid \<in> fst ` set (finishing s) \<Longrightarrow>
      hhas (inflight p) rid \<or> rid \<in> fst ` set f"
  shows "sys_core (s\<lparr>sp := p, finishing := f\<rparr>)"
  using sys_coreD [OF inv] p q
  by (simp add: sys_core_def ids_ok_quiet locks_ok_quiet wire_ok_quiet unsent_ok_quiet
      finishing_ok_quiet [OF _ q fin out])

text \<open>The common case: the inflight map is the same.\<close>

lemma finishing_okD:
  assumes "finishing_ok s" "(rid, how) \<in> set (finishing s)"
  shows "\<not> hhas (inflight (sp s)) rid" "rid \<in> set (issued s)" "outcome_ok how"
  using assms by (auto simp: finishing_ok_def)

lemma core_same:
  assumes inv: "sys_core s" and q: "quiet (sp s) p" and p: "pool_core p"
    and same: "inflight p = inflight (sp s)"
  shows "sys_core (s\<lparr>sp := p\<rparr>)"
proof -
  have "sys_core (s\<lparr>sp := p, finishing := finishing s\<rparr>)"
    by (intro core_quiet [OF inv q p])
      (use finishing_okD [OF sys_coreD(4) [OF inv]] in \<open>auto simp: same\<close>)
  then show ?thesis by simp
qed


section \<open>Every event keeps the invariant\<close>

lemma locks_only_inv:
  assumes inv: "sys_core s"
    and ids: "\<And>sid. hhas m sid \<Longrightarrow> sid \<in> set (opened_ids s)"
    and ok: "\<And>sid h. hget m sid = Some h \<Longrightarrow> holder_ok sid h (sp s)"
    and w: "wire_ok (s\<lparr>locks := m, wire := ws\<rparr>)" and ws: "fst ` set ws \<subseteq> set (opened_ids s)"
  shows "sys_core (s\<lparr>locks := m, wire := ws\<rparr>)"
  using sys_coreD [OF inv] ids ok w ws
  by (simp add: sys_core_def ids_ok_def locks_ok_def finishing_ok_def unsent_ok_def)

lemma wire_ok_unlock:
  assumes "wire_ok s" shows "wire_ok (s\<lparr>locks := hdel sid (locks s)\<rparr>)"
  using assms by (auto simp: wire_ok_def split: option.splits)

lemma unlock_inv:
  assumes inv: "sys_core s" shows "sys_core (s\<lparr>locks := hdel sid (locks s)\<rparr>)"
  using sys_coreD [OF inv] wire_ok_unlock [of s sid]
  by (simp add: sys_core_def ids_ok_def locks_ok_def finishing_ok_def unsent_ok_def)

lemma send_inv:
  assumes inv: "sys_core s" and h: "hget (locks s) sid = Some h"
    and cl: "(sid, WireClose) \<notin> set (wire s)"
    and e: "f = WireClose \<Longrightarrow> (\<forall>r. hget (sessions (sp s)) sid = Some r \<longrightarrow> ending (sr_state r))"
  shows "sys_core (s\<lparr>locks := hdel sid (locks s), wire := wire s @ [(sid, f)]\<rparr>)"
proof -
  let ?s = "s\<lparr>locks := hdel sid (locks s)\<rparr>"
  note i = sys_coreD [OF unlock_inv [OF inv, of sid]]
  have "wire_ok (?s\<lparr>wire := wire s @ [(sid, f)]\<rparr>)"
    using i(5) cl e by (auto simp: wire_ok_def closes_last_append)
  moreover have "sid \<in> set (opened_ids s)"
    using sys_coreD(2) [OF inv] h by (auto simp: ids_ok_def hhas_def)
  ultimately show ?thesis using i by (simp add: sys_core_def ids_ok_def locks_ok_def finishing_ok_def unsent_ok_def)
qed

lemma wire_okD:
  assumes "wire_ok s" "(sid, WireClose) \<in> set (wire s)"
  shows "hget (sessions (sp s)) sid = Some r \<Longrightarrow> ending (sr_state r)"
    "hget (locks s) sid \<noteq> Some (HoldRun cap rid cmd mode)"
    "hget (locks s) sid \<noteq> Some (HoldClose sink w)"
  using assms by (auto simp: wire_ok_def split: option.splits)

lemma send_run_inv:
  assumes inv: "sys_core s" and st: "send_run_step sid r s = Some t"
  shows "sys_core t"
proof -
  obtain cap rid cmd mode where h: "hget (locks s) sid = Some (HoldRun cap rid cmd mode)"
    using st by (auto simp: send_run_step_def split: option.splits holder.splits)
  have "(sid, WireClose) \<notin> set (wire s)" using wire_okD(2) [OF sys_coreD(5) [OF inv]] h by blast
  from send_inv [OF inv h this, of "WireRun rid"] unlock_inv [OF inv, of sid] st h
  show ?thesis by (auto simp: send_run_step_def)
qed

lemma send_close_inv:
  assumes inv: "sys_core s" and st: "send_close_step sid r s = Some t"
  shows "sys_core t"
proof -
  obtain sink w where h: "hget (locks s) sid = Some (HoldClose sink w)"
    using st by (auto simp: send_close_step_def split: option.splits holder.splits)
  have "holder_ok sid (HoldClose sink w) (sp s)"
    using sys_coreD(3) [OF inv] h unfolding locks_ok_def by blast
  moreover have "(sid, WireClose) \<notin> set (wire s)"
    using wire_okD(3) [OF sys_coreD(5) [OF inv]] h by blast
  ultimately show ?thesis
    using send_inv [OF inv h, of WireClose] unlock_inv [OF inv, of sid] st h
    by (auto simp: send_close_step_def)
qed

lemma submit_check_inv:
  assumes inv: "sys_core s" and st: "submit_step sid rid cmd mode s = Some t"
  shows "sys_core t"
proof (cases "submit_check mode sid (sp s)")
  case (Inl e)
  with st inv show ?thesis by (auto simp: submit_step_def split: if_splits)
next
  case (Inr cap)
  with st have k: "sid \<in> set (known s)" and free: "hget (locks s) sid = None"
    and t: "t = s\<lparr>locks := hput sid (HoldSubmit cap rid cmd mode) (locks s)\<rparr>"
    by (auto simp: submit_step_def split: if_splits)
  note i = sys_coreD [OF inv]
  have "sys_core (s\<lparr>locks := hput sid (HoldSubmit cap rid cmd mode) (locks s), wire := wire s\<rparr>)"
  proof (rule locks_only_inv [OF inv])
    show "wire_ok (s\<lparr>locks := hput sid (HoldSubmit cap rid cmd mode) (locks s), wire := wire s\<rparr>)"
      using i(5) free by (auto simp: wire_ok_def split: option.splits if_splits)
  qed (use i k submit_check_captured [OF Inr] in \<open>auto simp: ids_ok_def locks_ok_def split: if_splits\<close>)
  with t show ?thesis by simp
qed

lemma close_begin_cases:
  "close_begin gate ch sid p = (CloseWait sink w b, q) \<Longrightarrow>
     (\<forall>r. hget (sessions q) sid = Some r \<longrightarrow> sr_state r = Closing) \<and>
     (\<exists>r. hget (sessions p) sid = Some r \<and> b = (sr_state r \<noteq> Closing) \<and> live_state (sr_state r)) \<and>
     inflight q = inflight p"
  by (auto simp: close_begin_def live_state_def split: option.splits if_splits)
    (metis session_state.exhaust)+

lemma close_begin_inflight: "inflight (snd (close_begin gate ch sid p)) = inflight p"
  by (simp add: close_begin_def split: option.split)

lemma close_step_inv:
  assumes inv: "sys_core s" and st: "close_step gate sid ch s = Some t"
  shows "sys_core t"
proof -
  obtain c p where cb: "close_begin gate ch sid (sp s) = (c, p)" by fastforce
  have q: "quiet (sp s) p" using quiet_close_begin [of "sp s" gate ch sid] cb by simp
  have inv1: "sys_core (s\<lparr>sp := p\<rparr>)"
    using core_same [OF inv q] core_close_begin [OF sys_coreD(1) [OF inv], of gate ch sid]
      close_begin_inflight [of gate ch sid "sp s"] cb by simp
  show ?thesis
  proof (cases "\<exists>sink w. c = CloseWait sink w True")
    case False
    with st cb inv1 show ?thesis
      by (auto simp: close_step_def split: if_splits close_step.splits bool.splits)
  next
    case True
    then obtain sink w where c: "c = CloseWait sink w True" by blast
    from st cb c have free: "hget (locks s) sid = None"
      and t: "t = s\<lparr>sp := p, locks := hput sid (HoldClose sink w) (locks s)\<rparr>"
      by (auto simp: close_step_def split: if_splits)
    from close_begin_cases [OF cb [unfolded c]] obtain r where
      r: "hget (sessions (sp s)) sid = Some r" "sr_state r \<noteq> Closing" "live_state (sr_state r)"
      and after: "\<forall>r. hget (sessions p) sid = Some r \<longrightarrow> sr_state r = Closing" by auto
    have "\<not> ending (sr_state r)" using r(2,3) by (auto simp: live_state_def ending_def)
    then have no: "(sid, WireClose) \<notin> set (wire s)"
      using wire_okD(1) [OF sys_coreD(5) [OF inv] _ r(1)] by blast
    note i = sys_coreD [OF inv1]
    have "sid \<in> set (opened_ids s)" using sys_coreD(2) [OF inv] r(1) by (auto simp: ids_ok_def hhas_def)
    moreover have "wire_ok (s\<lparr>sp := p, locks := hput sid (HoldClose sink w) (locks s)\<rparr>)"
      using i(5) no by (auto simp: wire_ok_def split: option.splits if_splits)
    moreover have "holder_ok sid (HoldClose sink w) p" using after by (auto simp: ending_def)
    ultimately have "sys_core ((s\<lparr>sp := p\<rparr>)\<lparr>locks := hput sid (HoldClose sink w) (locks s),
        wire := wire (s\<lparr>sp := p\<rparr>)\<rparr>)"
      using i by (intro locks_only_inv [OF inv1]) (auto simp: ids_ok_def locks_ok_def split: if_splits)
    with t show ?thesis by simp
  qed
qed


lemma register_step_inv:
  assumes inv: "sys_core s" and st: "register_step sid t0 now s = Some t"
  shows "sys_core t"
proof -
  note i = sys_coreD [OF inv]
  obtain cap rid cmd mode where h: "hget (locks s) sid = Some (HoldSubmit cap rid cmd mode)"
    and new: "rid \<notin> set (issued s)"
    using st by (auto simp: register_step_def split: option.splits holder.splits if_splits)
  have cap: "captured_ok sid cap (sp s)"
    using i(3) h unfolding locks_ok_def by force
  have fresh: "hget (handles (sp s)) rid = None"
    using i(2) new by (auto simp: ids_ok_def hhas_def)
  obtain res p where reg: "submit_register t0 now cap sid rid mode (sp s) = (res, p)" by fastforce
  have p: "pool_core p" by (rule core_submit [OF i(1) fresh cap reg])
  show ?thesis
  proof (cases res)
    case (Some e)
    then have "p = sp s" using reg submit_register_Some by blast
    with st h new reg Some have t: "t = s\<lparr>locks := hdel sid (locks s)\<rparr>\<lparr>issued := rid # issued s\<rparr>"
      by (auto intro!: sys.equality simp: register_step_def)
    show ?thesis using sys_coreD [OF unlock_inv [OF inv, of sid]] unfolding t
      by (auto simp: sys_core_def ids_ok_def locks_ok_def finishing_ok_def wire_ok_def unsent_ok_def)
  next
    case None
    then have "submit_error mode sid (sp s) = None"
      using reg by (auto simp: submit_register_def split: option.splits)
    then obtain r where r: "hget (sessions (sp s)) sid = Some r" "sr_state r = Active"
      by (rule submit_error_None)
    let ?r = "r\<lparr>sr_stateful := (if mode = Stateful then sr_stateful r + 1 else sr_stateful r),
      sr_activity := now\<rparr>"
    have no: "(sid, WireClose) \<notin> set (wire s)"
      using wire_okD(1) [OF i(5) _ r(1)] r(2) by (auto simp: ending_def)
    have op: "sid \<in> set (opened_ids s)" using i(2) r(1) by (auto simp: ids_ok_def hhas_def)
    let ?e = "\<lparr>pe_sink = cp_sink cap, pe_worker = cp_worker cap, pe_profile = cp_profile cap,
      pe_session = Some sid, pe_mode = mode, pe_started = now\<rparr>"
    have pd: "p = sp s\<lparr>inflight := hput rid ?e (inflight (sp s)),
        handles := hput rid (fresh_row rid (Some sid) (cp_worker cap) t0) (handles (sp s)),
        sessions := hput sid ?r (sessions (sp s))\<rparr>"
      using reg None r(1) by (auto simp: submit_register_def hmod_as_hput split: option.splits)
    have t: "t = s\<lparr>sp := p, issued := rid # issued s,
        locks := hput sid (HoldRun cap rid cmd mode) (locks s)\<rparr>"
      using st h new reg None by (simp add: register_step_def)
    have "ids_ok t" using i(2) op r(1) unfolding t pd by (auto simp: ids_ok_def hhas_def)
    moreover have "locks_ok t" unfolding locks_ok_def
    proof (intro allI impI)
      fix x k assume x: "hget (locks t) x = Some k"
      show "holder_ok x k (sp t)"
      proof (cases "x = sid")
        case True
        with x have "k = HoldRun cap rid cmd mode" by (simp add: t)
        with True cap r(1) show ?thesis by (simp add: t pd captured_ok_def)
      next
        case False
        with x have "holder_ok x k (sp s)" using i(3) by (auto simp: t locks_ok_def)
        with False show ?thesis by (cases k) (simp_all add: t pd captured_ok_def)
      qed
    qed
    moreover have "finishing_ok t"
      using i(4) new unfolding t pd by (auto simp: finishing_ok_def)
    moreover have "wire_ok t"
      using i(5) no r unfolding t pd by (auto simp: wire_ok_def split: option.splits if_splits)
    moreover have "unsent_ok t" using i(6) new by (auto simp: t pd unsent_ok_def)
    ultimately show ?thesis using p by (simp add: sys_core_def t)
  qed
qed

lemma create_step_inv:
  assumes inv: "sys_core s" and new: "open_session_id op \<notin> set (opened_ids s)"
    and cr: "create_reserve now profile op ready (sp s) = (res, p)"
  shows "sys_core (s\<lparr>sp := p, opened_ids := open_session_id op # opened_ids s,
    creating := (if \<exists>wk. res = Inr wk then open_session_id op # creating s else creating s)\<rparr>)"
    (is "sys_core ?t")
proof -
  let ?sid = "open_session_id op"
  note i = sys_coreD [OF inv]
  have "fresh_session ?sid (sp s)"
    using i(2) new pool_coreD(1) [OF i(1)]
    by (auto simp: ids_ok_def fresh_session_def maps_ok_def session_commands_Nil hhas_def in_set_hget)
  then have p: "pool_core p" by (rule core_reserve [OF i(1) _ cr])
  have none: "hget (locks s) ?sid = None" "(?sid, f) \<notin> set (wire s)" for f
    using new ids_okD(5) [OF i(2), of ?sid] ids_okD(6) [OF i(2), of ?sid]
    by (cases "hget (locks s) ?sid"; blast)+
  show ?thesis
  proof (cases res)
    case (Inl e)
    then have "p = sp s" using cr create_reserve_Inl by blast
    then show ?thesis using i Inl
      by (auto simp: sys_core_def ids_ok_def locks_ok_def finishing_ok_def wire_ok_def unsent_ok_def)
  next
    case (Inr wk)
    from create_reserve_cases [OF cr [unfolded Inr]] obtain rest where
      pd: "p = (sp s)\<lparr>idle := rest, worker_sessions := hput (we_id wk) ?sid (worker_sessions (sp s)),
        sessions := hput ?sid (opening_record now profile op ready wk) (sessions (sp s))\<rparr>"
      by metis
    have "ids_ok ?t" using i(2) Inr by (auto simp: ids_ok_def pd)
    moreover have "locks_ok ?t" unfolding locks_ok_def
    proof (intro allI impI)
      fix x h assume x: "hget (locks ?t) x = Some h"
      then have "holder_ok x h (sp s)" "x \<noteq> ?sid" using i(3) none(1) by (auto simp: locks_ok_def)
      then show "holder_ok x h (sp ?t)" by (cases h) (simp_all add: pd captured_ok_def)
    qed
    moreover have "finishing_ok ?t" using i(4) by (simp add: finishing_ok_def pd)
    moreover have "wire_ok ?t" using i(5) none(2) by (auto simp: wire_ok_def pd)
    moreover have "unsent_ok ?t" using i(6) by (simp add: unsent_ok_def pd)
    ultimately show ?thesis using p by (simp add: sys_core_def)
  qed
qed

lemma closed_step_inv:
  assumes inv: "sys_core s"
  shows "sys_core (closed_step w sid error reusable now s)"
proof (cases "close_take now w sid error reusable (sp s)")
  case None
  with inv show ?thesis by (simp add: closed_step_def)
next
  case (Some op)
  obtain out p where op: "op = (out, p)" by (cases op)
  note i = sys_coreD [OF inv]
  from Some op have t: "closed_step w sid error reusable now s = s\<lparr>sp := p, finishing := finishing s
      @ map (\<lambda>rid. (rid, ByClose (co_cause out))) (co_pending out)\<rparr>"
    by (simp add: closed_step_def)
  note ct = Some [unfolded op]
  have wf: "hwf (inflight (sp s))" using pool_coreD(1) [OF i(1)] by (simp add: maps_ok_def)
  have inf: "inflight p = hretain (\<lambda>_ e. pe_session e \<noteq> Some sid) (inflight (sp s))"
    and pend: "co_pending out = session_commands sid (sp s)"
    by (rule close_take_cases [OF ct], simp)+
  have mem: "rid \<in> set (co_pending out) \<longleftrightarrow>
      (\<exists>e. hget (inflight (sp s)) rid = Some e \<and> pe_session e = Some sid)" for rid
    using wf by (force simp: pend session_commands_def in_set_hget)
  note iss = inflight_issued [OF inv]
  show ?thesis unfolding t
  proof (rule core_quiet [OF inv quiet_close_take [OF wf ct] core_close_take [OF i(1) ct]])
    fix rid how
    assume "(rid, how) \<in> set (finishing s @ map (\<lambda>rid. (rid, ByClose (co_cause out))) (co_pending out))"
    then show "\<not> hhas (inflight p) rid \<and> rid \<in> set (issued s) \<and> outcome_ok how"
      using finishing_okD [OF i(4), of rid how] wf iss
      by (auto simp: inf mem hhas_def split: option.splits)
  next
    fix rid row
    assume "hhas (inflight (sp s)) rid \<or> rid \<in> fst ` set (finishing s)"
    then show "hhas (inflight p) rid \<or> rid \<in> fst ` set (finishing s
        @ map (\<lambda>rid. (rid, ByClose (co_cause out))) (co_pending out))"
      using wf mem [of rid] by (force simp: inf hhas_def split: option.splits)
  qed
qed


lemma complete_take_inflight:
  "inflight (complete_take now rid p) = hdel rid (inflight p)"
  by (auto simp: complete_take_def Let_def hdel_absent split: option.split)

lemma complete_take_handles [simp]: "handles (complete_take now rid p) = handles p"
  by (simp add: complete_take_def Let_def split: option.split)

lemma result_step_inv:
  assumes inv: "sys_core s"
  shows "sys_core (result_step r now s)"
proof -
  note i = sys_coreD [OF inv]
  let ?rid = "res_request_id r"
  let ?p = "complete_take now ?rid (sp s)"
  let ?f = "if hhas (handles ?p) ?rid then finishing s @ [(?rid, ByResult r)] else finishing s"
  have "sys_core (s\<lparr>sp := ?p, finishing := ?f\<rparr>)"
  proof (rule core_quiet [OF inv quiet_complete_take core_complete_take [OF i(1)]])
    fix rid how assume "(rid, how) \<in> set ?f"
    then show "\<not> hhas (inflight ?p) rid \<and> rid \<in> set (issued s) \<and> outcome_ok how"
      using finishing_okD [OF i(4), of rid how] ids_okD(4) [OF i(2)]
      by (auto simp: complete_take_inflight hhas_def split: if_splits)
  next
    fix rid row assume row: "hget (handles ?p) rid = Some row"
      and "hhas (inflight (sp s)) rid \<or> rid \<in> fst ` set (finishing s)"
    then show "hhas (inflight ?p) rid \<or> rid \<in> fst ` set ?f"
      by (auto simp: complete_take_inflight hhas_def)
  qed
  then show ?thesis by (simp add: result_step_def Let_def)
qed

lemma drop_step_inv:
  assumes inv: "sys_core s"
  shows "sys_core (drop_step w oom s)"
proof -
  note i = sys_coreD [OF inv]
  obtain st c where v: "drop_verdict oom = (st, c)" and st: "st \<noteq> Running"
    by (cases oom) (auto simp: drop_verdict_def)
  let ?p = "snd (drop_inflight w (sp s))" and ?pd = "fst (drop_inflight w (sp s))"
  let ?f = "finishing s @ map (\<lambda>(rid, _). (rid, ByDrop st c)) ?pd"
  have wf: "hwf (inflight (sp s))" using pool_coreD(1) [OF i(1)] by (simp add: maps_ok_def)
  have inf: "inflight ?p = hretain (\<lambda>_ e. pe_worker e \<noteq> w) (inflight (sp s))"
    by (simp add: drop_inflight_def)
  have mem: "(rid, e) \<in> set ?pd \<longleftrightarrow> hget (inflight (sp s)) rid = Some e \<and> pe_worker e = w" for rid e
    using wf by (auto simp: drop_inflight_def in_set_hget)
  have "sys_core (s\<lparr>sp := ?p, finishing := ?f\<rparr>)"
  proof (rule core_quiet [OF inv quiet_drop_inflight [OF wf] core_drop_inflight [OF i(1)]])
    fix rid how assume "(rid, how) \<in> set ?f"
    then consider "(rid, how) \<in> set (finishing s)" | e where "(rid, e) \<in> set ?pd" "how = ByDrop st c"
      by auto
    then show "\<not> hhas (inflight ?p) rid \<and> rid \<in> set (issued s) \<and> outcome_ok how"
    proof cases
      case 1
      from finishing_okD [OF i(4) this] show ?thesis
        using wf by (auto simp: inf hhas_def split: option.splits)
    next
      case 2
      with mem inflight_issued [OF inv] st wf show ?thesis
        by (auto simp: inf hhas_def split: option.splits)
    qed
  next
    fix rid row assume "hhas (inflight (sp s)) rid \<or> rid \<in> fst ` set (finishing s)"
    then show "hhas (inflight ?p) rid \<or> rid \<in> fst ` set ?f"
    proof
      assume "hhas (inflight (sp s)) rid"
      then obtain e where e: "hget (inflight (sp s)) rid = Some e" by (auto simp: hhas_def)
      show ?thesis
      proof (cases "pe_worker e = w")
        case True
        with e mem have "(rid, e) \<in> set ?pd" by simp
        then show ?thesis by force
      next
        case False
        with e wf show ?thesis by (simp add: inf hhas_def)
      qed
    qed auto
  qed
  then show ?thesis by (simp add: drop_step_def v case_prod_unfold Let_def)
qed

lemma outcome_row_finisher: "outcome_ok how \<Longrightarrow> finisher (outcome_row how now)"
  using finisher_closed finisher_dropped finisher_result by (cases how) (auto simp: finisher_def)

lemma finish_row_handles:
  "hget (handles (fst (finish_row upd rid p))) x =
     (if x = rid then map_option (\<lambda>row. if hr_status row = Running then upd row else row)
        (hget (handles p) rid) else hget (handles p) x)"
  by (auto simp: finish_row_def split: option.splits)

lemma finish_row_inflight [simp]: "inflight (fst (finish_row upd rid p)) = inflight p"
  by (simp add: finish_row_def split: option.split)

lemma finish_step_inv:
  assumes inv: "sys_core s" and st: "finish_step rid now s = Some t"
  shows "sys_core t"
proof -
  note i = sys_coreD [OF inv]
  obtain x how rest where tf: "take_first (\<lambda>(x, _). x = rid) (finishing s) = Some ((x, how), rest)"
    and t: "t = s\<lparr>sp := fst (finish_row (outcome_row how now) rid (sp s)), finishing := rest\<rparr>"
    using st by (auto simp: finish_step_def split: option.splits)
  obtain as bs where "finishing s = as @ (x, how) # bs" and rest: "rest = as @ bs" and "x = rid"
    by (rule take_first_Some [OF tf]) auto
  then have fin: "finishing s = as @ (rid, how) # bs" by simp
  let ?p = "fst (finish_row (outcome_row how now) rid (sp s))"
  have here: "\<not> hhas (inflight (sp s)) rid" "outcome_ok how"
    using finishing_okD [OF i(4), of rid how] by (auto simp: fin)
  have f: "finisher (outcome_row how now)" by (rule outcome_row_finisher [OF here(2)])
  show ?thesis unfolding t
  proof (rule core_quiet [OF inv quiet_finish_row core_finish_row [OF i(1) f here(1)]])
    fix z w assume "(z, w) \<in> set rest"
    then show "\<not> hhas (inflight ?p) z \<and> z \<in> set (issued s) \<and> outcome_ok w"
      using finishing_okD [OF i(4), of z w] by (simp add: fin rest)
  next
    fix z row assume row: "hget (handles ?p) z = Some row" "hr_status row = Running"
      and z: "hhas (inflight (sp s)) z \<or> z \<in> fst ` set (finishing s)"
    have nr: "hr_status (outcome_row how now y) \<noteq> Running" for y using f by (simp add: finisher_def)
    have "z \<noteq> rid"
    proof
      assume "z = rid"
      with row(1) obtain y where "row = (if hr_status y = Running then outcome_row how now y else y)"
        by (auto simp: finish_row_handles)
      with row(2) nr [of y] show False by (auto split: if_splits)
    qed
    with z show "hhas (inflight ?p) z \<or> z \<in> fst ` set rest" by (auto simp: fin rest)
  qed
qed

lemma created_inv:
  assumes inv: "sys_core s" and c: "set ks \<subseteq> set (opened_ids s)" "set cs \<subseteq> set (opened_ids s)"
  shows "sys_core (s\<lparr>known := ks, creating := cs\<rparr>)"
  using sys_coreD [OF inv] c by (simp add: sys_core_def ids_ok_def locks_ok_def finishing_ok_def wire_ok_def unsent_ok_def)

lemma created_snapshot_pool:
  "created_session_snapshot now sid p = (r, q) \<Longrightarrow> q = p \<or> q = touch_session now sid p"
  by (auto simp: created_session_snapshot_def split: option.splits if_splits)

lemma create_done_inv:
  assumes inv: "sys_core s" and st: "apply_event (CreateDone sid now) s = Some t"
  shows "sys_core t"
proof -
  obtain r q where q: "created_session_snapshot now sid (sp s) = (r, q)" by fastforce
  have k: "sid \<in> set (creating s)" using st by (simp split: if_splits)
  have "sys_core (s\<lparr>sp := q\<rparr>)"
    using created_snapshot_pool [OF q] inv
      core_same [OF inv quiet_touch_session core_touch_session [OF sys_coreD(1) [OF inv]], of now sid]
    by (auto simp: touch_session_def)
  note base = created_inv [OF this, where cs = "removeAll sid (creating s)"]
  have sub: "set (known s) \<subseteq> set (opened_ids s)" "set (creating s) \<subseteq> set (opened_ids s)"
    using sys_coreD(2) [OF inv] by (simp_all add: ids_ok_def)
  show ?thesis
  proof (cases r)
    case (Inl e)
    with st q k have "t = s\<lparr>sp := q, known := known s, creating := removeAll sid (creating s)\<rparr>"
      by (auto intro: sys.equality)
    with base [of "known s"] sub show ?thesis by auto
  next
    case (Inr sn)
    with st q k have "t = s\<lparr>sp := q, known := sid # known s, creating := removeAll sid (creating s)\<rparr>"
      by (auto intro: sys.equality)
    with base [of "sid # known s"] sub k show ?thesis by auto
  qed
qed


lemmas quiet_same_facts = quiet_touch_worker quiet_session_ready quiet_attach quiet_detach
  quiet_cancel_request quiet_poll quiet_touch_session quiet_list quiet_spool quiet_drop_worker
  quiet_purge quiet_retain

lemma session_ready_inflight: "inflight (fst (session_ready now w sid error p)) = inflight p"
  by (simp add: session_ready_def split: option.split)

lemma attach_inflight: "inflight (snd (attach_terminal now ch sid p)) = inflight p"
  by (simp add: attach_terminal_def split: option.split)

lemma cancel_inflight: "inflight (snd (cancel_request rid p)) = inflight p"
  by (simp add: cancel_request_def split: option.split)

lemma list_inflight: "inflight (snd (list_session_commands now sid p)) = inflight p"
  by (simp add: list_session_commands_def Let_def split: option.split)

lemma drop_worker_inflight: "inflight (snd (drop_worker now w p)) = inflight p"
  by (simp add: drop_worker_def Let_def)

lemma plain_inflight:
  "inflight (touch_worker now w p) = inflight p"
  "inflight (detach_terminal_if now sid ch p) = inflight p"
  "inflight (poll_row now rid p) = inflight p"
  "inflight (touch_session now sid p) = inflight p"
  "inflight (mark_spool_failed rid p) = inflight p"
  "inflight (retain_sessions now ttl p) = inflight p"
  by (simp_all add: touch_worker_def detach_terminal_if_def poll_row_def touch_session_def
      mark_spool_failed_def retain_sessions_def)

lemmas same_inflight = session_ready_inflight attach_inflight cancel_inflight list_inflight
  drop_worker_inflight plain_inflight

text \<open>\<open>purge_handle\<close> runs on finished handles, whose request is not inflight.\<close>

lemma purge_step_inv:
  assumes inv: "sys_core s" and row: "hget (handles (sp s)) rid = Some row" "hr_status row \<noteq> Running"
  shows "sys_core (s\<lparr>sp := fst (purge_handle rid (sp s))\<rparr>)"
proof -
  have "\<not> hhas (inflight (sp s)) rid"
    using core_rowD(2) [OF sys_coreD(1) [OF inv] row(1)] row(2) by blast
  then show ?thesis
    by (intro core_same [OF inv quiet_purge] core_purge [OF sys_coreD(1) [OF inv]])
      (simp_all add: purge_handle_def)
qed

section \<open>The session-less API\<close>

lemma core_held:
  assumes inv: "sys_core s" and q: "quiet (sp s) p" and p: "pool_core p" and same: "inflight p = inflight (sp s)"
  shows "sys_core (s\<lparr>sp := p, popped := ps, pins := ns\<rparr>)"
  using sys_coreD [OF core_same [OF inv q p same]]
  by (simp add: sys_core_def ids_ok_def locks_ok_def finishing_ok_def wire_ok_def unsent_ok_def)

lemma take_step_core: "sys_core s \<Longrightarrow> sys_core (take_step s)"
  using core_held [of s "(sp s)\<lparr>idle := tl (idle (sp s))\<rparr>", where ps = "hd (idle (sp s)) # popped s" and ns = "pins s"]
  by (cases "idle (sp s)") (auto simp: take_step_def pop_idle_def quiet_others sys_coreD)

lemma pin_step_core:
  assumes inv: "sys_core s"
  shows "sys_core (pin_step ch s)"
proof (cases "idle (sp s)")
  case Nil
  with inv show ?thesis by (simp add: pin_step_def acquire_pinned_def pop_idle_def)
next
  case (Cons wk xs)
  let ?p = "(sp s)\<lparr>idle := xs, pty_sessions := hput (we_id wk) ch (pty_sessions (sp s))\<rparr>"
  have "quiet (sp s) ?p" by (rule quiet_trans [OF quiet_others(1,3)])
  from core_held [OF inv this, where ps = "popped s" and ns = "wk # pins s"] sys_coreD(1) [OF inv] Cons show ?thesis
    by (simp add: pin_step_def acquire_pinned_def pop_idle_def)
qed

lemma back_step_core: "sys_core s \<Longrightarrow> back_step wk s = Some t \<Longrightarrow> sys_core t"
  using core_held [of s "put_back wk (sp s)", where ps = "remove1 wk (popped s)" and ns = "pins s"] quiet_others(1) [of "sp s"]
  by (auto simp: back_step_def sys_coreD split: if_splits)

lemma unpin_step_core:
  assumes inv: "sys_core s" and st: "unpin_step wk s = Some t"
  shows "sys_core t"
proof -
  let ?p = "release_pinned wk (sp s)"
  have "quiet (sp s) ?p"
    using quiet_trans [OF quiet_others(3) quiet_others(1)] quiet_others(3) by (auto simp: release_pinned_def Let_def)
  moreover have "pool_core ?p" using sys_coreD(1) [OF inv] by (auto simp: release_pinned_def Let_def)
  moreover have "inflight ?p = inflight (sp s)" by (simp add: release_pinned_def Let_def)
  ultimately have "sys_core (s\<lparr>sp := ?p, popped := popped s, pins := remove1 wk (pins s)\<rparr>)" by (rule core_held [OF inv])
  with st show ?thesis by (auto simp: unpin_step_def split: if_splits)
qed

lemma exec_step_inv:
  assumes inv: "sys_core s" and st: "exec_step wk rid t0 now s = Some t"
  shows "sys_core t"
proof -
  note i = sys_coreD [OF inv]
  from st have wk: "wk \<in> set (popped s)" and new: "rid \<notin> set (issued s)"
    and t: "t = s\<lparr>sp := dispatch_register wk rid t0 now (sp s), popped := remove1 wk (popped s),
      issued := rid # issued s, unsent := rid # unsent s\<rparr>"
    by (auto simp: exec_step_def split: if_splits)
  let ?p = "dispatch_register wk rid t0 now (sp s)"
  have fresh: "hget (handles (sp s)) rid = None" using i(2) new by (auto simp: ids_ok_def hhas_def)
  have free: "hget (inflight (sp s)) rid = None"
    using fresh requests_okD [OF pool_coreD(2) [OF i(1)], of rid] by (cases "hget (inflight (sp s)) rid") force+
  have "ids_ok t" using i(2) by (auto simp: t ids_ok_def dispatch_register_def hhas_def)
  moreover have "locks_ok t" unfolding locks_ok_def
  proof (intro allI impI)
    fix x h assume "hget (locks t) x = Some h"
    then have "holder_ok x h (sp s)" using i(3) by (simp add: t locks_ok_def)
    then show "holder_ok x h (sp t)" by (cases h) (simp_all add: t captured_ok_def dispatch_register_def)
  qed
  moreover have "finishing_ok t" using i(4) new by (auto simp: t finishing_ok_def dispatch_register_def)
  moreover have "wire_ok t" using i(5) by (simp add: t wire_ok_def dispatch_register_def)
  moreover have "pool_core ?p" by (rule core_dispatch_register [OF i(1) fresh])
  moreover have "unsent_ok t" using i(6) by (auto simp: t unsent_ok_def dispatch_register_def fresh_row_def)
  ultimately show ?thesis by (simp add: sys_core_def t)
qed

lemma exec_sent_step_inv:
  assumes inv: "sys_core s" and st: "exec_sent_step rid r s = Some t"
  shows "sys_core t"
proof -
  note i = sys_coreD [OF inv]
  let ?p = "(sp s)\<lparr>inflight := hdel rid (inflight (sp s)), handles := hdel rid (handles (sp s))\<rparr>"
  have unsent: "sys_core (u\<lparr>unsent := removeAll rid (unsent u)\<rparr>)" if "sys_core u" for u
    using sys_coreD [OF that] by (auto simp: sys_core_def ids_ok_def locks_ok_def finishing_ok_def wire_ok_def unsent_ok_def)
  have "sys_core (s\<lparr>sp := ?p, finishing := finishing s\<rparr>)"
  proof (rule core_quiet [OF inv _ core_forget [OF i(1), unfolded dispatch_forget_def]])
    show "quiet (sp s) ?p" by (simp add: quiet_def)
  qed (use finishing_okD [OF i(4)] in \<open>auto simp: hhas_def split: if_splits\<close>)
  from unsent [OF this] unsent [OF inv] st show ?thesis by (auto simp: exec_sent_step_def split: if_splits)
qed

lemma register_event_inv:
  assumes inv: "sys_core s" and reg: "register_worker now w profile loc c (sp s) = Inr q"
  shows "sys_core (s\<lparr>sp := q\<rparr>)"
proof -
  have same: "inflight q = inflight (sp s)" using reg by (auto simp: register_worker_def split: if_splits)
  have "sys_core (s\<lparr>sp := q, finishing := finishing s\<rparr>)"
  proof (rule core_quiet [OF inv quiet_register [OF reg] core_register [OF sys_coreD(1) [OF inv] reg]])
  qed (use finishing_okD [OF sys_coreD(4) [OF inv]] in \<open>auto simp: same\<close>)
  then show ?thesis by simp
qed

lemma sys_core_step:
  assumes inv: "sys_core s" and st: "sys_step s e t"
  shows "sys_core t"
proof -
  note p = sys_coreD(1) [OF inv]
  have wf: "hwf (sessions (sp s))" using pool_coreD(1) [OF p] by (simp add: maps_ok_def)
  have same: "sys_core (s\<lparr>sp := q\<rparr>)"
    if "quiet (sp s) q" "pool_core q" "inflight q = inflight (sp s)" for q
    using core_same [OF inv] that by blast
  have plain: "sys_core t"
    if "Some (set_pool f s) = Some t" "quiet (sp s) (f (sp s))" "pool_core (f (sp s))"
      "inflight (f (sp s)) = inflight (sp s)" for f
    using same [of "f (sp s)"] that by (simp add: set_pool_def)
  have st': "apply_event e s = Some t" using st by (simp add: sys_step_def)
  show ?thesis
  proof (cases e)
    case (RegisterEv w profile loc c now)
    with st' register_event_inv [OF inv] inv show ?thesis by (auto split: if_splits sum.splits)
  next
    case (CreateBegin profile op ready now)
    obtain r q where "create_reserve now profile op ready (sp s) = (r, q)" by fastforce
    with create_step_inv [OF inv _ this] create_reserve_Inl [of now profile op ready "sp s" _ q]
      st' CreateBegin
    show ?thesis by (cases r) (auto split: if_splits)
  next
    case (CreateFail sid)
    have "set (known s) \<subseteq> set (opened_ids s)" "set (removeAll sid (creating s)) \<subseteq> set (opened_ids s)"
      using sys_coreD(2) [OF inv] by (auto simp: ids_ok_def)
    from created_inv [OF inv this] show ?thesis using st' CreateFail by (auto split: if_splits)
  next
    case (PurgeEv rid)
    then show ?thesis using st' purge_step_inv [OF inv, of rid] inv
      by (auto simp: set_pool_def split: option.splits if_splits)
  next
    case (AttachEv sid ch now)
    with st' have "Some (set_pool (\<lambda>p. snd (attach_terminal now ch sid p)) s) = Some t"
      by (simp split: if_splits)
    then show ?thesis by (rule plain) (simp_all add: quiet_attach core_attach p same_inflight)
  next
    case (CreateDone sid now)
    with st' show ?thesis using create_done_inv [OF inv] by blast
  next
    case (TouchWorkerEv w now)
    show ?thesis
      by (rule plain [OF st' [unfolded TouchWorkerEv apply_event.simps]])
        (simp_all add: quiet_same_facts keeps_core p wf same_inflight)
  next
    case (ReadyEv w sid error now)
    show ?thesis
      by (rule plain [OF st' [unfolded ReadyEv apply_event.simps]])
        (simp_all add: quiet_same_facts keeps_core p wf same_inflight)
  next
    case (DetachEv sid ch now)
    show ?thesis
      by (rule plain [OF st' [unfolded DetachEv apply_event.simps]])
        (simp_all add: quiet_same_facts keeps_core p wf same_inflight)
  next
    case (CancelEv rid)
    show ?thesis
      by (rule plain [OF st' [unfolded CancelEv apply_event.simps]])
        (simp_all add: quiet_same_facts keeps_core p wf same_inflight)
  next
    case (PollEv rid now)
    show ?thesis
      by (rule plain [OF st' [unfolded PollEv apply_event.simps]])
        (simp_all add: quiet_same_facts keeps_core p wf same_inflight)
  next
    case (SnapshotEv sid now)
    show ?thesis
      by (rule plain [OF st' [unfolded SnapshotEv apply_event.simps]])
        (simp_all add: quiet_same_facts keeps_core p wf same_inflight)
  next
    case (ListEv sid now)
    show ?thesis
      by (rule plain [OF st' [unfolded ListEv apply_event.simps]])
        (simp_all add: quiet_same_facts keeps_core p wf same_inflight)
  next
    case (SpoolFailEv rid)
    show ?thesis
      by (rule plain [OF st' [unfolded SpoolFailEv apply_event.simps]])
        (simp_all add: quiet_same_facts keeps_core p wf same_inflight)
  next
    case (DropWorker w now)
    show ?thesis
      by (rule plain [OF st' [unfolded DropWorker apply_event.simps]])
        (simp_all add: quiet_same_facts keeps_core p wf same_inflight)
  next
    case (SweepSessions now ttl)
    show ?thesis
      by (rule plain [OF st' [unfolded SweepSessions apply_event.simps]])
        (simp_all add: quiet_same_facts keeps_core p wf same_inflight)
  next
    case (ClosedEv w sid error reusable now)
    with st' closed_step_inv [OF inv] show ?thesis by auto
  next
    case (SubmitCheck sid rid cmd mode)
    with st' show ?thesis using submit_check_inv [OF inv] by simp
  next
    case (SubmitRegister sid t0 now)
    with st' show ?thesis using register_step_inv [OF inv] by simp
  next
    case (SubmitSend sid r)
    with st' show ?thesis using send_run_inv [OF inv] by simp
  next
    case (CloseBegin gate sid ch)
    with st' show ?thesis using close_step_inv [OF inv] by simp
  next
    case (CloseSend sid r)
    with st' show ?thesis using send_close_inv [OF inv] by simp
  next
    case (FinishEv rid now)
    with st' show ?thesis using finish_step_inv [OF inv] by simp
  next
    case (ResultEv w r now)
    with st' result_step_inv [OF inv] show ?thesis by (auto split: if_splits)
  next
    case (DropRequests w oom)
    with st' drop_step_inv [OF inv] show ?thesis by auto
  next
    case ExecTake
    with st' take_step_core [OF inv] show ?thesis by auto
  next
    case (ExecBack wk)
    with st' back_step_core [OF inv] show ?thesis by simp
  next
    case (ExecRegister wk rid t0 now)
    with st' exec_step_inv [OF inv] show ?thesis by simp
  next
    case (ExecSend rid r)
    with st' exec_sent_step_inv [OF inv] show ?thesis by simp
  next
    case (PinEv ch)
    with st' pin_step_core [OF inv] show ?thesis by auto
  next
    case (UnpinEv wk)
    with st' unpin_step_core [OF inv] show ?thesis by simp
  qed
qed

interpretation ps: step_invariant init_sys sys_step sys_core
  by unfold_locales (fact init_sys_core, fact sys_core_step)

section \<open>What no step can undo\<close>

text \<open>Every step either leaves a section that is \<open>quiet\<close>, reserves a worker for an id that is new, or
  registers a handle with an id that is new.  So an outcome once written, and the end of a session,
  stay.\<close>

definition handle_settled :: "exec_id \<times> handle_row \<Rightarrow> sys \<Rightarrow> bool" where
  "handle_settled h s \<longleftrightarrow> (let (rid, row) = h
     in hr_status row \<noteq> Running \<and> rid \<in> set (issued s) \<and>
        (\<forall>row'. hget (handles (sp s)) rid = Some row' \<longrightarrow> outcome_of row' = outcome_of row))"

definition session_ended :: "session_id \<Rightarrow> sys \<Rightarrow> bool" where
  "session_ended sid s \<longleftrightarrow> sid \<in> set (opened_ids s) \<and>
     (\<forall>r. hget (sessions (sp s)) sid = Some r \<longrightarrow> \<not> live_state (sr_state r))"

lemma settled_quiet:
  "handle_settled (rid, row) s \<Longrightarrow> quiet (sp s) p \<Longrightarrow> rid \<in> set is \<Longrightarrow>
     handle_settled (rid, row) (s\<lparr>sp := p, issued := is\<rparr>)"
  by (auto simp: handle_settled_def row_quiet_def outcome_of_def dest!: quietD(4))

text \<open>The pool of the next state: quiet, or one of the two additions.\<close>

definition adds :: "sys \<Rightarrow> pool \<Rightarrow> bool" where
  "adds s p \<longleftrightarrow>
     (\<exists>profile op ready now wk. open_session_id op \<notin> set (opened_ids s) \<and>
        create_reserve now profile op ready (sp s) = (Inr wk, p)) \<or>
     (\<exists>t0 now cap sid rid mode. rid \<notin> set (issued s) \<and>
        submit_register t0 now cap sid rid mode (sp s) = (None, p)) \<or>
     (\<exists>wk rid t0 now. rid \<notin> set (issued s) \<and> p = dispatch_register wk rid t0 now (sp s))"

lemma quiet_held:
  "quiet (sp s) (sp (take_step s))" "quiet (sp s) (sp (pin_step ch s))"
  "back_step wk s = Some t \<Longrightarrow> quiet (sp s) (sp t)" "unpin_step wk s = Some t \<Longrightarrow> quiet (sp s) (sp t)"
  "exec_sent_step rid r s = Some t \<Longrightarrow> quiet (sp s) (sp t)"
  by (auto simp: quiet_def take_step_def pin_step_def back_step_def unpin_step_def exec_sent_step_def pop_idle_def
      acquire_pinned_def release_pinned_def Let_def split: list.splits if_splits)

lemma ids_held:
  "issued (take_step s) = issued s" "opened_ids (take_step s) = opened_ids s"
  "issued (pin_step ch s) = issued s" "opened_ids (pin_step ch s) = opened_ids s"
  "back_step wk s = Some t \<Longrightarrow> issued t = issued s \<and> opened_ids t = opened_ids s"
  "unpin_step wk s = Some t \<Longrightarrow> issued t = issued s \<and> opened_ids t = opened_ids s"
  "exec_sent_step rid r s = Some t \<Longrightarrow> issued t = issued s \<and> opened_ids t = opened_ids s"
  by (auto simp: take_step_def pin_step_def back_step_def unpin_step_def exec_sent_step_def
      split: option.splits prod.splits if_splits)

lemma handles_held:
  "handles (sp (take_step s)) = handles (sp s)" "handles (sp (pin_step ch s)) = handles (sp s)"
  "back_step wk s = Some t \<Longrightarrow> handles (sp t) = handles (sp s)"
  "unpin_step wk s = Some t \<Longrightarrow> handles (sp t) = handles (sp s)"
  "exec_step wk rid t0 now s = Some t \<Longrightarrow> rid \<notin> set (issued s) \<and>
     handles (sp t) = hput rid (fresh_row rid None (we_id wk) t0) (handles (sp s))"
  "exec_sent_step rid r s = Some t \<Longrightarrow> rid \<in> set (unsent s) \<and>
     (handles (sp t) = handles (sp s) \<or> handles (sp t) = hdel rid (handles (sp s)))"
  by (auto simp: take_step_def pin_step_def back_step_def unpin_step_def exec_step_def exec_sent_step_def pop_idle_def
      acquire_pinned_def release_pinned_def dispatch_register_def Let_def split: list.splits if_splits)

lemma step_kinds:
  assumes inv: "sys_core s" and st: "sys_step s e t"
  shows "(quiet (sp s) (sp t) \<or> adds s (sp t)) \<and>
    set (issued s) \<subseteq> set (issued t) \<and> set (opened_ids s) \<subseteq> set (opened_ids t)"
proof -
  note p = sys_coreD(1) [OF inv]
  have wf: "hwf (sessions (sp s))" "hwf (inflight (sp s))"
    using pool_coreD(1) [OF p] by (simp_all add: maps_ok_def)
  have st': "apply_event e s = Some t" using st by (simp add: sys_step_def)
  show ?thesis
  proof (cases e)
    case (RegisterEv w profile loc c now)
    with st' show ?thesis by (auto split: sum.splits if_splits dest: quiet_register)
  next
    case (ExecRegister wk rid t0 now)
    with st' have t: "rid \<notin> set (issued s)" "sp t = dispatch_register wk rid t0 now (sp s)"
      "issued t = rid # issued s" "opened_ids t = opened_ids s"
      by (auto simp: exec_step_def split: if_splits)
    then have "adds s (sp t)" unfolding adds_def by blast
    with t show ?thesis by auto
  next
    case (ExecBack wk)
    with st' quiet_held(3) ids_held(5) show ?thesis by auto
  next
    case (UnpinEv wk)
    with st' quiet_held(4) ids_held(6) show ?thesis by auto
  next
    case (ExecSend rid r)
    with st' quiet_held(5) ids_held(7) show ?thesis by auto
  next
    case ExecTake
    with st' show ?thesis by (auto simp: quiet_held ids_held)
  next
    case (PinEv ch)
    with st' show ?thesis by (auto simp: quiet_held ids_held)
  next
    case (CreateBegin profile op ready now)
    with st' show ?thesis
      by (auto simp: adds_def split: if_splits prod.splits sum.splits; blast)
  next
    case (CreateDone sid now)
    with st' show ?thesis
      by (auto split: if_splits prod.splits sum.splits dest!: created_snapshot_pool
          intro: quiet_touch_session)
  next
    case (ClosedEv w sid error reusable now)
    with st' wf show ?thesis
      by (auto simp: closed_step_def split: if_splits option.splits dest: quiet_close_take)
  next
    case (SubmitRegister sid t0 now)
    with st' show ?thesis
      by (auto simp: register_step_def adds_def split: option.splits holder.splits if_splits prod.splits
          dest: submit_register_Some; blast)
  next
    case (CloseBegin gate sid ch)
    have "sp t = snd (close_begin gate ch sid (sp s))" "issued t = issued s" "opened_ids t = opened_ids s"
      using st' CloseBegin
      by (auto simp: close_step_def split: if_splits prod.splits close_step.splits bool.splits)
    then show ?thesis by (simp add: quiet_close_begin)
  next
    case (DropRequests w oom)
    with st' wf show ?thesis
      by (auto simp: drop_step_def case_prod_unfold Let_def intro: quiet_drop_inflight)
  qed (use st' wf in \<open>auto simp: set_pool_def submit_step_def send_run_step_def
      send_close_step_def result_step_def finish_step_def Let_def quiet_complete_take
      quiet_finish_row split: if_splits option.splits holder.splits sum.splits
      intro!: quiet_same_facts\<close>)
qed


lemma adds_handles:
  assumes "adds s p" and "hget (handles p) rid = Some row" and "rid \<in> set (issued s)"
  shows "hget (handles (sp s)) rid = Some row"
  using assms unfolding adds_def
  by (auto simp: submit_register_def dispatch_register_def split: option.splits if_splits elim!: create_reserve_cases)

lemma adds_sessions:
  assumes "adds s p" and "hget (sessions p) sid = Some r" and "sid \<in> set (opened_ids s)"
  obtains r0 where "hget (sessions (sp s)) sid = Some r0" "sr_state r = sr_state r0"
proof -
  from assms(1) consider
      (reserve) profile op ready now wk where "open_session_id op \<notin> set (opened_ids s)"
        "create_reserve now profile op ready (sp s) = (Inr wk, p)"
    | (submit) t0 now cap x rid mode where "submit_register t0 now cap x rid mode (sp s) = (None, p)"
    | (dispatch) wk rid t0 now where "p = dispatch_register wk rid t0 now (sp s)"
    unfolding adds_def by blast
  then show thesis
  proof cases
    case reserve
    then have "hget (sessions p) sid = hget (sessions (sp s)) sid"
      using assms(3) by (auto elim!: create_reserve_cases)
    with assms(2) that show thesis by simp
  next
    case submit
    then obtain f where "sessions p = hmod x f (sessions (sp s))" "\<And>r. sr_state (f r) = sr_state r"
      unfolding submit_register_def by (fastforce split: option.splits)
    with assms(2) have "\<exists>r0. hget (sessions (sp s)) sid = Some r0 \<and> sr_state r = sr_state r0"
      by (cases "sid = x") auto
    with that show thesis by blast
  next
    case dispatch
    then show thesis using assms(2) that by (simp add: dispatch_register_def)
  qed
qed

lemma handle_settled_step:
  assumes inv: "sys_core s" and f: "handle_settled h s" and st: "sys_step s e t"
  shows "handle_settled h t"
proof -
  obtain rid row where h: "h = (rid, row)" by (cases h)
  note k = step_kinds [OF inv st]
  have r: "hr_status row \<noteq> Running" "rid \<in> set (issued s)"
    and old: "\<And>x. hget (handles (sp s)) rid = Some x \<Longrightarrow> outcome_of x = outcome_of row"
    using f by (auto simp: handle_settled_def h)
  have "outcome_of x = outcome_of row" if x: "hget (handles (sp t)) rid = Some x" for x
  proof (cases "quiet (sp s) (sp t)")
    case True
    from quietD(4) [OF this x] obtain y where "hget (handles (sp s)) rid = Some y" "row_quiet y x"
      by blast
    with old r(1) show ?thesis by (auto simp: row_quiet_def outcome_of_def)
  next
    case False
    with k adds_handles [of s "sp t" rid x] x r(2) old show ?thesis by blast
  qed
  with r k show ?thesis by (auto simp: handle_settled_def h)
qed

lemma session_ended_step:
  assumes inv: "sys_core s" and f: "session_ended sid s" and st: "sys_step s e t"
  shows "session_ended sid t"
proof -
  note k = step_kinds [OF inv st]
  have r: "sid \<in> set (opened_ids s)"
    and old: "\<And>x. hget (sessions (sp s)) sid = Some x \<Longrightarrow> \<not> live_state (sr_state x)"
    using f by (auto simp: session_ended_def)
  have "\<not> live_state (sr_state x)" if x: "hget (sessions (sp t)) sid = Some x" for x
  proof (cases "quiet (sp s) (sp t)")
    case True
    from quietD(1) [OF this x] old show ?thesis by (auto simp: session_quiet_def)
  next
    case False
    with k have "adds s (sp t)" by blast
    from adds_sessions [OF this x r] old show ?thesis by metis
  qed
  with r k show ?thesis by (auto simp: session_ended_def)
qed

interpretation settled: stable_fact init_sys sys_step sys_core handle_settled
  by unfold_locales (fact handle_settled_step)

interpretation ended: stable_fact init_sys sys_step sys_core session_ended
  by unfold_locales (fact session_ended_step)

text \<open>Executable runs, for concrete traces.\<close>

fun run_events :: "event list \<Rightarrow> sys \<Rightarrow> sys option" where
  "run_events [] s = Some s"
| "run_events (e # es) s = (case apply_event e s of None \<Rightarrow> None | Some t \<Rightarrow> run_events es t)"

lemma run_events_run: "run_events es s = Some t \<longleftrightarrow> run sys_step s es t"
  by (induction es arbitrary: s) (auto simp: run_Cons_iff sys_step_def split: option.splits)

definition empty_sys :: sys where
  "empty_sys = \<lparr>sp = new_pool, creating = [], known = [], locks = [], finishing = [],
     opened_ids = [], issued = [], wire = [], popped = [], unsent = [], pins = []\<rparr>"

lemma run_events_reachable:
  assumes "run_events es empty_sys = Some t" shows "reachable init_sys sys_step t"
proof -
  have "reachable init_sys sys_step empty_sys"
    by (rule reach_init) (simp add: init_sys_def empty_sys_def)
  with assms show ?thesis unfolding run_events_run by (rule run_reachable)
qed

end
