(* ===== verification/PoolLease.thy ===== *)
theory PoolLease
  imports PoolReach
begin

text \<open>
  The leases of the pool: the idle queue holds each registered worker at most once, a reserved worker is reserved by one
  session, and a worker held outside the queue is in neither place.  The code keeps them in order as long as two things
  are so, which it does not check: a worker reports only the session it holds as closed, and a worker that the
  session-less API gives back to the queue is still on the connection it was taken with.  A step that respects both is
  \<^emph>\<open>orderly\<close>; \<open>PoolMixed\<close> shows what the code does otherwise.
\<close>

section \<open>Orderly steps\<close>

definition gives_back :: "exec_id \<Rightarrow> pool \<Rightarrow> bool" where
  "gives_back rid p \<longleftrightarrow> (case hget (inflight p) rid of None \<Rightarrow> True
     | Some e \<Rightarrow> pe_session e \<noteq> None \<or> on_connection (entry_worker e) p)"

fun orderly :: "sys \<Rightarrow> event \<Rightarrow> bool" where
  "orderly s (ClosedEv w sid error reusable now) \<longleftrightarrow> closes_own w sid (sp s)"
| "orderly s (ResultEv w r now) \<longleftrightarrow> gives_back (res_request_id r) (sp s)"
| "orderly s (ExecBack wk) \<longleftrightarrow> on_connection wk (sp s)"
| "orderly s (UnpinEv wk) \<longleftrightarrow> (hhas (liveness (sp s)) (we_id wk) \<longrightarrow> on_connection wk (sp s))"
| "orderly s _ \<longleftrightarrow> True"

definition orderly_step :: "sys \<Rightarrow> event \<Rightarrow> sys \<Rightarrow> bool" where
  "orderly_step s e t \<longleftrightarrow> sys_step s e t \<and> orderly s e"

lemma orderly_reachable: "reachable init_sys orderly_step s \<Longrightarrow> reachable init_sys sys_step s"
  by (induction rule: reachable.induct) (auto simp: orderly_step_def intro: reach_init reach_step)

lemma orderly_run: "run orderly_step s es t \<Longrightarrow> run sys_step s es t"
  by (induction es arbitrary: s) (auto simp: run_Cons_iff orderly_step_def)

text \<open>Executable orderly runs.\<close>

fun run_orderly :: "event list \<Rightarrow> sys \<Rightarrow> sys option" where
  "run_orderly [] s = Some s"
| "run_orderly (e # es) s = (if orderly s e then (case apply_event e s of None \<Rightarrow> None | Some t \<Rightarrow> run_orderly es t) else None)"

lemma run_orderly_run: "run_orderly es s = Some t \<longleftrightarrow> run orderly_step s es t"
  by (induction es arbitrary: s) (auto simp: run_Cons_iff orderly_step_def sys_step_def split: option.splits)

lemma run_orderly_events: "run_orderly es s = Some t \<Longrightarrow> run_events es s = Some t"
  by (induction es arbitrary: s) (auto split: if_splits option.splits)

lemma run_orderly_the: "run_orderly es s \<noteq> None \<Longrightarrow> run_orderly es s = Some (the (run_events es s))"
  using run_orderly_events [of es s] by force

lemma run_orderly_reachable:
  assumes "run_orderly es empty_sys = Some t" shows "reachable init_sys orderly_step t"
proof -
  have "reachable init_sys orderly_step empty_sys"
    by (rule reach_init) (simp add: init_sys_def empty_sys_def)
  with assms show ?thesis unfolding run_orderly_run by (rule run_reachable)
qed

section \<open>The invariant of orderly runs\<close>

definition leased :: "sys \<Rightarrow> bool" where
  "leased s \<longleftrightarrow> pool_inv (sp s) \<and> held_ok (holders s) (sp s)"

definition sys_inv :: "sys \<Rightarrow> bool" where
  "sys_inv s \<longleftrightarrow> sys_core s \<and> leased s"

lemma sys_invD:
  assumes "sys_inv s"
  shows "pool_inv (sp s)" "ids_ok s" "locks_ok s" "finishing_ok s" "wire_ok s" "held_ok (holders s) (sp s)" "unsent_ok s"
  using assms by (simp_all add: sys_inv_def leased_def sys_core_def)

lemma sys_inv_core: "sys_inv s \<Longrightarrow> sys_core s"
  by (simp add: sys_inv_def)

lemma init_sys_inv: "init_sys s \<Longrightarrow> sys_inv s"
  using init_sys_core pool_inv_new
  by (simp add: sys_inv_def leased_def) (simp add: init_sys_def holders_def lone_def held_ok_def new_pool_def)

text \<open>The leases read the pool, the workers popped and those pinned.\<close>

lemma leased_cong: "leased s \<Longrightarrow> sp t = sp s \<Longrightarrow> popped t = popped s \<Longrightarrow> pins t = pins s \<Longrightarrow> leased t"
  by (simp add: leased_def holders_def)

lemma leased_section:
  assumes "leased s" and "popped t = popped s" "pins t = pins s" and "pool_inv (sp t)"
    and "inflight (sp t) = inflight (sp s)" and "keeps_free (sp s) (sp t)"
  shows "leased t"
  using assms held_ok_same [of "holders s" "sp s" "sp t"] lone_cong [of "sp t" "sp s"]
  by (simp add: leased_def holders_def)

text \<open>Requests that are taken out take their holders with them.\<close>

lemma leased_retain:
  assumes s: "leased s" and same: "popped t = popped s" "pins t = pins s" and inv: "pool_inv (sp t)"
    and free: "keeps_free (sp s) (sp t)" and inf: "inflight (sp t) = hretain P (inflight (sp s))"
  shows "leased t"
proof -
  have ok: "held_ok (holders s) (sp s)" using s by (simp add: leased_def)
  have l: "lone (sp t) = lone ((sp s)\<lparr>inflight := hretain P (inflight (sp s))\<rparr>)" by (rule lone_cong) (simp add: inf)
  have "distinct (map (\<lambda>h. (we_id h, we_sink h)) ((popped s @ pins s) @ lone (sp s)))"
    using ok by (simp add: held_ok_def holders_def)
  from lone_distinct_hretain [OF this, of P] lone_sub [of P "sp s"] have "held_ok (holders t) (sp t)"
    by (intro held_ok_keep [OF ok free]) (auto simp: holders_def same l simp del: lone_hretain)
  with inv show ?thesis by (simp add: leased_def)
qed

lemma held_complete:
  assumes s: "leased s" and gb: "gives_back rid (sp s)"
  shows "held_ok (popped s @ pins s @ lone (complete_take now rid (sp s))) (complete_take now rid (sp s))"
proof (cases "hget (inflight (sp s)) rid")
  case None
  with s show ?thesis by (simp add: complete_take_def leased_def holders_def)
next
  case (Some e)
  have ok: "held_ok (holders s) (sp s)" and inv: "pool_inv (sp s)" using s by (simp_all add: leased_def)
  let ?q = "complete_take now rid (sp s)"
  have wf: "hwf (inflight (sp s))" using pool_invD(1) [OF inv] by (simp add: maps_ok_def)
  obtain as bs where l: "lone (sp s) = as @ (if pe_session e = None then [entry_worker e] else []) @ bs"
    "lone ((sp s)\<lparr>inflight := hdel rid (inflight (sp s))\<rparr>) = as @ bs"
    by (rule lone_hdel [OF wf Some])
  have q: "lone ?q = as @ bs"
    using l(2) lone_cong [of ?q "(sp s)\<lparr>inflight := hdel rid (inflight (sp s))\<rparr>"] Some
    by (simp add: complete_take_def Let_def split: option.splits)
  show ?thesis
  proof (cases "pe_session e")
    case None
    have "held_ok (popped s @ pins s @ as @ bs) ((sp s)\<lparr>idle := idle (sp s) @ [entry_worker e]\<rparr>)"
      using ok gb Some None
      by (intro held_ok_give [OF ok, of "entry_worker e"]) (auto simp: holders_def l gives_back_def held_ok_def)
    moreover have "idle ?q = idle (sp s) @ [entry_worker e]" "liveness ?q = liveness (sp s)"
      "worker_sessions ?q = worker_sessions (sp s)"
      using Some None by (simp_all add: complete_take_def entry_worker_def)
    ultimately have "held_ok (popped s @ pins s @ as @ bs) ?q" by (simp add: held_ok_def)
    then show ?thesis by (simp add: q)
  next
    case (Some sid)
    have "keeps_free (sp s) ?q"
      by (rule keeps_free_same) (simp_all add: complete_take_def \<open>hget (inflight (sp s)) rid = Some e\<close> Some Let_def)
    moreover have "popped s @ pins s @ lone ?q = holders s" by (simp add: holders_def q l Some)
    ultimately show ?thesis using held_ok_same [OF ok] by simp
  qed
qed

lemma leased_result:
  assumes s: "leased s" and gb: "gives_back (res_request_id r) (sp s)"
  shows "leased (result_step r now s)"
proof -
  let ?rid = "res_request_id r"
  have inv: "pool_inv (sp s)" and ok: "held_ok (holders s) (sp s)" using s by (simp_all add: leased_def)
  have "returnable (entry_worker e) (sp s)"
    if "hget (inflight (sp s)) ?rid = Some e" "pe_session e = None" for e
  proof (rule held_returnable [OF ok])
    show "entry_worker e \<in> set (holders s)" using hget_in_set [OF that(1)] that(2)
      by (force simp: holders_def lone_def)
    show "on_connection (entry_worker e) (sp s)" using gb that by (simp add: gives_back_def)
  qed
  from complete_take_inv [OF inv this] held_complete [OF s gb] show ?thesis
    by (simp add: leased_def holders_def result_step_def Let_def)
qed

lemma leased_closed:
  assumes s: "leased s" and own: "closes_own w sid (sp s)"
  shows "leased (closed_step w sid error reusable now s)"
proof (cases "close_take now w sid error reusable (sp s)")
  case None
  with s show ?thesis by (simp add: closed_step_def)
next
  case (Some a)
  obtain out p where a: "a = (out, p)" by (cases a)
  have inv: "pool_inv (sp s)" using s by (simp add: leased_def)
  note ct = Some [unfolded a]
  have inf: "inflight p = hretain (\<lambda>_ e. pe_session e \<noteq> Some sid) (inflight (sp s))"
    by (rule close_take_cases [OF ct]) simp
  show ?thesis
    by (rule leased_retain [OF s, where P = "\<lambda>_ e. pe_session e \<noteq> Some sid"])
      (simp_all add: closed_step_def Some a inf close_take_inv [OF inv own ct] free_close_take [OF own ct])
qed

lemma leased_drop:
  assumes s: "leased s"
  shows "leased (drop_step w oom s)"
proof (rule leased_retain [OF s, where P = "\<lambda>_ e. pe_worker e \<noteq> w"])
  have t: "sp (drop_step w oom s) = snd (drop_inflight w (sp s))"
    by (simp add: drop_step_def case_prod_unfold Let_def)
  show "pool_inv (sp (drop_step w oom s))" unfolding t using s by (intro drop_inflight_inv) (simp add: leased_def)
  show "keeps_free (sp s) (sp (drop_step w oom s))" unfolding t by (rule free_sections(13))
  show "inflight (sp (drop_step w oom s)) = hretain (\<lambda>_ e. pe_worker e \<noteq> w) (inflight (sp s))"
    by (simp add: t drop_inflight_def)
qed (simp_all add: drop_step_def case_prod_unfold Let_def)

section \<open>The session-less API\<close>

lemma leasedI: "pool_inv (sp t) \<Longrightarrow> held_ok (popped t @ pins t @ lone (sp t)) (sp t) \<Longrightarrow> leased t"
  by (simp add: leased_def holders_def)

lemma remove1_split:
  assumes "x \<in> set xs"
  obtains as bs where "xs = as @ x # bs" "remove1 x xs = as @ bs"
proof -
  from assms obtain as bs where "xs = as @ x # bs" "x \<notin> set as" by (meson split_list_first)
  then show ?thesis using that by (simp add: remove1_append)
qed

lemma leased_take:
  assumes s: "leased s" shows "leased (take_step s)"
proof (cases "idle (sp s)")
  case Nil
  with s show ?thesis by (simp add: take_step_def pop_idle_def)
next
  case (Cons wk xs)
  have i: "pool_inv (sp s)" "held_ok (holders s) (sp s)" using s by (simp_all add: leased_def)
  from held_ok_take [OF i Cons] idle_take_inv [OF i(1) Cons] Cons show ?thesis
    by (simp add: leased_def holders_def take_step_def pop_idle_def)
qed

lemma leased_pin:
  assumes s: "leased s" shows "leased (pin_step ch s)"
proof (cases "idle (sp s)")
  case Nil
  with s show ?thesis by (simp add: pin_step_def acquire_pinned_def pop_idle_def)
next
  case (Cons wk xs)
  have i: "pool_inv (sp s)" "held_ok (holders s) (sp s)" using s by (simp_all add: leased_def)
  let ?p = "(sp s)\<lparr>idle := xs, pty_sessions := hput (we_id wk) ch (pty_sessions (sp s))\<rparr>"
  have "held_ok (wk # popped s @ pins s @ lone (sp s)) ?p"
    using held_ok_take [OF i Cons] by (simp add: holders_def held_ok_def)
  then have "held_ok (popped s @ (wk # pins s) @ lone (sp s)) ?p"
    by (auto simp: held_ok_def)
  moreover have "pool_inv ?p" by (rule pty_sessions_inv [OF idle_take_inv [OF i(1) Cons]])
  ultimately show ?thesis using Cons
    by (intro leasedI) (simp_all add: pin_step_def acquire_pinned_def pop_idle_def)
qed

lemma leased_back:
  assumes s: "leased s" and st: "back_step wk s = Some t" and on: "on_connection wk (sp s)"
  shows "leased t"
proof -
  have i: "pool_inv (sp s)" "held_ok (holders s) (sp s)" using s by (simp_all add: leased_def)
  from st have wk: "wk \<in> set (popped s)"
    and t: "t = s\<lparr>sp := (sp s)\<lparr>idle := wk # idle (sp s)\<rparr>, popped := remove1 wk (popped s)\<rparr>"
    by (auto simp: back_step_def split: if_splits)
  obtain as bs where l: "popped s = as @ wk # bs" "remove1 wk (popped s) = as @ bs" using wk by (rule remove1_split)
  have "held_ok ((as @ bs) @ pins s @ lone (sp s)) ((sp s)\<lparr>idle := wk # idle (sp s)\<rparr>)"
    by (rule held_ok_give [OF i(2) on]) (use i(2) in \<open>auto simp: holders_def l held_ok_def\<close>)
  moreover have "returnable wk (sp s)"
    using held_returnable [OF i(2) _ on] wk by (simp add: holders_def)
  ultimately show ?thesis using idle_return_inv [OF i(1)] by (intro leasedI) (simp_all add: t l(2))
qed

lemma leased_unpin:
  assumes s: "leased s" and st: "unpin_step wk s = Some t"
    and home: "hhas (liveness (sp s)) (we_id wk) \<longrightarrow> on_connection wk (sp s)"
  shows "leased t"
proof -
  have i: "pool_inv (sp s)" "held_ok (holders s) (sp s)" using s by (simp_all add: leased_def)
  let ?p = "(sp s)\<lparr>pty_sessions := hdel (we_id wk) (pty_sessions (sp s))\<rparr>"
  from st have wk: "wk \<in> set (pins s)"
    and t: "t = s\<lparr>sp := release_pinned wk (sp s), pins := remove1 wk (pins s)\<rparr>"
    by (auto simp: unpin_step_def split: if_splits)
  obtain as bs where l: "pins s = as @ wk # bs" "remove1 wk (pins s) = as @ bs" using wk by (rule remove1_split)
  let ?hs = "popped s @ pins s @ lone (sp s)" and ?hs' = "popped s @ (as @ bs) @ lone (sp s)"
  have sub: "set ?hs' \<subseteq> set ?hs" by (auto simp: l)
  have d: "distinct (map (\<lambda>h. (we_id h, we_sink h)) (wk # ?hs'))" using i(2) by (auto simp: held_ok_def holders_def l)
  have p: "pool_inv ?p" by (rule pty_sessions_inv [OF i(1)])
  have ok: "held_ok ?hs ?p" using i(2) by (simp add: holders_def held_ok_def)
  show ?thesis
  proof (cases "hhas (liveness (sp s)) (we_id wk)")
    case False
    have "held_ok ?hs' ?p" by (rule held_ok_keep [OF ok keeps_free_refl sub]) (use d in simp)
    with p False show ?thesis by (intro leasedI) (simp_all add: t l(2) release_pinned_def)
  next
    case True
    with home have on: "on_connection wk ?p" by (simp add: on_connection_def)
    have "held_ok ?hs' (?p\<lparr>idle := idle ?p @ [wk]\<rparr>)"
      by (rule held_ok_give [OF ok on _ sub d]) simp
    moreover have "returnable wk ?p" by (rule held_returnable [OF ok _ on]) (use wk in simp)
    then have "pool_inv (?p\<lparr>idle := idle ?p @ [wk]\<rparr>)" using idle_return_inv [OF p] by blast
    ultimately show ?thesis using True by (intro leasedI) (simp_all add: t l(2) release_pinned_def)
  qed
qed

lemma leased_exec:
  assumes inv: "sys_inv s" and st: "exec_step wk rid t0 now s = Some t"
  shows "leased t"
proof -
  note i = sys_invD [OF inv]
  from st have wk: "wk \<in> set (popped s)" and new: "rid \<notin> set (issued s)"
    and t: "t = s\<lparr>sp := dispatch_register wk rid t0 now (sp s), popped := remove1 wk (popped s),
      issued := rid # issued s, unsent := rid # unsent s\<rparr>"
    by (auto simp: exec_step_def split: if_splits)
  let ?p = "dispatch_register wk rid t0 now (sp s)"
  have fresh: "hget (handles (sp s)) rid = None" using i(2) new by (auto simp: ids_ok_def hhas_def)
  have free: "hget (inflight (sp s)) rid = None" by (rule core_fresh [OF pool_inv_core [OF i(1)] fresh])
  obtain as bs where l: "popped s = as @ wk # bs" "remove1 wk (popped s) = as @ bs" using wk by (rule remove1_split)
  have "lone ?p = lone (sp s) @ [wk]" using free by (simp add: dispatch_register_def lone_hput entry_worker_def)
  then have h: "holders s = as @ wk # bs @ pins s @ lone (sp s)" "holders t = as @ bs @ pins s @ lone (sp s) @ [wk]"
    by (simp_all add: holders_def t l(2)) (simp add: l(1))
  have "distinct (map (\<lambda>h. (we_id h, we_sink h)) (holders s))" using i(6) by (simp add: held_ok_def)
  then have "held_ok (holders t) ?p"
    by (intro held_ok_keep [OF i(6) keeps_free_same]) (auto simp: h dispatch_register_def)
  moreover have "pool_inv ?p" by (rule dispatch_register_inv [OF i(1) fresh])
  ultimately show ?thesis by (simp add: leased_def t)
qed

lemma leased_exec_sent:
  assumes s: "leased s" and st: "exec_sent_step rid r s = Some t"
  shows "leased t"
proof (cases "r = Sent")
  case True
  with st show ?thesis by (intro leased_cong [OF s]) (auto simp: exec_sent_step_def split: if_splits)
next
  case False
  with st have t: "t = s\<lparr>sp := dispatch_forget rid (sp s), unsent := removeAll rid (unsent s)\<rparr>"
    by (auto simp: exec_sent_step_def split: if_splits)
  have "pool_inv (sp s)" using s by (simp add: leased_def)
  from pool_inv_forget [OF this, of rid] have inv: "pool_inv (sp t)" by (simp add: t)
  show ?thesis
  proof (rule leased_retain [OF s _ _ inv, where P = "\<lambda>x _. x \<noteq> rid"])
    show "inflight (sp t) = hretain (\<lambda>x _. x \<noteq> rid) (inflight (sp s))" by (simp add: t flip: hdel_as_hretain)
  qed (simp_all add: t keeps_free_same)
qed

lemma leased_register:
  assumes s: "leased s" and fresh: "c \<notin> we_sink ` set (holders s)"
    and reg: "register_worker now w profile loc c (sp s) = Inr q"
  shows "leased (s\<lparr>sp := q\<rparr>)"
proof -
  have i: "pool_inv (sp s)" "held_ok (holders s) (sp s)" using s by (simp_all add: leased_def)
  have "inflight q = inflight (sp s)" using reg by (auto simp: register_worker_def split: if_splits)
  then have "lone q = lone (sp s)" by (rule lone_cong)
  with held_ok_register [OF i(2) reg fresh] register_worker_inv [OF i(1) reg] show ?thesis
    by (simp add: leased_def holders_def)
qed

section \<open>The session API\<close>

lemma leased_create:
  assumes inv: "sys_inv s" and st: "apply_event (CreateBegin profile op ready now) s = Some t"
  shows "leased t"
proof -
  note i = sys_invD [OF inv]
  have s: "leased s" using inv by (simp add: sys_inv_def)
  from st have new: "open_session_id op \<notin> set (opened_ids s)" by (simp split: if_splits)
  then have fresh: "fresh_session (open_session_id op) (sp s)"
    using i(2) pool_invD(1) [OF i(1)]
    by (auto simp: ids_ok_def fresh_session_def maps_ok_def session_commands_Nil hhas_def in_set_hget)
  obtain r q where cr: "create_reserve now profile op ready (sp s) = (r, q)" by fastforce
  show ?thesis
  proof (cases r)
    case (Inl e)
    with st cr new show ?thesis by (intro leased_cong [OF s]) auto
  next
    case (Inr wk)
    have inf: "inflight q = inflight (sp s)" by (rule create_reserve_cases [OF cr [unfolded Inr]]) simp
    have t: "sp t = q" "popped t = popped s" "pins t = pins s" using st cr new Inr by auto
    show ?thesis
      by (rule leased_section [OF s])
        (simp_all add: t inf create_reserve_inv [OF i(1) fresh cr] free_reserve [OF cr [unfolded Inr]])
  qed
qed

lemma leased_submit:
  assumes inv: "sys_inv s" and st: "register_step sid t0 now s = Some t"
  shows "leased t"
proof -
  note i = sys_invD [OF inv]
  have s: "leased s" using inv by (simp add: sys_inv_def)
  obtain cap rid cmd mode where h: "hget (locks s) sid = Some (HoldSubmit cap rid cmd mode)"
    and new: "rid \<notin> set (issued s)"
    using st by (auto simp: register_step_def split: option.splits holder.splits if_splits)
  have cap: "captured_ok sid cap (sp s)" using i(3) h unfolding locks_ok_def by force
  have fresh: "hget (handles (sp s)) rid = None" using i(2) new by (auto simp: ids_ok_def hhas_def)
  obtain res p where reg: "submit_register t0 now cap sid rid mode (sp s) = (res, p)" by fastforce
  have "hget (inflight (sp s)) rid = None" by (rule core_fresh [OF pool_inv_core [OF i(1)] fresh])
  then have "lone p = lone (sp s)" using reg by (auto simp: submit_register_def lone_hput split: option.splits)
  moreover have "keeps_free (sp s) p" using free_sections(14) [of "sp s" t0 now cap sid rid mode] reg by simp
  ultimately have "leased (s\<lparr>sp := p\<rparr>)"
    using submit_register_inv [OF i(1) fresh cap reg] held_ok_same [OF i(6)] by (simp add: leased_def holders_def)
  then show ?thesis by (rule leased_cong) (use st h new reg in \<open>auto simp: register_step_def split: option.splits\<close>)
qed

lemma leased_close:
  assumes s: "leased s" and st: "close_step gate sid ch s = Some t"
  shows "leased t"
proof -
  have inv: "pool_inv (sp s)" using s by (simp add: leased_def)
  have t: "sp t = snd (close_begin gate ch sid (sp s))" "popped t = popped s" "pins t = pins s"
    using st by (auto simp: close_step_def split: if_splits prod.splits close_step.splits bool.splits)
  show ?thesis
    by (rule leased_section [OF s]) (simp_all add: t close_begin_inv [OF inv] close_begin_inflight free_sections)
qed

lemma leased_finish:
  assumes inv: "sys_inv s" and st: "finish_step rid now s = Some t"
  shows "leased t"
proof -
  note i = sys_invD [OF inv]
  have s: "leased s" using inv by (simp add: sys_inv_def)
  obtain x how rest where tf: "take_first (\<lambda>(x, _). x = rid) (finishing s) = Some ((x, how), rest)"
    and t: "t = s\<lparr>sp := fst (finish_row (outcome_row how now) rid (sp s)), finishing := rest\<rparr>"
    using st by (auto simp: finish_step_def split: option.splits)
  have "(rid, how) \<in> set (finishing s)" by (rule take_first_Some [OF tf]) auto
  note fin = finishing_okD [OF i(4) this]
  show ?thesis
    by (rule leased_section [OF s])
      (simp_all add: t finish_row_inv [OF i(1) outcome_row_finisher [OF fin(3)] fin(1)] free_sections)
qed

lemma leased_purge:
  assumes s: "leased s" and row: "hget (handles (sp s)) rid = Some row" "hr_status row \<noteq> Running"
  shows "leased (s\<lparr>sp := fst (purge_handle rid (sp s))\<rparr>)"
proof -
  have inv: "pool_inv (sp s)" using s by (simp add: leased_def)
  have "\<not> hhas (inflight (sp s)) rid" using pool_inv_rowD(2) [OF inv row(1)] row(2) by blast
  from purge_handle_inv [OF inv this] show ?thesis
    by (intro leased_section [OF s]) (simp_all add: free_sections, simp add: purge_handle_def)
qed

section \<open>Every orderly step keeps the leases\<close>

lemmas keeps_inv = touch_worker_inv session_ready_inv attach_terminal_inv detach_terminal_inv
  cancel_request_inv poll_row_inv touch_session_inv list_session_commands_inv mark_spool_failed_inv
  drop_worker_inv retain_sessions_inv

lemmas keeps_leases = keeps_inv same_inflight free_sections free_touch_worker free_drop_worker

lemma leased_created:
  assumes s: "leased s" and st: "apply_event (CreateDone sid now) s = Some t"
  shows "leased t"
proof -
  obtain r q where q: "created_session_snapshot now sid (sp s) = (r, q)" by fastforce
  have inv: "pool_inv (sp s)" using s by (simp add: leased_def)
  have t: "sp t = q" "popped t = popped s" "pins t = pins s" using st q by (auto split: if_splits sum.splits)
  from created_snapshot_pool [OF q] show ?thesis
    by (elim disjE) (auto simp: t keeps_leases inv intro: leased_cong [OF s] leased_section [OF s])
qed

lemma leased_step:
  assumes inv: "sys_inv s" and st: "orderly_step s e t"
  shows "leased t"
proof -
  have s: "leased s" and p: "pool_inv (sp s)" using inv by (simp_all add: sys_inv_def leased_def)
  have st': "apply_event e s = Some t" and o: "orderly s e" using st by (simp_all add: orderly_step_def sys_step_def)
  have plain: "leased (set_pool f s)" if "pool_inv (f (sp s))" "inflight (f (sp s)) = inflight (sp s)"
      "keeps_free (sp s) (f (sp s))" for f
    by (rule leased_section [OF s]) (use that in \<open>simp_all add: set_pool_def\<close>)
  show ?thesis
  proof (cases e)
    case (RegisterEv w profile loc c now)
    with st' leased_register [OF s] s show ?thesis by (auto split: if_splits sum.splits)
  next
    case (CreateBegin profile op ready now)
    with st' leased_create [OF inv] show ?thesis by blast
  next
    case (CreateDone sid now)
    with st' leased_created [OF s] show ?thesis by blast
  next
    case (PurgeEv rid)
    with st' leased_purge [OF s] s show ?thesis by (auto simp: set_pool_def split: option.splits if_splits)
  next
    case (ClosedEv w sid error reusable now)
    with st' o leased_closed [OF s] show ?thesis by auto
  next
    case (SubmitRegister sid t0 now)
    with st' leased_submit [OF inv] show ?thesis by simp
  next
    case (CloseBegin gate sid ch)
    with st' leased_close [OF s] show ?thesis by simp
  next
    case (FinishEv rid now)
    with st' leased_finish [OF inv] show ?thesis by simp
  next
    case (ResultEv w r now)
    with st' o leased_result [OF s] show ?thesis by auto
  next
    case (DropRequests w oom)
    with st' leased_drop [OF s] show ?thesis by auto
  next
    case ExecTake
    with st' leased_take [OF s] show ?thesis by auto
  next
    case (ExecBack wk)
    with st' o leased_back [OF s] show ?thesis by simp
  next
    case (ExecRegister wk rid t0 now)
    with st' leased_exec [OF inv] show ?thesis by simp
  next
    case (ExecSend rid r)
    with st' leased_exec_sent [OF s] show ?thesis by simp
  next
    case (PinEv ch)
    with st' leased_pin [OF s] show ?thesis by auto
  next
    case (UnpinEv wk)
    with st' o leased_unpin [OF s] show ?thesis by simp
  next
    case (CreateFail sid)
    with st' show ?thesis by (intro leased_cong [OF s]) (auto split: if_splits)
  next
    case (SubmitCheck sid rid cmd mode)
    with st' show ?thesis by (intro leased_cong [OF s]) (auto simp: submit_step_def split: if_splits sum.splits)
  next
    case (SubmitSend sid r)
    with st' show ?thesis by (intro leased_cong [OF s]) (auto simp: send_run_step_def split: option.splits holder.splits)
  next
    case (CloseSend sid r)
    with st' show ?thesis by (intro leased_cong [OF s]) (auto simp: send_close_step_def split: option.splits holder.splits)
  next
    case (AttachEv sid ch now)
    then have "t = set_pool (\<lambda>p. snd (attach_terminal now ch sid p)) s" using st' by (simp split: if_splits)
    then show ?thesis by (simp add: plain keeps_leases p)
  qed (use st' in \<open>auto simp: plain keeps_leases p\<close>)
qed

lemma sys_inv_step: "sys_inv s \<Longrightarrow> orderly_step s e t \<Longrightarrow> sys_inv t"
  using leased_step [of s e t] sys_core_step [of s e t] unfolding sys_inv_def orderly_step_def by blast

interpretation lease: step_invariant init_sys orderly_step sys_inv
  by unfold_locales (fact init_sys_inv, fact sys_inv_step)

end
