(* ===== verification/PoolProps.thy ===== *)
theory PoolProps
  imports PoolLease
begin

text \<open>
  The properties of the pool: those of its reachable states, over every interleaving of the session
  API, the worker connections and the sweeper, and those of single handlers, for every world.  The
  properties of leases speak of orderly runs (\<open>PoolLease\<close>), the others of all runs.
\<close>

section \<open>A concrete trace\<close>

text \<open>One worker registers, a session is created on it and answers, and a stateful command is
  submitted and sent; the witnesses of the properties below are states of this trace.\<close>

definition demo_w :: worker_id where "demo_w = WorkerId ''w''"
definition demo_s :: session_id where "demo_s = SessionId ''s''"
definition demo_c :: exec_id where "demo_c = ExecId ''c''"

definition demo_open :: session_open_frame where
  "demo_open = \<lparr>open_session_id = demo_s, open_working_dir = ''/'', open_env = [],
     open_drop_to = None, open_cols = 80, open_rows = 24\<rparr>"

definition demo_start :: "event list" where
  "demo_start = [RegisterEv demo_w ''default'' None 7 1, CreateBegin ''default'' demo_open 1 2,
     ReadyEv demo_w demo_s None 3, CreateDone demo_s 4]"

definition demo_run :: "event list" where
  "demo_run = demo_start @ [SubmitCheck demo_s demo_c ''ls'' Stateful, SubmitRegister demo_s 5 6,
     SubmitSend demo_s Sent]"

definition demo_closed :: "event list" where
  "demo_closed = demo_run @ [CloseBegin None demo_s 2, CloseSend demo_s Sent,
     ClosedEv demo_w demo_s None True 8, FinishEv demo_c 9]"

definition demo :: "event list \<Rightarrow> sys" where
  "demo es = the (run_events es empty_sys)"

lemma demo_run_orderly:
  "run_orderly demo_run empty_sys = Some (demo demo_run)"
  "run_orderly demo_closed empty_sys = Some (demo demo_closed)"
  "run_orderly demo_start empty_sys = Some (demo demo_start)"
proof -
  have "run_orderly demo_run empty_sys \<noteq> None \<and> run_orderly demo_closed empty_sys \<noteq> None
    \<and> run_orderly demo_start empty_sys \<noteq> None"
    by code_simp
  then show "run_orderly demo_run empty_sys = Some (demo demo_run)"
    "run_orderly demo_closed empty_sys = Some (demo demo_closed)"
    "run_orderly demo_start empty_sys = Some (demo demo_start)"
    unfolding demo_def using run_orderly_the by blast+
qed

lemmas demo_orderly = demo_run_orderly [THEN run_orderly_reachable]

lemmas demo_run_some = demo_run_orderly [THEN run_orderly_events]

lemmas demo_reachable = demo_run_some [THEN run_events_reachable]


section \<open>Reachable states\<close>

lemma owner_ok_session:
  assumes "owner_ok p" "hget (worker_sessions p) w = Some sid" "hget (sessions p) sid = Some r"
  shows "\<exists>l. hget (liveness p) w = Some l \<and> lv_profile l = sr_profile r \<and> lv_shutdown l = sr_sink r"
  using assms unfolding owner_ok_def by metis

text \<open>
  C1: A worker belongs to at most one live session: in every orderly run, that is, as long as a worker reports
  only the session it holds as closed and no worker is given back after the connection it was taken on was lost,
  and whatever the clients and the sweeper do, two sessions that are opening, active or closing on the same worker
  are the same session; that worker is registered, under the profile and on the socket the session recorded, and
  is not in the idle queue.
\<close>

theorem one_live_session_per_worker:
  assumes "reachable init_sys orderly_step s"
    and "hget (sessions (sp s)) sid = Some r" and "live_state (sr_state r)"
    and "hget (sessions (sp s)) sid' = Some r'" and "live_state (sr_state r')"
    and "sr_worker r' = sr_worker r"
  shows "sid' = sid \<and> sr_worker r \<notin> we_id ` set (idle (sp s)) \<and>
    (\<exists>l. hget (liveness (sp s)) (sr_worker r) = Some l \<and> lv_profile l = sr_profile r
         \<and> lv_shutdown l = sr_sink r)"
proof -
  note i = pool_invD [OF sys_invD(1) [OF lease.inv_reachable [OF assms(1)]]]
  have w: "hget (worker_sessions (sp s)) (sr_worker r) = Some sid"
    using sessions_okD [OF i(4) assms(2)] assms(3) by (simp add: session_ok_def)
  have w': "hget (worker_sessions (sp s)) (sr_worker r) = Some sid'"
    using sessions_okD [OF i(4) assms(4)] assms(5,6) by (simp add: session_ok_def)
  have "sr_worker r \<notin> we_id ` set (idle (sp s))" using i(2) w by (auto simp: idle_ok_def)
  moreover from owner_ok_session [OF i(3) w assms(2)]
  have "\<exists>l. hget (liveness (sp s)) (sr_worker r) = Some l \<and> lv_profile l = sr_profile r
    \<and> lv_shutdown l = sr_sink r" by blast
  ultimately show ?thesis using w w' by simp
qed

theorem one_live_session_per_worker_witness:
  "demo_w \<notin> we_id ` set (idle (sp (demo demo_run)))"
proof -
  obtain r where r: "hget (sessions (sp (demo demo_run))) demo_s = Some r" "live_state (sr_state r)"
    "sr_worker r = demo_w"
  proof -
    have "case hget (sessions (sp (demo demo_run))) demo_s of None \<Rightarrow> False
      | Some r \<Rightarrow> live_state (sr_state r) \<and> sr_worker r = demo_w" by code_simp
    then show thesis using that by (auto split: option.splits)
  qed
  from one_live_session_per_worker [OF demo_orderly(1) r(1,2) r(1,2) refl] r(3) show ?thesis by simp
qed

text \<open>
  In every orderly run the idle queue holds only workers that may be given out: every entry is a different worker, is
  registered, holds no session, and carries the profile and the socket it registered with.
\<close>

theorem idle_workers_available:
  assumes "reachable init_sys orderly_step s" and "w \<in> set (idle (sp s))"
  shows "distinct (map we_id (idle (sp s))) \<and> hget (worker_sessions (sp s)) (we_id w) = None \<and>
    (\<exists>l. hget (liveness (sp s)) (we_id w) = Some l \<and> lv_profile l = we_profile w
         \<and> lv_shutdown l = we_sink w) \<and>
    \<not> (\<exists>sid r. hget (sessions (sp s)) sid = Some r \<and> live_state (sr_state r) \<and> sr_worker r = we_id w)"
proof -
  note i = pool_invD [OF sys_invD(1) [OF lease.inv_reachable [OF assms(1)]]]
  have d: "distinct (map we_id (idle (sp s)))" using i(2) by (simp add: idle_ok_def)
  obtain l where l: "hget (liveness (sp s)) (we_id w) = Some l" "lv_profile l = we_profile w"
    "lv_shutdown l = we_sink w" and n: "hget (worker_sessions (sp s)) (we_id w) = None"
    using idle_entryD [OF i(2) assms(2)] by blast
  have "\<not> live_state (sr_state r)"
    if "hget (sessions (sp s)) sid = Some r" "sr_worker r = we_id w" for sid r
    using sessions_okD [OF i(4) that(1)] that(2) n by (auto simp: session_ok_def)
  with d l n show ?thesis by blast
qed

theorem idle_workers_available_witness:
  "\<not> (\<exists>sid r. hget (sessions (sp (demo demo_closed))) sid = Some r \<and> live_state (sr_state r)
      \<and> sr_worker r = demo_w)"
proof -
  have "\<lparr>we_id = demo_w, we_profile = ''default'', we_sink = 7\<rparr> \<in> set (idle (sp (demo demo_closed)))"
    by code_simp
  from idle_workers_available [OF demo_orderly(2) this] show ?thesis by simp
qed

text \<open>
  C13: The tables of the pool are well formed: a handle is stored under its own id and is running exactly
  as long as it has no end and no cause, and before it ends it has no exit and is not cancelled; a request
  in flight refers to a running handle that names the same worker and the same session, if any, and the
  request of a session runs on the worker of that session.
\<close>

theorem reachable_tables_well_formed:
  assumes "reachable init_sys sys_step s"
  shows "(\<forall>rid row. hget (handles (sp s)) rid = Some row \<longrightarrow> hr_id row = rid \<and>
      (hr_status row = Running \<longleftrightarrow> hr_finished row = None) \<and> (hr_status row = Running \<longleftrightarrow> hr_cause row = None) \<and>
      (hr_status row = Running \<longrightarrow> hr_exit_code row = None \<and> hr_exit_signal row = None \<and> \<not> hr_cancelled row)) \<and>
    (\<forall>rid e. hget (inflight (sp s)) rid = Some e \<longrightarrow>
      (\<exists>row. hget (handles (sp s)) rid = Some row \<and> hr_status row = Running \<and> hr_worker row = pe_worker e \<and>
        hr_session row = pe_session e \<and>
        (\<forall>sid r. pe_session e = Some sid \<longrightarrow> hget (sessions (sp s)) sid = Some r \<longrightarrow> sr_worker r = pe_worker e)))"
proof -
  note i = pool_coreD [OF sys_coreD(1) [OF ps.inv_reachable [OF assms]]]
  from i(4) have "row_ok rid row" if "hget (handles (sp s)) rid = Some row" for rid row
    using that by (simp add: rows_ok_def)
  with i(2) show ?thesis unfolding requests_ok_def row_ok_def by meson
qed

theorem reachable_tables_well_formed_witness:
  "\<exists>row. hget (handles (sp (demo demo_run))) demo_c = Some row \<and> hr_finished row = None \<and> hr_worker row = demo_w"
proof -
  have "case hget (inflight (sp (demo demo_run))) demo_c of None \<Rightarrow> False | Some e \<Rightarrow> pe_worker e = demo_w" by code_simp
  then obtain e where e: "hget (inflight (sp (demo demo_run))) demo_c = Some e" "pe_worker e = demo_w"
    by (auto split: option.splits)
  from reachable_tables_well_formed [OF demo_reachable(1)] e show ?thesis by metis
qed

text \<open>
  C12: A terminal and a stateful command never share a session's shell: while a terminal is attached
  the session is active or closing and no stateful command of it is in flight, and the session's
  counter of stateful commands never undercounts.
\<close>

theorem terminal_excludes_stateful:
  assumes "reachable init_sys sys_step s" and "hget (sessions (sp s)) sid = Some r"
  shows "hcount (\<lambda>_ e. pe_session e = Some sid \<and> pe_mode e = Stateful) (inflight (sp s))
      \<le> sr_stateful r \<and>
    (sr_terminal r \<noteq> None \<longrightarrow> sr_state r \<in> {Active, Closing} \<and>
      (\<forall>(rid, e) \<in> set (inflight (sp s)). \<not> (pe_session e = Some sid \<and> pe_mode e = Stateful)))"
proof -
  note k = core_terminalD [OF sys_coreD(1) [OF ps.inv_reachable [OF assms(1)]] assms(2)]
  from k show ?thesis by (auto simp: stateful_of_def hcount_zero)
qed

theorem terminal_excludes_stateful_witness:
  "\<exists>r. hget (sessions (sp (demo demo_run))) demo_s = Some r \<and> 1 \<le> sr_stateful r"
proof -
  have "case hget (sessions (sp (demo demo_run))) demo_s of None \<Rightarrow> False | Some r \<Rightarrow> True"
    and one: "hcount (\<lambda>_ e. pe_session e = Some demo_s \<and> pe_mode e = Stateful)
      (inflight (sp (demo demo_run))) = 1"
    by code_simp+
  then obtain r where "hget (sessions (sp (demo demo_run))) demo_s = Some r"
    by (auto split: option.splits)
  with terminal_excludes_stateful [OF demo_reachable(1) this] one show ?thesis by auto
qed

text \<open>
  C7: No running command is forgotten: a handle that is still running is either in flight, on the
  worker and in the session it names, or its outcome is already known and a task is about to write
  it.
\<close>

theorem running_handle_accounted:
  assumes "reachable init_sys sys_step s"
    and "hget (handles (sp s)) rid = Some row" and "hr_status row = Running"
  shows "(\<exists>e. hget (inflight (sp s)) rid = Some e \<and> pe_worker e = hr_worker row
        \<and> pe_session e = hr_session row) \<or>
    (\<exists>how. (rid, how) \<in> set (finishing s) \<and> hr_status (outcome_row how 0 row) \<noteq> Running)"
proof -
  note k = sys_coreD [OF ps.inv_reachable [OF assms(1)]]
  note i = pool_coreD [OF k(1)]
  from k(4) assms(2,3) have "hhas (inflight (sp s)) rid \<or> rid \<in> fst ` set (finishing s)"
    by (simp add: finishing_ok_def)
  then show ?thesis
  proof
    assume "hhas (inflight (sp s)) rid"
    then obtain e where e: "hget (inflight (sp s)) rid = Some e" by (auto simp: hhas_def)
    obtain row' where "hget (handles (sp s)) rid = Some row'" "hr_worker row' = pe_worker e"
      "hr_session row' = pe_session e"
      by (rule requests_okD [OF i(2) e])
    with e assms(2) show ?thesis by simp
  next
    assume "rid \<in> fst ` set (finishing s)"
    then obtain how where "(rid, how) \<in> set (finishing s)" by auto
    with finishing_okD(3) [OF k(4) this] outcome_row_finisher show ?thesis
      by (auto simp: finisher_def)
  qed
qed

theorem running_handle_accounted_witness:
  "\<exists>e. hget (inflight (sp (demo demo_run))) demo_c = Some e \<and> pe_worker e = demo_w"
proof -
  have ok: "case hget (handles (sp (demo demo_run))) demo_c of None \<Rightarrow> False
      | Some row \<Rightarrow> hr_status row = Running \<and> hr_worker row = demo_w"
    and none: "finishing (demo demo_run) = []" by code_simp+
  then obtain row where row: "hget (handles (sp (demo demo_run))) demo_c = Some row"
    "hr_status row = Running" and w: "hr_worker row = demo_w" by (auto split: option.splits)
  from running_handle_accounted [OF demo_reachable(1) row] none w show ?thesis by auto
qed

text \<open>
  C6: An outcome is written once: when a handle has finished, no later Result, cancel, close, loss of
  the worker or poll changes its status, end time, exit code, signal, cause or cancelled flag; it can
  only disappear.
\<close>

theorem finished_handle_is_final:
  assumes "reachable init_sys sys_step s" and "run sys_step s es t"
    and "hget (handles (sp s)) rid = Some row" and "hr_status row \<noteq> Running"
    and "hget (handles (sp t)) rid = Some row'"
  shows "outcome_of row' = outcome_of row"
proof -
  have inv: "sys_core s" by (rule ps.inv_reachable [OF assms(1)])
  have "handle_settled (rid, row) s"
    using assms(3,4) ids_okD(4) [OF sys_coreD(2) [OF inv] assms(3)]
    by (simp add: handle_settled_def)
  from settled.fact_run [OF assms(2) inv this] assms(5) show ?thesis
    by (simp add: handle_settled_def)
qed

definition late_result :: result_frame where
  "late_result = \<lparr>res_request_id = demo_c, res_exit_code = Some 0, res_exit_signal = None,
     res_cancelled = False, res_usage = default_usage, res_error = None\<rparr>"

definition demo_late :: "event list" where
  "demo_late = [ResultEv demo_w late_result 10, FinishEv demo_c 11]"

theorem finished_handle_is_final_witness:
  "\<exists>row row'. hget (handles (sp (demo demo_closed))) demo_c = Some row \<and> hr_cause row = Some Cancelled \<and>
     hget (handles (sp (the (run_events demo_late (demo demo_closed))))) demo_c = Some row' \<and>
     outcome_of row' = outcome_of row"
proof -
  let ?t = "the (run_events demo_late (demo demo_closed))"
  have "run_events demo_late (demo demo_closed) \<noteq> None"
    and a: "case hget (handles (sp (demo demo_closed))) demo_c of None \<Rightarrow> False
      | Some row \<Rightarrow> hr_status row \<noteq> Running \<and> hr_cause row = Some Cancelled"
    and b: "hhas (handles (sp ?t)) demo_c" by code_simp+
  then have r: "run sys_step (demo demo_closed) demo_late ?t"
    by (simp add: run_events_run [symmetric])
  from a obtain row where row: "hget (handles (sp (demo demo_closed))) demo_c = Some row"
    "hr_status row \<noteq> Running" "hr_cause row = Some Cancelled" by (auto split: option.splits)
  from b obtain row' where row': "hget (handles (sp ?t)) demo_c = Some row'" by (auto simp: hhas_def)
  from finished_handle_is_final [OF demo_reachable(2) r row(1,2) row'] row row' show ?thesis by blast
qed


text \<open>
  C27: The session lock orders the frames: once \<open>SessionClose\<close> of a session was sent by a release, no
  further \<open>SessionRun\<close> and no second \<open>SessionClose\<close> of that session is ever sent.
\<close>

theorem close_is_last_frame:
  assumes "reachable init_sys sys_step s" and "wire s = as @ (sid, WireClose) # bs"
  shows "sid \<notin> fst ` set bs"
proof -
  have "closes_last (wire s)"
    using sys_coreD(5) [OF ps.inv_reachable [OF assms(1)]] by (simp add: wire_ok_def)
  then have "closes_last (as @ (sid, WireClose) # bs)" by (simp add: assms(2))
  then show ?thesis by (induction as rule: closes_last.induct) auto
qed

theorem close_is_last_frame_witness:
  "\<exists>as bs. wire (demo demo_closed) = as @ (demo_s, WireClose) # bs \<and> as = [(demo_s, WireRun demo_c)]
     \<and> demo_s \<notin> fst ` set bs"
proof -
  have w: "wire (demo demo_closed) = [(demo_s, WireRun demo_c)] @ (demo_s, WireClose) # []"
    by code_simp
  from close_is_last_frame [OF demo_reachable(2) w] w show ?thesis by blast
qed

text \<open>
  A session that ended stays ended, and in orderly runs holds nothing of the client: after it was closed or failed
  no step makes it live again, and its record, while it is still listed, has an end time, no terminal,
  no environment, no working directory and no identity to drop to.
\<close>

theorem ended_session_stays_ended:
  assumes "reachable init_sys orderly_step s" and "run orderly_step s es t"
    and "hget (sessions (sp s)) sid = Some r" and "\<not> live_state (sr_state r)"
    and "hget (sessions (sp t)) sid = Some r'"
  shows "\<not> live_state (sr_state r') \<and> sr_finished r' \<noteq> None \<and> sr_terminal r' = None
    \<and> sr_env r' = [] \<and> sr_workdir r' = [] \<and> sr_drop_to r' = None"
proof -
  have inv: "sys_inv s" by (rule lease.inv_reachable [OF assms(1)])
  have steps: "run sys_step s es t" by (rule orderly_run [OF assms(2)])
  have "session_ended sid s"
    using assms(3,4) ids_okD(1) [OF sys_invD(2) [OF inv] assms(3)] by (simp add: session_ended_def)
  from ended.fact_run [OF steps sys_inv_core [OF inv] this] assms(5) have e: "\<not> live_state (sr_state r')"
    by (simp add: session_ended_def)
  have "session_ok (sp t) sid r'"
    using sessions_okD [OF pool_invD(4) [OF sys_invD(1) [OF lease.inv_run [OF assms(2) inv]]] assms(5)] .
  with e show ?thesis by (simp add: session_ok_def)
qed

theorem ended_session_stays_ended_witness:
  "\<exists>r'. hget (sessions (sp (the (run_events [SnapshotEv demo_s 12, AttachEv demo_s 3 13] (demo demo_closed)))))
      demo_s = Some r' \<and> sr_terminal r' = None \<and> sr_workdir r' = []"
proof -
  let ?t = "the (run_events [SnapshotEv demo_s 12, AttachEv demo_s 3 13] (demo demo_closed))"
  have "run_orderly [SnapshotEv demo_s 12, AttachEv demo_s 3 13] (demo demo_closed) \<noteq> None"
    and a: "case hget (sessions (sp (demo demo_closed))) demo_s of None \<Rightarrow> False
      | Some r \<Rightarrow> \<not> live_state (sr_state r)"
    and b: "hhas (sessions (sp ?t)) demo_s" by code_simp+
  then have r: "run orderly_step (demo demo_closed) [SnapshotEv demo_s 12, AttachEv demo_s 3 13] ?t"
    unfolding run_orderly_run [symmetric] by (intro run_orderly_the) simp_all
  from a obtain r where "hget (sessions (sp (demo demo_closed))) demo_s = Some r"
    "\<not> live_state (sr_state r)" by (auto split: option.splits)
  moreover from b obtain r' where "hget (sessions (sp ?t)) demo_s = Some r'" by (auto simp: hhas_def)
  ultimately show ?thesis using ended_session_stays_ended [OF demo_orderly(2) r] by blast
qed

section \<open>Single handlers\<close>

text \<open>
  A creation reports success only for a session that really is usable: for every behaviour of the
  other tasks during the handler, when \<open>create_session\<close> answers with a snapshot, the session is active
  in the pool at that moment, its worker is registered and holds exactly this session, and the
  snapshot describes it; the \<open>SessionOpen\<close> frame was the only effect.
\<close>

theorem create_session_success:
  assumes "create_session cfg W ready profile op p = (Inr sn, p', fx)"
  shows "\<exists>r sink. hget (sessions p') (open_session_id op) = Some r \<and> sr_state r = Active \<and>
    hhas (liveness p') (sr_worker r) \<and>
    hget (worker_sessions p') (sr_worker r) = Some (open_session_id op) \<and>
    sn = session_snap (open_session_id op) r \<and> fx = [SendFrame sink (Text (SessionOpen op))]"
  using assms
  by (auto simp: create_session_def Let_def created_session_snapshot_def touch_session_def
      session_snap_def split: sum.splits prod.splits option.splits ready_wait.splits if_splits)

definition demo_world :: "pool \<Rightarrow> world" where
  "demo_world p = \<lparr>w_wait = (\<lambda>k q. q), w_yield = (\<lambda>k q. if k = 1 then fst (session_ready 3 demo_w demo_s None q) else q),
     w_clock = (\<lambda>k. k), w_send = Sent, w_setup = None, w_serialize = None, w_ready = ReadyOk,
     w_closed_late = False, w_spool = SpoolOk\<rparr>"

definition demo_config :: pool_config where
  "demo_config = \<lparr>cfg_probe = None, cfg_pod_name = ''pod'', cfg_namespace = ''ns'',
     cfg_capture_root = []\<rparr>"

definition one_worker :: pool where
  "one_worker = (case register_worker 1 demo_w ''default'' None 7 new_pool of Inr p \<Rightarrow> p | Inl _ \<Rightarrow> new_pool)"

theorem create_session_success_witness:
  "\<exists>sn p' fx. create_session demo_config (demo_world new_pool) 1 ''default'' demo_open one_worker
      = (Inr sn, p', fx) \<and> hhas (sessions p') demo_s"
proof -
  have "\<exists>e p' fx. create_session demo_config (demo_world new_pool) 1 ''default'' demo_open one_worker
      = (e, p', fx) \<and> (\<exists>sn. e = Inr sn)"
  proof -
    have "case create_session demo_config (demo_world new_pool) 1 ''default'' demo_open one_worker of
      (Inl _, _) \<Rightarrow> False | (Inr _, _) \<Rightarrow> True" by code_simp
    then show ?thesis by (auto split: prod.splits sum.splits)
  qed
  then obtain sn p' fx where
    c: "create_session demo_config (demo_world new_pool) 1 ''default'' demo_open one_worker
      = (Inr sn, p', fx)" by blast
  from create_session_success [OF c] have "hhas (sessions p') demo_s"
    by (auto simp: demo_open_def hhas_def)
  with c show ?thesis by blast
qed

text \<open>
  A creation takes the longest-idle worker of its profile and nothing else: the reservation fails
  with an unknown profile exactly when no registered worker has the profile, with busy exactly when one
  is registered but none is idle, and otherwise removes the first idle worker of the profile, leaving
  the others in their order.
\<close>

theorem create_reserve_outcome:
  "(case create_reserve now profile op ready p of
      (Inl UnknownProfile, p') \<Rightarrow> p' = p \<and> \<not> (\<exists>(w, l) \<in> set (liveness p). lv_profile l = profile)
    | (Inl Busy, p') \<Rightarrow> p' = p \<and> (\<exists>(w, l) \<in> set (liveness p). lv_profile l = profile) \<and>
        \<not> (\<exists>w \<in> set (idle p). we_profile w = profile)
    | (Inl _, p') \<Rightarrow> False
    | (Inr wk, p') \<Rightarrow> we_profile wk = profile \<and>
        (\<exists>as bs. idle p = as @ wk # bs \<and> idle p' = as @ bs \<and> profile \<notin> we_profile ` set as) \<and>
        hget (worker_sessions p') (we_id wk) = Some (open_session_id op) \<and>
        (\<exists>r. hget (sessions p') (open_session_id op) = Some r \<and> sr_state r = Opening
             \<and> sr_worker r = we_id wk \<and> sr_opened r = Some ready))"
proof (cases "create_reserve now profile op ready p")
  case (Pair res p')
  show ?thesis
  proof (cases res)
    case (Inl e)
    with Pair show ?thesis
      by (auto simp: create_reserve_def take_first_None list_ex_iff split: if_splits option.splits)
  next
    case (Inr wk)
    with Pair have "create_reserve now profile op ready p = (Inr wk, p')" by simp
    then obtain as bs where d: "idle p = as @ wk # bs" "we_profile wk = profile"
      "\<forall>x \<in> set as. we_profile x \<noteq> profile"
      "p' = p\<lparr>idle := as @ bs,
        worker_sessions := hput (we_id wk) (open_session_id op) (worker_sessions p),
        sessions := hput (open_session_id op) (opening_record now profile op ready wk) (sessions p)\<rparr>"
      by (rule create_reserve_cases)
    then have "\<exists>as bs. idle p = as @ wk # bs \<and> idle p' = as @ bs \<and> profile \<notin> we_profile ` set as"
      by (intro exI [of _ as] exI [of _ bs]) auto
    with d show ?thesis by (simp add: Pair Inr opening_record_def)
  qed
qed


text \<open>
  C20: A worker reaches only its own: the output a worker sends is appended to a spool only for a valid
  handle id of a request in flight on that worker, and reaches a terminal only as the one attached to
  the session the worker holds; every other chunk has no effect outside the pool.
\<close>

theorem route_output_confined:
  assumes "route_output W w c p = (p', fx)" and "e \<in> set fx"
  shows "(\<exists>which. e = AppendSpool (ExecId (chunk_id c)) which (chunk_bytes c) \<and>
        valid_capture_id (chunk_id c) \<and>
        (\<exists>q. hget (inflight p) (ExecId (chunk_id c)) = Some q \<and> pe_worker q = w)) \<or>
    (\<exists>r ch. e = SendTerminal ch (TermOutput (chunk_bytes c)) \<and>
        hget (worker_sessions p) w = Some (SessionId (chunk_id c)) \<and>
        hget (sessions p) (SessionId (chunk_id c)) = Some r \<and> sr_terminal r = Some ch)"
proof (cases "chunk_stream c = Terminal")
  case True
  have "sid_str x = y \<longleftrightarrow> x = SessionId y" for x y by (cases x) simp
  with True assms show ?thesis
    by (auto simp: route_output_def split: option.splits if_splits)
next
  case False
  then show ?thesis using assms
    by (auto simp: route_output_def route_spool_def Let_def owns_request_def
        split: output_stream.splits option.splits if_splits spool_outcome.splits)
qed

definition demo_chunk :: output_chunk where
  "demo_chunk = \<lparr>chunk_stream = Stdout, chunk_id = ''c'', chunk_bytes = [104, 105]\<rparr>"

theorem route_output_confined_witness:
  "\<exists>q. hget (inflight (sp (demo demo_run))) demo_c = Some q \<and> pe_worker q = demo_w"
proof -
  have "AppendSpool demo_c OutStream [104, 105]
      \<in> set (snd (route_output (demo_world new_pool) demo_w demo_chunk (sp (demo demo_run))))"
    by code_simp
  from route_output_confined [OF prod.collapse [symmetric] this] show ?thesis
    by (auto simp: demo_chunk_def demo_c_def)
qed

text \<open>
  The idle sweep never closes a session in use: when the locked section of a gated close goes on to
  close, the session is active, has no terminal and no command in flight, and has been quiet for longer
  than the limit at that moment; otherwise it changes nothing and sends nothing.
\<close>

theorem idle_close_spares_busy:
  "close_begin (Some (now, ttl)) ch sid p =
     (case hget (sessions p) sid of
        None \<Rightarrow> (CloseReply (Inl SessionNotFound), p)
      | Some r \<Rightarrow>
          if sr_state r = Active \<and> sr_terminal r = None \<and>
             \<not> (\<exists>(rid, e) \<in> set (inflight p). pe_session e = Some sid) \<and> ttl < now - sr_activity r
          then (CloseWait (sr_sink r) (sr_worker r) True,
                p\<lparr>sessions := hput sid (r\<lparr>sr_state := Closing, sr_closed := sr_closed r @ [ch]\<rparr>)
                  (sessions p)\<rparr>)
          else (CloseReply (Inr (session_snap sid r)), p))"
  by (auto simp: close_begin_def idle_session_def session_commands_def filter_empty_conv
      split: option.split)

text \<open>A batch of rows finished with nothing in between.\<close>

lemma finish_rows_id:
  assumes "\<And>k. w_yield W k = (\<lambda>q. q)" and "\<And>now. finisher (upd now)"
  shows "let q = fst (finish_rows upd W k rids p) in
    inflight q = inflight p \<and> idle q = idle p \<and> liveness q = liveness p \<and> sessions q = sessions p
    \<and> worker_sessions q = worker_sessions p \<and>
    (\<forall>x row. hget (handles p) x = Some row \<longrightarrow> (\<exists>row' now. hget (handles q) x = Some row' \<and>
       (row' = (if x \<in> set rids \<and> hr_status row = Running then upd now row else row))))"
proof (induction rids arbitrary: k p)
  case Nil
  then show ?case by simp
next
  case (Cons rid rids)
  let ?p1 = "fst (finish_row (upd (w_clock W k)) rid p)"
  have same: "inflight ?p1 = inflight p" "idle ?p1 = idle p" "liveness ?p1 = liveness p"
    "sessions ?p1 = sessions p" "worker_sessions ?p1 = worker_sessions p"
    by (simp_all add: finish_row_def split: option.split)
  have fin: "hr_status (upd now row) \<noteq> Running" for now row using assms(2) by (simp add: finisher_def)
  have rows: "\<exists>row' now. hget (handles (fst (finish_rows upd W (Suc k) rids ?p1))) x = Some row' \<and>
      row' = (if x \<in> set (rid # rids) \<and> hr_status row = Running then upd now row else row)"
    if x: "hget (handles p) x = Some row" for x row
  proof -
    let ?r = "if x = rid \<and> hr_status row = Running then upd (w_clock W k) row else row"
    have "hget (handles ?p1) x = Some ?r" using x by (auto simp: finish_row_handles)
    with Cons.IH [of "Suc k" ?p1] obtain now where
      "hget (handles (fst (finish_rows upd W (Suc k) rids ?p1))) x =
        Some (if x \<in> set rids \<and> hr_status ?r = Running then upd now ?r else ?r)"
      unfolding Let_def by blast
    with fin show ?thesis by (cases "x = rid \<and> hr_status row = Running") auto
  qed
  have eq: "fst (finish_rows upd W k (rid # rids) p) = fst (finish_rows upd W (Suc k) rids ?p1)"
    by (simp add: assms(1) case_prod_unfold Let_def)
  show ?case
    using Cons.IH [of "Suc k" ?p1] rows unfolding eq Let_def same by blast
qed

text \<open>
  C26: The loss of a worker leaves nothing behind, as long as no other task runs between the sections of the
  handler and the leases of the pool were in order before it (see \<open>drop_race_strands_handle\<close> for a run in
  which another task does): \<open>handle_worker_drop\<close> unregisters the worker, removes it from the idle queue and every request from
  it, fails the session it held, and gives every command that was running on it its final status,
  \<open>Oomkilled\<close> with signal 9 or \<open>Error\<close> as the probe answers.
\<close>

theorem worker_drop_cleans_up:
  assumes "\<And>k. w_yield W k = (\<lambda>q. q)" and "pool_inv p"
    and "handle_worker_drop cfg W k w p = (p', fx)"
  shows "hget (liveness p') w = None \<and> w \<notin> we_id ` set (idle p') \<and> hget (worker_sessions p') w = None \<and>
    (\<forall>rid e. hget (inflight p') rid = Some e \<longrightarrow> pe_worker e \<noteq> w) \<and>
    (\<forall>sid r. hget (sessions p') sid = Some r \<and> sr_worker r = w \<longrightarrow> \<not> live_state (sr_state r)) \<and>
    (\<forall>rid e row. hget (inflight p) rid = Some e \<and> pe_worker e = w \<and> hget (handles p) rid = Some row
       \<longrightarrow> (\<exists>row'. hget (handles p') rid = Some row' \<and>
         (hr_status row', hr_cause row', hr_exit_signal row') \<in>
           {(Oomkilled, Some OomContainer, Some 9), (Error, Some WorkerDied, hr_exit_signal row)}))"
proof -
  let ?p1 = "snd (drop_inflight w p)" and ?pd = "fst (drop_inflight w p)"
  let ?d = "fst (drop_worker (w_clock W k) w ?p1)" and ?p2 = "snd (drop_worker (w_clock W k) w ?p1)"
  obtain st c where v: "drop_outcome cfg w (dp_location ?d) = (st, c)" by fastforce
  then have vd: "(st, c) \<in> {(Oomkilled, OomContainer), (Error, WorkerDied)}"
    by (auto simp: drop_outcome_def Let_def split: if_splits)
  have fin: "finisher (dropped_row st c now)" for now by (rule finisher_dropped) (use vd in auto)
  have p': "p' = (if ?pd = [] then ?p2
      else fst (finish_rows (dropped_row st c) W (Suc k) (map fst ?pd) ?p2))"
    using assms(3) v by (auto simp: handle_worker_drop_def assms(1) case_prod_unfold Let_def)
  have wf: "hwf (inflight p)" using pool_invD(1) [OF assms(2)] by (simp add: maps_ok_def)
  have inv2: "pool_inv ?p2" by (intro drop_worker_inv drop_inflight_inv assms(2))
  note fr = finish_rows_id [where W = W and upd = "dropped_row st c", OF assms(1) fin, unfolded Let_def]
  have rest: "inflight p' = inflight ?p2" "idle p' = idle ?p2" "liveness p' = liveness ?p2"
    "sessions p' = sessions ?p2" "worker_sessions p' = worker_sessions ?p2"
    using fr by (simp_all add: p')
  have one: "hget (liveness ?p2) w = None" "w \<notin> we_id ` set (idle ?p2)"
    "hget (worker_sessions ?p2) w = None"
    by (auto simp: drop_worker_def Let_def)
  have two: "pe_worker e \<noteq> w" if "hget (inflight ?p2) rid = Some e" for rid e
    using that wf by (simp add: drop_worker_inflight) (simp add: drop_inflight_def split: option.splits if_splits)
  have three: "\<not> live_state (sr_state r)" if "hget (sessions ?p2) sid = Some r" "sr_worker r = w" for sid r
    using sessions_okD [OF pool_invD(4) [OF inv2] that(1)] that(2) one(3)
    by (auto simp: session_ok_def)
  have four: "\<exists>row'. hget (handles p') rid = Some row' \<and>
      (hr_status row', hr_cause row', hr_exit_signal row') \<in>
        {(Oomkilled, Some OomContainer, Some 9), (Error, Some WorkerDied, hr_exit_signal row)}"
    if e: "hget (inflight p) rid = Some e" "pe_worker e = w" and row: "hget (handles p) rid = Some row"
    for rid e row
  proof -
    have "(rid, e) \<in> set ?pd" using e by (simp add: drop_inflight_def hget_in_set)
    then have ne: "?pd \<noteq> []" and mem: "rid \<in> set (map fst ?pd)" by force+
    have "hr_status row = Running" using pool_inv_rowD(2) [OF assms(2) row] e by (simp add: hhas_def)
    moreover have "hget (handles ?p2) rid = Some row"
      using row by (simp add: drop_worker_def drop_inflight_def Let_def)
    moreover have "\<exists>row' now. hget (handles p') rid = Some row' \<and> row' =
        (if rid \<in> set (map fst ?pd) \<and> hr_status row = Running then dropped_row st c now row else row)"
      if "hget (handles ?p2) rid = Some row"
      using fr [of "Suc k" "map fst ?pd" ?p2] that ne unfolding p' by presburger
    ultimately obtain now where "hget (handles p') rid = Some (dropped_row st c now row)"
      using mem by auto
    then show ?thesis using vd by (auto simp: dropped_row_def Let_def)
  qed
  show ?thesis unfolding rest
    by (intro conjI allI impI) (use one two three four in \<open>simp_all (no_asm_use), blast+\<close>)
qed


definition still_world :: world where
  "still_world = \<lparr>w_wait = (\<lambda>k q. q), w_yield = (\<lambda>k q. q), w_clock = (\<lambda>k. 20), w_send = Sent, w_setup = None,
     w_serialize = None, w_ready = ReadyOk, w_closed_late = False, w_spool = SpoolOk\<rparr>"

theorem worker_drop_cleans_up_witness:
  "\<exists>row'. hget (handles (fst (handle_worker_drop demo_config still_world 0 demo_w (sp (demo demo_run)))))
      demo_c = Some row' \<and> hr_status row' \<noteq> Running"
proof -
  let ?p = "sp (demo demo_run)"
  have y: "w_yield still_world k = (\<lambda>q. q)" for k by (simp add: still_world_def)
  have inv: "pool_inv ?p" by (rule sys_invD(1) [OF lease.inv_reachable [OF demo_orderly(1)]])
  have "case hget (inflight ?p) demo_c of None \<Rightarrow> False | Some e \<Rightarrow> pe_worker e = demo_w"
    and "hhas (handles ?p) demo_c" by code_simp+
  then obtain e row where "hget (inflight ?p) demo_c = Some e" "pe_worker e = demo_w"
    "hget (handles ?p) demo_c = Some row" by (auto simp: hhas_def split: option.splits)
  with worker_drop_cleans_up [OF y inv prod.collapse [symmetric], where cfg = demo_config and k = 0
      and w = demo_w]
  have "\<exists>row'. hget (handles (fst (handle_worker_drop demo_config still_world 0 demo_w ?p))) demo_c
      = Some row' \<and> (hr_status row', hr_cause row', hr_exit_signal row') \<in>
        {(Oomkilled, Some OomContainer, Some 9), (Error, Some WorkerDied, hr_exit_signal row)}"
    by blast
  then show ?thesis by auto
qed

end
