(* ===== verification/PoolQueries.thy ===== *)
theory PoolQueries
  imports PoolProps
begin

text \<open>
  Properties of the pool's reports and periodic work: the outcome a Result gives a handle, the profile
  counts, the keepalive pinger, the sweeper and the rotation of workers; and the traces behind the
  recorded findings.
\<close>

section \<open>Results\<close>

text \<open>
  A Result settles its command: when no other task runs in between, a running handle gets the exit
  code, signal and cancelled flag of the frame, and the status and cause in the order of precedence
  output loss, cancellation, signal, worker error, success; its request leaves the in-flight map, and
  its session's counter of stateful commands goes down by one exactly for a stateful command.
\<close>

theorem result_settles_command:
  assumes "\<And>k. w_yield W k = (\<lambda>q. q)"
    and "hget (handles p) (res_request_id r) = Some row" and "hr_status row = Running"
    and "complete_request W k r p = (p', fx)"
  shows "\<exists>row'. hget (handles p') (res_request_id r) = Some row' \<and>
      (hr_status row', hr_cause row') =
        (if hr_spool_failed row then (Error, Some OutputError)
         else if res_cancelled r then (Error, Some Cancelled)
         else if res_exit_signal r \<noteq> None then (Error, Some Signal)
         else if res_error r \<noteq> None then (Error, Some WorkerError)
         else (Completed, Some Normal)) \<and>
      hr_exit_code row' = res_exit_code r \<and> hr_exit_signal row' = res_exit_signal r \<and>
      hr_cancelled row' = res_cancelled r \<and> hr_finished row' = Some (w_clock W (Suc k)) \<and>
      fx = [RecordExec (res_request_id r) (the (hr_cause row')), NotifyCompletion (res_request_id r)] \<and>
      hget (inflight p') (res_request_id r) = None \<and>
      (\<forall>e sid q. hget (inflight p) (res_request_id r) = Some e \<longrightarrow> pe_session e = Some sid \<longrightarrow>
         hget (sessions p) sid = Some q \<longrightarrow> (\<exists>q'. hget (sessions p') sid = Some q' \<and>
           sr_state q' = sr_state q \<and> sr_activity q' = w_clock W k \<and>
           sr_stateful q' = (if pe_mode e = Stateful then sr_stateful q - 1 else sr_stateful q)))"
proof -
  let ?rid = "res_request_id r" and ?q = "complete_take (w_clock W k) (res_request_id r) p"
  let ?row = "result_row r (w_clock W (Suc k)) row"
  have p': "p' = ?q\<lparr>handles := hput ?rid ?row (handles p)\<rparr>"
    and fx: "fx = [RecordExec ?rid (the (hr_cause ?row)), NotifyCompletion ?rid]"
    using assms by (auto simp: complete_request_def Let_def finish_row_def)
  have row: "(hr_status ?row, hr_cause ?row) =
        (if hr_spool_failed row then (Error, Some OutputError)
         else if res_cancelled r then (Error, Some Cancelled)
         else if res_exit_signal r \<noteq> None then (Error, Some Signal)
         else if res_error r \<noteq> None then (Error, Some WorkerError)
         else (Completed, Some Normal))"
    by (simp add: result_row_def classify_def)
  have rest: "hr_exit_code ?row = res_exit_code r" "hr_exit_signal ?row = res_exit_signal r"
    "hr_cancelled ?row = res_cancelled r" "hr_finished ?row = Some (w_clock W (Suc k))"
    by (simp_all add: result_row_def split: prod.split)
  have sess: "\<exists>q'. hget (sessions p') sid = Some q' \<and> sr_state q' = sr_state q \<and>
      sr_activity q' = w_clock W k \<and>
      sr_stateful q' = (if pe_mode e = Stateful then sr_stateful q - 1 else sr_stateful q)"
    if "hget (inflight p) ?rid = Some e" "pe_session e = Some sid" "hget (sessions p) sid = Some q"
    for e sid q
    using that by (simp add: p' complete_take_def Let_def)
  show ?thesis
    by (rule exI [of _ ?row], intro conjI row rest fx)
      (use sess in \<open>simp_all add: p' complete_take_inflight\<close>)
qed

theorem result_settles_command_witness:
  "\<exists>row'. hget (handles (fst (complete_request still_world 0 late_result (sp (demo demo_run))))) demo_c
     = Some row' \<and> hr_status row' = Completed \<and> hr_exit_code row' = Some 0"
proof -
  let ?p = "sp (demo demo_run)"
  have y: "w_yield still_world k = (\<lambda>q. q)" for k by (simp add: still_world_def)
  have "case hget (handles ?p) demo_c of None \<Rightarrow> False
    | Some row \<Rightarrow> hr_status row = Running \<and> \<not> hr_spool_failed row" by code_simp
  then obtain row where row: "hget (handles ?p) (res_request_id late_result) = Some row"
    "hr_status row = Running" "\<not> hr_spool_failed row"
    by (auto simp: late_result_def split: option.splits)
  from result_settles_command [OF y row(1,2) prod.collapse [symmetric], of 0] row(3)
  show ?thesis by (auto simp: late_result_def)
qed

section \<open>Profiles\<close>

lemma count_of_Nil [simp]: "count_of [] x = (0, 0)"
  by (simp add: count_of_def)

lemma profile_counts_facts:
  "hwf (profile_counts p) \<and>
   (hhas (profile_counts p) x \<longleftrightarrow> (\<exists>(w, l) \<in> set (liveness p). lv_profile l = x) \<or>
      (\<exists>w \<in> set (idle p). we_profile w = x) \<or>
      (\<exists>(sid, r) \<in> set (sessions p). live_state (sr_state r) \<and> sr_profile r = x)) \<and>
   count_of (profile_counts p) x = (length (filter (\<lambda>w. we_profile w = x) (idle p)),
      hcount (\<lambda>_ r. live_state (sr_state r) \<and> sr_profile r = x) (sessions p))"
proof -
  let ?m1 = "fold (\<lambda>(_, l). count_entry (lv_profile l) id) (liveness p) []"
  let ?m2 = "fold (\<lambda>w. count_entry (we_profile w) (\<lambda>(i, a). (i + 1, a))) (idle p) ?m1"
  note a = fold_live_counts [of "liveness p" "[]" x]
  note b = fold_idle_counts [of "idle p" ?m1 x]
  note c = fold_session_counts [of "sessions p" ?m2 x]
  show ?thesis unfolding profile_counts_def Let_def
    using a b c by (auto simp: image_iff case_prod_unfold)
qed

text \<open>
  The profile report is exact: its names are sorted and distinct, they are the profiles of the
  registered and idle workers and of the live sessions, and each entry counts the idle workers and the
  live sessions of its profile.
\<close>

theorem profiles_exact:
  "sorted (map prof_name (profiles p)) \<and> distinct (map prof_name (profiles p)) \<and>
   prof_name ` set (profiles p) = {x. (\<exists>(w, l) \<in> set (liveness p). lv_profile l = x) \<or>
      (\<exists>w \<in> set (idle p). we_profile w = x) \<or>
      (\<exists>(sid, r) \<in> set (sessions p). live_state (sr_state r) \<and> sr_profile r = x)} \<and>
   map (\<lambda>e. (prof_idle e, prof_allocated e)) (profiles p) =
     map (\<lambda>e. (length (filter (\<lambda>w. we_profile w = prof_name e) (idle p)),
       length (filter (\<lambda>(_, r). live_state (sr_state r) \<and> sr_profile r = prof_name e)
         (sessions p)))) (profiles p)"
proof -
  let ?g = "\<lambda>(n, i, a). \<lparr>prof_name = n, prof_idle = i, prof_allocated = a\<rparr>"
  let ?m = "profile_counts p"
  note f = profile_counts_facts [of p]
  have names: "map prof_name (map ?g ?m) = map fst ?m" by (simp add: case_prod_unfold)
  have sorted: "sorted (map prof_name (profiles p))" by (simp add: profiles_def)
  have "distinct (map prof_name (profiles p)) \<longleftrightarrow> distinct (map prof_name (map ?g ?m))"
    unfolding profiles_def distinct_map [of prof_name] by simp
  then have dist: "distinct (map prof_name (profiles p))"
    unfolding names using f by (simp add: hwf_def)
  have set: "set (profiles p) = ?g ` set ?m" by (simp add: profiles_def)
  have fst_has: "n \<in> fst ` set ?m \<longleftrightarrow> hhas ?m n" for n
    by (force simp: hhas_def hget_def map_of_eq_None_iff)
  have eq: "prof_name ` set (profiles p) = fst ` set ?m" by (force simp: set case_prod_unfold)
  have has: "hhas ?m x \<longleftrightarrow> (\<exists>(w, l) \<in> set (liveness p). lv_profile l = x) \<or>
      (\<exists>w \<in> set (idle p). we_profile w = x) \<or>
      (\<exists>(sid, r) \<in> set (sessions p). live_state (sr_state r) \<and> sr_profile r = x)" for x
    using f [of x] by (elim conjE)
  have names': "prof_name ` set (profiles p) = {x. (\<exists>(w, l) \<in> set (liveness p). lv_profile l = x) \<or>
      (\<exists>w \<in> set (idle p). we_profile w = x) \<or>
      (\<exists>(sid, r) \<in> set (sessions p). live_state (sr_state r) \<and> sr_profile r = x)}"
    by (rule set_eqI) (simp only: eq fst_has has mem_Collect_eq)
  have "count_of ?m n = (i, a)" if "(n, i, a) \<in> set ?m" for n i a
    using that f [of n] by (simp add: count_of_def in_set_hget)
  then have "i = length (filter (\<lambda>w. we_profile w = n) (idle p)) \<and>
      a = length (filter (\<lambda>(_, r). live_state (sr_state r) \<and> sr_profile r = n) (sessions p))"
    if "(n, i, a) \<in> set ?m" for n i a
    using that f [of n] by (fastforce simp: hcount_def hretain_def)
  then show ?thesis
    by (intro conjI sorted dist names') (auto simp: set)
qed


section \<open>Keepalive\<close>

lemma first_by_keys: "key ` set (first_by key seen xs) = key ` set xs - set seen"
  by (induction key seen xs rule: first_by.induct) auto

lemma first_by_distinct: "distinct (map key (first_by key seen xs))"
proof (induction key seen xs rule: first_by.induct)
  case (2 key seen x xs)
  then show ?case using first_by_keys [of key "key x # seen" xs] by auto
qed simp

lemma keepalive_targets_alt:
  "keepalive_targets p = map (\<lambda>(w, sink). (w, sink, lv_last_seen (the (hget (liveness p) w)),
       lv_shutdown (the (hget (liveness p) w))))
     (filter (\<lambda>(w, sink). hhas (liveness p) w)
       (first_by fst [] (map (\<lambda>e. (we_id e, we_sink e)) (idle p)
         @ map (\<lambda>(_, e). (pe_worker e, pe_sink e)) (inflight p)
         @ List.map_filter (\<lambda>(w, sid). map_option (\<lambda>r. (w, sr_sink r)) (hget (sessions p) sid))
            (worker_sessions p))))"
proof -
  have "List.map_filter (\<lambda>(w, sink). map_option (\<lambda>l. (w, sink, lv_last_seen l, lv_shutdown l))
      (hget (liveness p) w)) xs =
    map (\<lambda>(w, sink). (w, sink, lv_last_seen (the (hget (liveness p) w)),
       lv_shutdown (the (hget (liveness p) w)))) (filter (\<lambda>(w, sink). hhas (liveness p) w) xs)" for xs
    by (induction xs) (auto simp: List.map_filter_simps hhas_def)
  then show ?thesis by (simp add: keepalive_targets_def Let_def)
qed

lemma keepalive_workers_effects:
  "fst (keepalive_workers now limit send ts) = concat (map (fst \<circ> keepalive_worker now limit send) ts)"
  by (induction ts) (simp_all add: split_beta)

lemma keepalive_worker_shutdown:
  "NotifyShutdown c \<in> set (fst (keepalive_worker now limit send (w, sink, seen, c'))) \<longleftrightarrow>
     c' = c \<and> (limit < now - seen \<or> fst (ping_result (send w)) \<noteq> Sent)"
  by (auto simp: keepalive_worker_def Let_def split_beta)

lemma keepalive_workers_time: "snd (keepalive_workers now limit send ts) \<le> ping_limit * length ts"
proof (induction ts)
  case (Cons t ts)
  have "snd (keepalive_worker now limit send t) \<le> ping_limit"
    by (simp add: keepalive_worker_def ping_result_def split_beta Let_def)
  with Cons show ?case by (simp add: split_beta)
qed simp

lemma keepalive_reach:
  "distinct (map fst (keepalive_targets p)) \<and>
   fst ` set (keepalive_targets p) = {w. hhas (liveness p) w \<and>
     (w \<in> we_id ` set (idle p) \<or> w \<in> (\<lambda>(_, e). pe_worker e) ` set (inflight p) \<or>
      (\<exists>sid. (w, sid) \<in> set (worker_sessions p) \<and> hhas (sessions p) sid))} \<and>
   {c. NotifyShutdown c \<in> set (fst (keepalive_tick now limit send p))} =
     {c. \<exists>w l. w \<in> fst ` set (keepalive_targets p) \<and> hget (liveness p) w = Some l \<and>
        lv_shutdown l = c \<and> (limit < now - lv_last_seen l \<or> fst (ping_result (send w)) \<noteq> Sent)}"
proof (intro conjI)
  let ?c = "map (\<lambda>e. (we_id e, we_sink e)) (idle p)
    @ map (\<lambda>(_, e). (pe_worker e, pe_sink e)) (inflight p)
    @ List.map_filter (\<lambda>(w, sid). map_option (\<lambda>r. (w, sr_sink r)) (hget (sessions p) sid))
       (worker_sessions p)"
  let ?live = "\<lambda>(w :: worker_id, sink :: conn). hhas (liveness p) w"
  have names: "map fst (keepalive_targets p) = map fst (filter ?live (first_by fst [] ?c))"
    unfolding keepalive_targets_alt by (simp add: case_prod_unfold comp_def)
  show "distinct (map fst (keepalive_targets p))"
    unfolding names by (rule distinct_map_filter) (rule first_by_distinct)
  have set_c: "fst ` set ?c = we_id ` set (idle p) \<union> (\<lambda>(_, e). pe_worker e) ` set (inflight p)
      \<union> {w. \<exists>sid. (w, sid) \<in> set (worker_sessions p) \<and> hhas (sessions p) sid}"
    by (force simp: List.map_filter_def hhas_def image_iff case_prod_unfold)
  have "fst ` set (keepalive_targets p) = set (map fst (keepalive_targets p))" by simp
  also have "\<dots> = {w \<in> fst ` set (first_by fst [] ?c). hhas (liveness p) w}"
    unfolding names by force
  also have "\<dots> = {w \<in> fst ` set ?c. hhas (liveness p) w}"
    by (simp only: first_by_keys list.set(1) Diff_empty)
  finally show "fst ` set (keepalive_targets p) = {w. hhas (liveness p) w \<and>
     (w \<in> we_id ` set (idle p) \<or> w \<in> (\<lambda>(_, e). pe_worker e) ` set (inflight p) \<or>
      (\<exists>sid. (w, sid) \<in> set (worker_sessions p) \<and> hhas (sessions p) sid))}"
    unfolding set_c by auto
  show "{c. NotifyShutdown c \<in> set (fst (keepalive_tick now limit send p))} =
     {c. \<exists>w l. w \<in> fst ` set (keepalive_targets p) \<and> hget (liveness p) w = Some l \<and>
        lv_shutdown l = c \<and> (limit < now - lv_last_seen l \<or> fst (ping_result (send w)) \<noteq> Sent)}"
    unfolding keepalive_tick_def keepalive_workers_effects keepalive_targets_alt
    by (auto simp: keepalive_worker_shutdown hhas_def)
qed

text \<open>
  A keepalive tick reaches every worker in use exactly once: its targets are the registered workers
  that are idle, run a command or hold a listed session, each listed once, and it evicts a connection
  exactly when one of them was silent for longer than the limit or could not be pinged.
\<close>

theorem keepalive_covers_workers:
  "distinct (map fst (keepalive_targets p)) \<and>
   fst ` set (keepalive_targets p) = {w. hhas (liveness p) w \<and>
     (w \<in> we_id ` set (idle p) \<or> w \<in> (\<lambda>(_, e). pe_worker e) ` set (inflight p) \<or>
      (\<exists>sid. (w, sid) \<in> set (worker_sessions p) \<and> hhas (sessions p) sid))} \<and>
   {c. NotifyShutdown c \<in> set (fst (keepalive_tick now limit send p))} =
     {c. \<exists>w l. w \<in> fst ` set (keepalive_targets p) \<and> hget (liveness p) w = Some l \<and>
        lv_shutdown l = c \<and> \<not> (now - lv_last_seen l \<le> limit \<and> fst (ping_result (send w)) = Sent)}"
  using keepalive_reach [where p = p and limit = limit and send = send and now = now] by (simp only: de_Morgan_conj not_le)

section \<open>Rotation\<close>

text \<open>A serial stream of session-less commands: each is dispatched and its Result comes back before
  the next.\<close>

fun serve :: "world \<Rightarrow> (execute_frame \<times> result_frame) list \<Rightarrow> pool \<Rightarrow> pool" where
  "serve W [] p = p"
| "serve W ((x, r) # cmds) p =
     (let (_, p1, _) = dispatch W x p; (p2, _) = complete_request W 2 r p1 in serve W cmds p2)"

definition answers :: "execute_frame \<times> result_frame \<Rightarrow> bool" where
  "answers c = (case c of (x, r) \<Rightarrow> res_request_id r = request_id x \<and> valid_capture_id (eid_str (request_id x)))"

lemma serve_one:
  assumes "\<And>k. w_yield W k = (\<lambda>q. q)" "w_setup W = None" "w_serialize W = None" "w_send W = Sent"
    and "answers (x, r)"
  shows "idle (serve W ((x, r) # cmds) p) =
    idle (serve W cmds (fst (complete_request W 2 r (fst (snd (dispatch W x p))))))"
    and "idle p = wk # ws \<Longrightarrow> idle (fst (complete_request W 2 r (fst (snd (dispatch W x p))))) = ws @ [wk]"
proof -
  show "idle (serve W ((x, r) # cmds) p) =
    idle (serve W cmds (fst (complete_request W 2 r (fst (snd (dispatch W x p))))))"
    by (simp add: case_prod_unfold Let_def)
  assume p: "idle p = wk # ws"
  have d: "fst (snd (dispatch W x p)) =
      dispatch_register wk (request_id x) (w_clock W 0) (w_clock W 1) (p\<lparr>idle := ws\<rparr>)"
    using assms p by (simp add: dispatch_def pop_idle_def answers_def Let_def send_error_def)
  have "idle (complete_take t (request_id x) (dispatch_register wk (request_id x) t0 t1 (p\<lparr>idle := ws\<rparr>)))
      = ws @ [wk]" for t t0 t1
    by (simp add: complete_take_def dispatch_register_def Let_def)
  moreover have "idle (fst (finish_row upd rid q)) = idle q" for upd rid q
    by (simp add: finish_row_def split: option.split)
  ultimately show "idle (fst (complete_request W 2 r (fst (snd (dispatch W x p))))) = ws @ [wk]"
    using assms by (simp add: complete_request_def Let_def answers_def d)
qed

text \<open>
  Serial use rotates the pool: a stream of commands, each dispatched and answered before the next,
  takes the workers in turn, so after n commands the idle queue is the old one rotated n times, with
  every worker's profile and socket unchanged.
\<close>

theorem serial_dispatch_rotates:
  assumes "\<And>k. w_yield W k = (\<lambda>q. q)" "w_setup W = None" "w_serialize W = None" "w_send W = Sent"
    and "list_all answers cmds" and "idle p \<noteq> []"
  shows "idle (serve W cmds p) = rotate (length cmds) (idle p)"
  using assms(5,6)
proof (induction cmds arbitrary: p)
  case Nil
  then show ?case by simp
next
  case (Cons c cmds)
  obtain x r where c: "c = (x, r)" by (cases c)
  obtain wk ws where p: "idle p = wk # ws" using Cons.prems(2) by (cases "idle p") auto
  let ?q = "fst (complete_request W 2 r (fst (snd (dispatch W x p))))"
  have q: "idle ?q = ws @ [wk]"
    using serve_one(2) [OF assms(1-4)] Cons.prems(1) p by (simp add: c)
  have "idle (serve W (c # cmds) p) = idle (serve W cmds ?q)"
    unfolding c by (rule serve_one(1) [OF assms(1-4)]) (use Cons.prems(1) c in simp)
  also have "\<dots> = rotate (length cmds) (ws @ [wk])"
    using Cons.IH [of ?q] Cons.prems(1) q by simp
  also have "\<dots> = rotate (length (c # cmds)) (idle p)"
    by (simp add: p rotate1_rotate_swap)
  finally show ?case .
qed

definition two_workers :: pool where
  "two_workers = (case register_worker 1 (WorkerId ''v'') ''default'' None 8 one_worker of
     Inr p \<Rightarrow> p | Inl _ \<Rightarrow> one_worker)"

definition demo_command :: "execute_frame \<times> result_frame" where
  "demo_command = (\<lparr>request_id = demo_c, command = ''ls'', working_dir = ''/'', env = [],
     exec_drop_to = None\<rparr>, late_result)"

theorem serial_dispatch_rotates_witness:
  "map we_id (idle (serve still_world [demo_command] two_workers)) = [WorkerId ''v'', demo_w]"
proof -
  have a: "list_all answers [demo_command]" "idle two_workers \<noteq> []" by code_simp+
  have w: "w_yield still_world k = (\<lambda>q. q)" "w_setup still_world = None"
    "w_serialize still_world = None" "w_send still_world = Sent" for k
    by (simp_all add: still_world_def)
  have "map we_id (rotate 1 (idle two_workers)) = [WorkerId ''v'', demo_w]" by code_simp
  with serial_dispatch_rotates [OF w a] show ?thesis by simp
qed


section \<open>The sweeper\<close>

definition finished_old :: "time \<Rightarrow> nat \<Rightarrow> handle_row \<Rightarrow> bool" where
  "finished_old now ttl row \<longleftrightarrow> hr_status row \<noteq> Running \<and> ttl < now - hr_polled row"

lemma sweep_handle_others:
  assumes "\<And>k. w_yield W k = (\<lambda>q. q)" and "x \<noteq> sn_handle snap"
  shows "hget (handles (fst (sweep_handle W now rttl tttl snap p))) x = hget (handles p) x"
  using assms
  by (auto simp: sweep_handle_def cancel_def cancel_request_def purge_handle_def Let_def assms(1)
      split: option.splits if_splits)

lemma sweep_handle_own:
  assumes "\<And>k. w_yield W k = (\<lambda>q. q)" and "hget (handles p) (hr_id row) = Some row"
  shows "(hget (handles (fst (sweep_handle W now rttl tttl (snapshot_from row) p))) (hr_id row) = None
    \<longleftrightarrow> finished_old now tttl row)"
  using assms
  by (auto simp: sweep_handle_def cancel_def cancel_request_def purge_handle_def Let_def assms(1)
      snapshot_from_def last_polled_def finished_old_def split: option.splits if_splits)

lemma sweep_handles_rows:
  assumes "\<And>j k. w_yield (Ws j) k = (\<lambda>q. q)" and "distinct (map fst rows)"
    and "\<And>x row. (x, row) \<in> set rows \<Longrightarrow> hget (handles p) x = Some row \<and> hr_id row = x"
  shows "hget (handles (fst (sweep_handles Ws now rttl tttl k (map (\<lambda>(_, row). snapshot_from row) rows) p))) x
      = None \<longleftrightarrow> hget (handles p) x = None \<or> (\<exists>row. (x, row) \<in> set rows \<and> finished_old now tttl row)"
  using assms(2,3)
proof (induction rows arbitrary: k p)
  case Nil
  then show ?case by simp
next
  case (Cons a rows)
  obtain y row where a: "a = (y, row)" by (cases a)
  have y: "hget (handles p) y = Some row" "hr_id row = y" using Cons.prems(2) [of y row] a by auto
  let ?p = "fst (sweep_handle (Ws k) now rttl tttl (snapshot_from row) p)"
  have sn: "sn_handle (snapshot_from row) = y" by (simp add: snapshot_from_def y(2))
  have others: "hget (handles ?p) z = hget (handles p) z" if "z \<noteq> y" for z
    by (rule sweep_handle_others [OF assms(1)]) (simp add: sn that)
  have own: "hget (handles ?p) y = None \<longleftrightarrow> finished_old now tttl row"
    using sweep_handle_own [where W = "Ws k" and p = p and row = row, OF assms(1)] y by simp
  have "hget (handles (fst (sweep_handles Ws now rttl tttl (Suc k)
      (map (\<lambda>(_, row). snapshot_from row) rows) ?p))) x = None \<longleftrightarrow>
    hget (handles ?p) x = None \<or> (\<exists>row. (x, row) \<in> set rows \<and> finished_old now tttl row)"
  proof (rule Cons.IH)
    show "distinct (map fst rows)" using Cons.prems(1) by simp
    fix z r assume z: "(z, r) \<in> set rows"
    with Cons.prems(1) a have "z \<noteq> y" by force
    with z Cons.prems(2) [of z r] others show "hget (handles ?p) z = Some r \<and> hr_id r = z" by simp
  qed
  moreover have "(\<exists>r. (y, r) \<in> set rows \<and> finished_old now tttl r) = False"
    using Cons.prems(1) a by force
  ultimately show ?case
    using others own y(1) by (cases "x = y") (auto simp: a case_prod_unfold Let_def)
qed

text \<open>
  The sweeper forgets exactly what is old: over the handles of a well-formed pool, when no other task
  runs in between, a pass removes a handle exactly when its command has finished and it was not polled
  for longer than the limit; and the session pass keeps every session that is live, dropping exactly
  those that ended longer ago than the limit.
\<close>

theorem sweeper_removes_exactly_old:
  assumes "\<And>j k. w_yield (Ws j) k = (\<lambda>q. q)" and "pool_inv p"
  shows "(\<forall>x row. hget (handles p) x = Some row \<longrightarrow>
      (hget (handles (fst (sweep_handles Ws now rttl tttl k (list_snapshots p) p))) x = None
        \<longleftrightarrow> hr_status row \<noteq> Running \<and> tttl < now - hr_polled row)) \<and>
    (\<forall>sid r. hget (sessions p) sid = Some r \<longrightarrow>
      (hget (sessions (retain_sessions now tttl p)) sid = None
        \<longleftrightarrow> \<not> live_state (sr_state r) \<and> tttl < now - the (sr_finished r)))"
proof (intro conjI allI impI)
  note i = pool_invD [OF assms(2)]
  have wf: "hwf (handles p)" "hwf (sessions p)" using i(1) by (simp_all add: maps_ok_def)
  have rows: "hget (handles p) x = Some row \<and> hr_id row = x" if "(x, row) \<in> set (handles p)" for x row
    using that wf(1) i(7) by (auto simp: in_set_hget rows_ok_def row_ok_def)
  fix x row assume row: "hget (handles p) x = Some row"
  have "(x, row') \<in> set (handles p) \<longleftrightarrow> row' = row" for row'
    using row wf(1) by (auto simp: in_set_hget)
  with sweep_handles_rows [where Ws = Ws and p = p and rows = "handles p" and x = x, OF assms(1) _ rows]
    wf(1) row
  show "hget (handles (fst (sweep_handles Ws now rttl tttl k (list_snapshots p) p))) x = None
    \<longleftrightarrow> hr_status row \<noteq> Running \<and> tttl < now - hr_polled row"
    by (simp add: list_snapshots_def hwf_def finished_old_def)
next
  note i = pool_invD [OF assms(2)]
  fix sid r assume r: "hget (sessions p) sid = Some r"
  have wf: "hwf (sessions p)" using i(1) by (simp add: maps_ok_def)
  show "hget (sessions (retain_sessions now tttl p)) sid = None
    \<longleftrightarrow> \<not> live_state (sr_state r) \<and> tttl < now - the (sr_finished r)"
    using sessions_okD [OF i(4) r] r wf
    by (cases "sr_finished r") (auto simp: retain_sessions_def session_ok_def split: if_splits)
qed

theorem sweeper_removes_exactly_old_witness:
  "hget (handles (fst (sweep_handles (\<lambda>_. still_world) 99 5 5 0 (list_snapshots (sp (demo demo_closed)))
     (sp (demo demo_closed))))) demo_c = None"
proof -
  let ?p = "sp (demo demo_closed)"
  have y: "w_yield ((\<lambda>_. still_world) j) k = (\<lambda>q. q)" for j k by (simp add: still_world_def)
  have inv: "pool_inv ?p" by (rule sys_invD(1) [OF lease.inv_reachable [OF demo_orderly(2)]])
  have "case hget (handles ?p) demo_c of None \<Rightarrow> False
    | Some row \<Rightarrow> hr_status row \<noteq> Running \<and> 5 < 99 - hr_polled row" by code_simp
  then obtain row where "hget (handles ?p) demo_c = Some row" "hr_status row \<noteq> Running"
    "5 < 99 - hr_polled row" by (auto split: option.splits)
  with sweeper_removes_exactly_old [where Ws = "\<lambda>_. still_world", OF y inv] show ?thesis by blast
qed

section \<open>Traces behind the findings\<close>

definition race_events :: "event list" where
  "race_events = demo_start @ [SubmitCheck demo_s demo_c ''ls'' Parallel, DropRequests demo_w False,
     SubmitRegister demo_s 5 6, DropWorker demo_w 7, SubmitSend demo_s Sent]"

text \<open>
  Between its two critical sections \<open>handle_worker_drop\<close> can miss a command: in a reachable state
  no task holds anything any more, the worker is not registered and its session has failed, and yet a
  handle of that session is running, in flight on the lost worker.  The submission registered after the
  drop had collected the worker's requests and before it failed the session.
\<close>

theorem drop_race_strands_handle:
  "\<exists>s row e r. reachable init_sys sys_step s \<and> hget (handles (sp s)) demo_c = Some row \<and>
     hr_status row = Running \<and> hget (inflight (sp s)) demo_c = Some e \<and> pe_worker e = demo_w \<and>
     hget (liveness (sp s)) demo_w = None \<and> hget (sessions (sp s)) demo_s = Some r \<and>
     sr_state r = Failed \<and> finishing s = [] \<and> locks s = []"
proof -
  have "run_events race_events empty_sys \<noteq> None"
    and h: "case hget (handles (sp (demo race_events))) demo_c of None \<Rightarrow> False
      | Some row \<Rightarrow> hr_status row = Running"
    and f: "case hget (inflight (sp (demo race_events))) demo_c of None \<Rightarrow> False
      | Some e \<Rightarrow> pe_worker e = demo_w"
    and l: "hget (liveness (sp (demo race_events))) demo_w = None"
    and r: "case hget (sessions (sp (demo race_events))) demo_s of None \<Rightarrow> False
      | Some r \<Rightarrow> sr_state r = Failed"
    and t: "finishing (demo race_events) = []" "locks (demo race_events) = []"
    by code_simp+
  then have "reachable init_sys sys_step (demo race_events)"
    by (intro run_events_reachable [of race_events]) (simp add: demo_def)
  with h f l r t show ?thesis
    by (intro exI [of _ "demo race_events"]) (auto split: option.splits)
qed

text \<open>A second \<open>SessionClosed\<close> for the same session puts its worker into the idle queue twice: the
  handler does not check that the session is the one the worker holds.\<close>

lemma repeated_close_duplicates_worker:
  "case close_take 8 demo_w demo_s None True (sp (demo demo_start)) of None \<Rightarrow> False
   | Some (_, p) \<Rightarrow> (case close_take 9 demo_w demo_s None True p of None \<Rightarrow> False
      | Some (_, q) \<Rightarrow> map we_id (idle q) = [demo_w, demo_w])"
  by code_simp

text \<open>A Result is applied to the handle it names whichever worker sends it: here a worker that owns
  nothing finishes a command that runs elsewhere.\<close>

lemma foreign_result_accepted:
  "case hget (handles (fst (handle_frame still_world (WorkerId ''other'') None (Result late_result)
     (sp (demo demo_run))))) demo_c of None \<Rightarrow> False | Some row \<Rightarrow> hr_status row = Completed"
  by code_simp

end
