(* ===== verification/PoolRefine.thy ===== *)
theory PoolRefine
  imports PoolProps
begin

text \<open>
  What the pool promises its clients, as a small specification, and the proof that the pool of
  \<open>pool/mod.rs\<close> implements it: a worker is leased to one session at a time, a session only moves
  forward through its phases, and a command is accepted by a serving session, settled once, and kept
  until it is forgotten.  It does so in orderly runs (\<open>PoolLease\<close>).  Sockets, channels, clocks, queues and counters do not appear.
\<close>

section \<open>Simulations\<close>

text \<open>An abstraction that maps the steps of a system, from the states of its invariant, to steps of a
  specification.\<close>

locale simulation = step_invariant init step inv
  for init :: "'s \<Rightarrow> bool" and step :: "'s \<Rightarrow> 'e \<Rightarrow> 's \<Rightarrow> bool" and inv :: "'s \<Rightarrow> bool" +
  fixes ainit :: "'a \<Rightarrow> bool" and astep :: "'a \<Rightarrow> 'ae \<Rightarrow> 'a \<Rightarrow> bool" and abs :: "'s \<Rightarrow> 'a"
  assumes sim_init: "init s \<Longrightarrow> ainit (abs s)"
    and sim_step: "inv s \<Longrightarrow> step s e t \<Longrightarrow> \<exists>a. astep (abs s) a (abs t)"
begin

lemma sim_reachable: "reachable init step s \<Longrightarrow> reachable ainit astep (abs s)"
proof (induction rule: reachable.induct)
  case (reach_init s)
  from sim_init [OF this] show ?case by (rule reachable.reach_init)
next
  case (reach_step s e t)
  from sim_step [OF inv_reachable [OF reach_step.hyps(1)] reach_step.hyps(2)] obtain a
    where "astep (abs s) a (abs t)" by blast
  with reach_step.IH show ?case by (rule reachable.reach_step)
qed

lemma sim_run: "run step s es t \<Longrightarrow> inv s \<Longrightarrow> \<exists>as. length as = length es \<and> run astep (abs s) as (abs t)"
proof (induction rule: run.induct)
  case (run_nil s)
  then show ?case by simp
next
  case (run_cons s e t es u)
  from sim_step [OF run_cons.prems run_cons.hyps(1)] obtain a where "astep (abs s) a (abs t)" by blast
  moreover from run_cons.IH [OF inv_step [OF run_cons.prems run_cons.hyps(1)]] obtain as
    where "length as = length es" "run astep (abs t) as (abs u)" by blast
  ultimately have "length (a # as) = length (e # es) \<and> run astep (abs s) (a # as) (abs u)"
    by (simp add: run_Cons_iff) blast
  then show ?case by blast
qed

end

section \<open>The specification\<close>

datatype phase = Starting | Serving | Stopping | Over

fun rank :: "phase \<Rightarrow> nat" where
  "rank Starting = 0"
| "rank Serving = 1"
| "rank Stopping = 2"
| "rank Over = 3"

type_synonym verdict =
  "handle_status \<times> time option \<times> i32 option \<times> i32 option \<times> exit_cause option \<times> bool"

record service =
  lease :: "worker_id \<Rightarrow> session_id option"
  phase_of :: "session_id \<Rightarrow> phase option"
  command_of :: "exec_id \<Rightarrow> (session_id option \<times> verdict option) option"

datatype service_event =
    Grant worker_id session_id
  | Advance session_id phase
  | Release worker_id session_id
  | Lapse worker_id
  | Accept exec_id "session_id option"
  | Settle exec_id verdict
  | ForgetCommand exec_id
  | Retract exec_id
  | ForgetSessions "session_id set"
  | Stutter

text \<open>When an event may happen, and what it does.\<close>

fun permitted :: "service_event \<Rightarrow> service \<Rightarrow> bool" where
  "permitted (Grant w s) a \<longleftrightarrow> lease a w = None \<and> phase_of a s = None \<and> s \<notin> ran (lease a)"
| "permitted (Advance s y) a \<longleftrightarrow> (\<exists>x. phase_of a s = Some x \<and> rank x \<le> rank y)"
| "permitted (Release w s) a \<longleftrightarrow> lease a w = Some s"
| "permitted (Lapse w) a \<longleftrightarrow> (\<forall>s. lease a w = Some s \<longrightarrow> phase_of a s \<in> {None, Some Over})"
| "permitted (Accept c s) a \<longleftrightarrow> command_of a c = None \<and> (\<forall>x. s = Some x \<longrightarrow> phase_of a x = Some Serving)"
| "permitted (Settle c v) a \<longleftrightarrow> (\<exists>s. command_of a c = Some (s, None))"
| "permitted (ForgetCommand c) a \<longleftrightarrow> (\<exists>s v. command_of a c = Some (s, Some v))"
| "permitted (Retract c) a \<longleftrightarrow> command_of a c = Some (None, None)"
| "permitted (ForgetSessions S) a \<longleftrightarrow> phase_of a ` S \<subseteq> {Some Over}"
| "permitted Stutter a \<longleftrightarrow> True"

fun perform :: "service_event \<Rightarrow> service \<Rightarrow> service" where
  "perform (Grant w s) a = a\<lparr>lease := (lease a)(w := Some s), phase_of := (phase_of a)(s := Some Starting)\<rparr>"
| "perform (Advance s y) a = a\<lparr>phase_of := (phase_of a)(s := Some y)\<rparr>"
| "perform (Release w s) a = a\<lparr>lease := (lease a)(w := None), phase_of := (phase_of a)(s := Some Over)\<rparr>"
| "perform (Lapse w) a = a\<lparr>lease := (lease a)(w := None)\<rparr>"
| "perform (Accept c s) a = a\<lparr>command_of := (command_of a)(c := Some (s, None))\<rparr>"
| "perform (Settle c v) a = a\<lparr>command_of := (command_of a)(c :=
     map_option (\<lambda>(s, _). (s, Some v)) (command_of a c))\<rparr>"
| "perform (ForgetCommand c) a = a\<lparr>command_of := (command_of a)(c := None)\<rparr>"
| "perform (Retract c) a = a\<lparr>command_of := (command_of a)(c := None)\<rparr>"
| "perform (ForgetSessions S) a = a\<lparr>phase_of := (\<lambda>s. if s \<in> S then None else phase_of a s)\<rparr>"
| "perform Stutter a = a"

definition service_init :: "service \<Rightarrow> bool" where
  "service_init a \<longleftrightarrow> lease a = (\<lambda>_. None) \<and> phase_of a = (\<lambda>_. None) \<and> command_of a = (\<lambda>_. None)"

definition service_step :: "service \<Rightarrow> service_event \<Rightarrow> service \<Rightarrow> bool" where
  "service_step a e b \<longleftrightarrow> permitted e a \<and> b = perform e a"

text \<open>What the specification guarantees in every reachable state: leases exclude each other, and a
  session that is not over holds a worker.\<close>

definition service_inv :: "service \<Rightarrow> bool" where
  "service_inv a \<longleftrightarrow> inj_on (lease a) (dom (lease a)) \<and>
     (\<forall>s x. phase_of a s = Some x \<longrightarrow> x \<noteq> Over \<longrightarrow> s \<in> ran (lease a))"

interpretation service: step_invariant service_init service_step service_inv
proof unfold_locales
  fix a assume "service_init a"
  then show "service_inv a" by (simp add: service_init_def service_inv_def)
next
  fix a e b assume inv: "service_inv a" and st: "service_step a e b"
  have inj: "lease a w = Some s \<Longrightarrow> lease a w' = Some s \<Longrightarrow> w = w'" for w w' s
    using inv by (auto simp: service_inv_def dom_def inj_on_def)
  have held: "phase_of a s = Some x \<Longrightarrow> x \<noteq> Over \<Longrightarrow> \<exists>w. lease a w = Some s" for s x
    using inv by (auto simp: service_inv_def ran_def)
  show "service_inv b"
  proof (cases e)
    case (Grant w s)
    have "inj_on (lease b) (dom (lease b))"
      using st inj by (auto simp: service_step_def Grant inj_on_def dom_def ran_def split: if_splits)
    moreover have "\<exists>v. lease b v = Some x" if "phase_of b x = Some y" "y \<noteq> Over" for x y
    proof (cases "x = s")
      case True
      with st show ?thesis by (auto simp: service_step_def Grant)
    next
      case False
      with st held [of x y] that obtain v where "lease a v = Some x" by (auto simp: service_step_def Grant)
      with st show ?thesis by (intro exI [of _ v]) (auto simp: service_step_def Grant)
    qed
    ultimately show ?thesis by (auto simp: service_inv_def ran_def)
  next
    case (Advance s y)
    have "\<exists>v. lease b v = Some x" if "phase_of b x = Some z" "z \<noteq> Over" for x z
    proof (cases "x = s")
      case True
      with st that obtain u where "phase_of a s = Some u" "rank u \<le> rank z"
        by (auto simp: service_step_def Advance)
      with that(2) held [of s u] st True show ?thesis by (cases u; cases z) (auto simp: service_step_def Advance)
    next
      case False
      with st that held [of x z] show ?thesis by (auto simp: service_step_def Advance)
    qed
    with inv st show ?thesis by (auto simp: service_inv_def service_step_def Advance ran_def)
  next
    case (Release w s)
    have "\<exists>v. lease b v = Some x" if "phase_of b x = Some z" "z \<noteq> Over" for x z
    proof -
      from st that have x: "x \<noteq> s" "phase_of a x = Some z" "lease a w = Some s"
        by (auto simp: service_step_def Release split: if_splits)
      from held [OF x(2) that(2)] obtain v where v: "lease a v = Some x" ..
      with x have "v \<noteq> w" by fastforce
      with v st show ?thesis by (intro exI [of _ v]) (auto simp: service_step_def Release)
    qed
    moreover have "inj_on (lease b) (dom (lease b))"
      using st inj by (auto simp: service_step_def Release inj_on_def dom_def split: if_splits)
    ultimately show ?thesis by (auto simp: service_inv_def ran_def)
  next
    case (Lapse w)
    have "\<exists>v. lease b v = Some x" if "phase_of b x = Some z" "z \<noteq> Over" for x z
      using st that held [of x z] by (fastforce simp: service_step_def Lapse)
    moreover have "inj_on (lease b) (dom (lease b))"
      using st inj by (auto simp: service_step_def Lapse inj_on_def dom_def split: if_splits)
    ultimately show ?thesis by (auto simp: service_inv_def ran_def)
  qed (use inv st in \<open>auto simp: service_inv_def service_step_def split: if_splits\<close>)
qed

section \<open>The abstraction\<close>

fun phase_in :: "session_state \<Rightarrow> phase" where
  "phase_in Opening = Starting"
| "phase_in Active = Serving"
| "phase_in Closing = Stopping"
| "phase_in Closed = Over"
| "phase_in Failed = Over"

definition command_view :: "handle_row \<Rightarrow> session_id option \<times> verdict option" where
  "command_view row = (hr_session row, if hr_status row = Running then None else Some (outcome_of row))"

definition service_of :: "pool \<Rightarrow> service" where
  "service_of p = \<lparr>lease = hget (worker_sessions p),
     phase_of = (\<lambda>sid. map_option (phase_in \<circ> sr_state) (hget (sessions p) sid)),
     command_of = (\<lambda>rid. map_option command_view (hget (handles p) rid))\<rparr>"

definition implements :: "pool \<Rightarrow> pool \<Rightarrow> bool" where
  "implements p q \<longleftrightarrow> (\<exists>e. service_step (service_of p) e (service_of q))"

lemma implementsI: "permitted e (service_of p) \<Longrightarrow> service_of q = perform e (service_of p) \<Longrightarrow> implements p q"
  by (auto simp: implements_def service_step_def)

lemma implements_same: "service_of q = service_of p \<Longrightarrow> implements p q"
  by (rule implementsI [of Stutter]) simp_all

lemma implements_refl [simp]: "implements p p"
  by (rule implements_same) simp

lemma service_simps [simp]:
  "service_of (p\<lparr>idle := i\<rparr>) = service_of p"
  "service_of (p\<lparr>liveness := l\<rparr>) = service_of p"
  "service_of (p\<lparr>inflight := f\<rparr>) = service_of p"
  "service_of (p\<lparr>pty_sessions := t\<rparr>) = service_of p"
  "lease (service_of p) = hget (worker_sessions p)"
  "phase_of (service_of p) sid = map_option (phase_in \<circ> sr_state) (hget (sessions p) sid)"
  "command_of (service_of p) rid = map_option command_view (hget (handles p) rid)"
  by (simp_all add: service_of_def)

lemma service_eqI:
  assumes "\<And>w. hget (worker_sessions q) w = hget (worker_sessions p) w"
    and "\<And>sid. map_option (phase_in \<circ> sr_state) (hget (sessions q) sid)
      = map_option (phase_in \<circ> sr_state) (hget (sessions p) sid)"
    and "\<And>rid. map_option command_view (hget (handles q) rid) = map_option command_view (hget (handles p) rid)"
  shows "service_of q = service_of p"
  using assms by (simp add: service_of_def fun_eq_iff)

text \<open>A session whose record is replaced moves forward.\<close>

lemma implements_session:
  assumes "hget (sessions p) sid = Some r" and "rank (phase_in (sr_state r)) \<le> rank (phase_in (sr_state r'))"
  shows "implements p (p\<lparr>sessions := hput sid r' (sessions p)\<rparr>)"
  by (rule implementsI [of "Advance sid (phase_in (sr_state r'))"])
    (use assms in \<open>auto simp: service_of_def fun_eq_iff\<close>)

lemma same_hmod_session:
  "(\<And>r. sr_state (f r) = sr_state r) \<Longrightarrow> service_of (p\<lparr>sessions := hmod sid f (sessions p)\<rparr>) = service_of p"
  by (rule service_eqI) (auto simp: option.map_comp comp_def)

lemma same_hmod_row:
  "(\<And>row. command_view (f row) = command_view row) \<Longrightarrow>
     service_of (p\<lparr>handles := hmod rid f (handles p)\<rparr>) = service_of p"
  by (rule service_eqI) (auto simp: option.map_comp comp_def)

lemma same_touch_worker: "service_of (touch_worker now w p) = service_of p"
  by (simp add: touch_worker_def)

lemma same_register: "register_worker now w profile loc c p = Inr q \<Longrightarrow> service_of q = service_of p"
  by (auto simp: register_worker_def split: if_splits intro!: service_eqI)

lemma same_touch_session: "service_of (touch_session now sid p) = service_of p"
  unfolding touch_session_def by (rule same_hmod_session) simp

lemma same_detach: "service_of (detach_terminal_if now sid ch p) = service_of p"
  unfolding detach_terminal_if_def by (rule same_hmod_session) simp

lemma same_poll: "service_of (poll_row now rid p) = service_of p"
  unfolding poll_row_def by (rule same_hmod_row) (simp add: command_view_def outcome_of_def)

lemma same_spool: "service_of (mark_spool_failed rid p) = service_of p"
  unfolding mark_spool_failed_def by (rule same_hmod_row) (simp add: command_view_def outcome_of_def)

lemma same_complete_take: "service_of (complete_take now rid p) = service_of p"
  by (rule service_eqI)
    (auto simp: complete_take_def Let_def option.map_comp comp_def split: option.splits intro: option.map_cong)

lemma same_drop_inflight: "service_of (snd (drop_inflight w p)) = service_of p"
  by (simp add: drop_inflight_def)

lemma same_attach: "service_of (snd (attach_terminal now ch sid p)) = service_of p"
  by (auto simp: attach_terminal_def split: option.splits intro!: service_eqI)

lemma same_cancel: "service_of (snd (cancel_request rid p)) = service_of p"
  by (auto simp: cancel_request_def command_view_def outcome_of_def split: option.splits intro!: service_eqI)

lemma same_list: "service_of (snd (list_session_commands now sid p)) = service_of p"
proof -
  have get: "hget (map (\<lambda>(rid, row). (rid, g row)) m) x = map_option g (hget m x)"
    for g :: "handle_row \<Rightarrow> handle_row" and m and x :: exec_id
    by (simp add: hget_def map_of_map)
  show ?thesis
    by (rule service_eqI)
      (auto simp: list_session_commands_def Let_def get option.map_comp comp_def command_view_def outcome_of_def
        split: option.splits intro!: option.map_cong)
qed

lemmas same_service = same_touch_worker same_touch_session same_detach same_poll same_spool same_complete_take
  same_drop_inflight same_attach same_cancel same_list

lemma implements_ready: "implements p (fst (session_ready now w sid error p))"
  by (auto simp: session_ready_def ready_record_def clear_inputs_def Let_def split: option.splits
      intro!: implements_session)

lemma implements_close_begin: "implements p (snd (close_begin gate ch sid p))"
proof -
  have early: "rank (phase_in st) \<le> 2" if "st \<noteq> Closed" "st \<noteq> Failed" for st
    using that by (cases st) simp_all
  show ?thesis
    by (auto simp: close_begin_def early split: option.splits intro!: implements_session)
qed

lemma implements_reserve:
  assumes ids: "ids_ok s" and inv: "pool_inv (sp s)" and fresh: "open_session_id op \<notin> set (opened_ids s)"
    and res: "create_reserve now profile op ready (sp s) = (Inr wk, q)"
  shows "implements (sp s) q"
proof -
  let ?sid = "open_session_id op"
  have none: "hget (sessions (sp s)) ?sid = None" "hget (worker_sessions (sp s)) w \<noteq> Some ?sid" for w
    using ids_okD(1,2) [OF ids] fresh by (cases "hget (sessions (sp s)) ?sid"; blast)+
  from res obtain as bs where split: "idle (sp s) = as @ wk # bs"
    and q: "q = (sp s)\<lparr>idle := as @ bs, worker_sessions := hput (we_id wk) ?sid (worker_sessions (sp s)),
      sessions := hput ?sid (opening_record now profile op ready wk) (sessions (sp s))\<rparr>"
    by (rule create_reserve_cases) blast
  have wk: "wk \<in> set (idle (sp s))" by (simp add: split)
  have "hget (worker_sessions (sp s)) (we_id wk) = None"
    using idle_entryD [OF pool_invD(2) [OF inv] wk] by metis
  then show ?thesis
    using none by (intro implementsI [of "Grant (we_id wk) ?sid"])
      (auto simp: q service_of_def fun_eq_iff ran_def opening_record_def)
qed

lemma implements_register:
  assumes ids: "ids_ok s" and fresh: "rid \<notin> set (issued s)"
    and reg: "submit_register t0 now cap sid rid mode (sp s) = (None, q)"
  shows "implements (sp s) q"
proof -
  have none: "hget (handles (sp s)) rid = None"
    using ids_okD(4) [OF ids] fresh by (cases "hget (handles (sp s)) rid") blast+
  from reg have err: "submit_error mode sid (sp s) = None"
    by (auto simp: submit_register_def split: option.splits)
  then obtain r where r: "hget (sessions (sp s)) sid = Some r" "sr_state r = Active"
    by (rule submit_error_None)
  show ?thesis
    by (rule implementsI [of "Accept rid (Some sid)"])
      (use reg none r err in \<open>auto simp: submit_register_def service_of_def fun_eq_iff fresh_row_def command_view_def
        option.map_comp comp_def\<close>)
qed

lemma implements_unbind:
  assumes "hget (worker_sessions p) w = Some sid" and "\<not> live_state (sr_state r')"
  shows "implements p (p\<lparr>sessions := hput sid r' (sessions p), worker_sessions := hdel w (worker_sessions p)\<rparr>)"
proof -
  have "phase_in (sr_state r') = Over" using assms(2) by (cases "sr_state r'") (simp_all add: live_state_def)
  with assms(1) show ?thesis
    by (intro implementsI [of "Release w sid"]) (auto simp: service_of_def fun_eq_iff)
qed

lemma implements_cong: "service_of q = service_of q' \<Longrightarrow> implements p q \<longleftrightarrow> implements p q'"
  by (simp add: implements_def)

lemma implements_close_take:
  assumes inv: "pool_inv p" and own: "closes_own w sid p"
    and ct: "close_take now w sid error reusable p = Some (out, q)"
  shows "implements p q"
proof -
  from ct obtain r where r: "hget (sessions p) sid = Some r" "sr_worker r = w"
    and q: "q = p\<lparr>sessions := hput sid (closed_record now error r) (sessions p),
       worker_sessions := hdel w (worker_sessions p),
       idle := (if reusable \<and> hhas (liveness p) w
         then idle p @ [\<lparr>we_id = w, we_profile = sr_profile r, we_sink = sr_sink r\<rparr>] else idle p),
       inflight := hretain (\<lambda>_ e. pe_session e \<noteq> Some sid) (inflight p)\<rparr>"
    by (rule close_take_cases) blast
  have "implements p (p\<lparr>sessions := hput sid (closed_record now error r) (sessions p),
      worker_sessions := hdel w (worker_sessions p)\<rparr>)"
  proof (cases "hget (worker_sessions p) w")
    case None
    then have "\<not> live_state (sr_state r)"
      using sessions_okD [OF pool_invD(4) [OF inv] r(1)] r(2) by (auto simp: session_ok_def)
    then have "phase_in (sr_state r) = Over" by (cases "sr_state r") (simp_all add: live_state_def)
    then show ?thesis
      using None r by (intro implements_same service_eqI) auto
  next
    case (Some x)
    with own show ?thesis
      by (intro implements_unbind) (auto simp: closes_own_def live_state_def)
  qed
  then show ?thesis by (subst implements_cong) (auto simp: q)
qed

lemma implements_drop_worker:
  assumes inv: "pool_inv p"
  shows "implements p (snd (drop_worker now w p))"
proof (cases "hget (worker_sessions p) w")
  case None
  then show ?thesis
    by (intro implements_same service_eqI) (auto simp: drop_worker_def Let_def)
next
  case (Some sid)
  show ?thesis
  proof (cases "hget (sessions p) sid")
    case None
    with Some show ?thesis
      by (intro implementsI [of "Lapse w"]) (auto simp: drop_worker_def Let_def service_of_def fun_eq_iff)
  next
    case r: (Some r)
    have "implements p (p\<lparr>sessions := hput sid (fail_session now r) (sessions p),
        worker_sessions := hdel w (worker_sessions p)\<rparr>)"
      using Some by (rule implements_unbind) (simp add: live_state_def)
    then show ?thesis
      by (subst implements_cong)
        (use Some r in \<open>auto simp: drop_worker_def Let_def hmod_as_hput intro!: service_eqI\<close>)
  qed
qed

lemma implements_finish:
  assumes "finisher upd"
  shows "implements p (fst (finish_row upd rid p))"
proof (cases "hget (handles p) rid")
  case None
  then show ?thesis by (simp add: finish_row_def)
next
  case (Some row)
  show ?thesis
  proof (cases "hr_status row = Running")
    case True
    with Some assms show ?thesis
      by (intro implementsI [of "Settle rid (outcome_of (upd row))"])
        (auto simp: finish_row_def service_of_def fun_eq_iff command_view_def finisher_def)
  next
    case False
    with Some show ?thesis by (simp add: finish_row_def)
  qed
qed

lemma implements_purge:
  assumes "hget (handles p) rid = Some row" and "hr_status row \<noteq> Running"
  shows "implements p (fst (purge_handle rid p))"
  by (rule implementsI [of "ForgetCommand rid"])
    (use assms in \<open>auto simp: purge_handle_def service_of_def fun_eq_iff command_view_def outcome_of_def\<close>)

lemma implements_retain:
  assumes inv: "pool_inv p"
  shows "implements p (retain_sessions now ttl p)"
proof -
  let ?S = "{sid. \<exists>r at_time. hget (sessions p) sid = Some r \<and> sr_finished r = Some at_time \<and>
    \<not> duration_since now at_time \<le> ttl}"
  have over: "phase_in (sr_state r) = Over" if "hget (sessions p) sid = Some r" "sr_finished r \<noteq> None" for sid r
    using sessions_okD [OF pool_invD(4) [OF inv] that(1)] that(2)
    by (cases "sr_state r") (auto simp: session_ok_def live_state_def)
  have wf: "hwf (sessions p)" using pool_invD(1) [OF inv] by (simp add: maps_ok_def)
  have "phase_of (service_of p) ` ?S \<subseteq> {Some Over}" using over by auto
  moreover have "service_of (retain_sessions now ttl p) = perform (ForgetSessions ?S) (service_of p)"
    using wf by (auto simp: service_of_def retain_sessions_def fun_eq_iff split: option.splits)
  ultimately show ?thesis by (intro implementsI [of "ForgetSessions ?S"]) simp_all
qed

lemma implements_dispatch:
  assumes ids: "ids_ok s" and fresh: "rid \<notin> set (issued s)"
  shows "implements (sp s) (dispatch_register wk rid t0 now (sp s))"
proof -
  have "hget (handles (sp s)) rid = None"
    using ids_okD(4) [OF ids] fresh by (cases "hget (handles (sp s)) rid") blast+
  then show ?thesis
    by (intro implementsI [of "Accept rid None"])
      (simp_all add: dispatch_register_def service_of_def fun_eq_iff fresh_row_def command_view_def)
qed

lemma implements_retract:
  assumes "unsent_ok s" and "rid \<in> set (unsent s)"
  shows "implements (sp s) ((sp s)\<lparr>inflight := hdel rid (inflight (sp s)), handles := hdel rid (handles (sp s))\<rparr>)"
proof (cases "hget (handles (sp s)) rid")
  case None
  then show ?thesis by (intro implements_same service_eqI) (simp_all add: hdel_absent)
next
  case (Some row)
  with assms have "hr_session row = None" by (simp add: unsent_ok_def)
  with Some show ?thesis
    by (cases "hr_status row = Running"; intro implementsI [of "if hr_status row = Running then Retract rid else ForgetCommand rid"])
      (simp_all add: service_of_def fun_eq_iff command_view_def outcome_of_def)
qed

lemma same_held:
  "service_of (sp (take_step s)) = service_of (sp s)" "service_of (sp (pin_step ch s)) = service_of (sp s)"
  "back_step wk s = Some t \<Longrightarrow> service_of (sp t) = service_of (sp s)"
  "unpin_step wk s = Some t \<Longrightarrow> service_of (sp t) = service_of (sp s)"
  by (auto simp: take_step_def pin_step_def back_step_def unpin_step_def pop_idle_def acquire_pinned_def
      release_pinned_def Let_def split: list.splits if_splits)

section \<open>The refinement\<close>

lemma implements_step:
  assumes inv: "sys_inv s" and st: "orderly_step s e t"
  shows "implements (sp s) (sp t)"
proof -
  note p = sys_invD(1) [OF inv] and ids = sys_invD(2) [OF inv]
  have st': "apply_event e s = Some t" and o: "orderly s e" using st by (simp_all add: orderly_step_def sys_step_def)
  show ?thesis
  proof (cases e)
    case (RegisterEv w profile loc c now)
    with st' show ?thesis by (auto split: sum.splits if_splits dest!: same_register intro: implements_same)
  next
    case (ExecRegister wk rid t0 now)
    with st' implements_dispatch [OF ids] show ?thesis by (auto simp: exec_step_def split: if_splits)
  next
    case (ExecSend rid r)
    with st' implements_retract [OF sys_invD(7) [OF inv]] show ?thesis by (auto simp: exec_sent_step_def split: if_splits)
  next
    case (ExecBack wk)
    with st' same_held(3) show ?thesis by (auto intro: implements_same)
  next
    case (UnpinEv wk)
    with st' same_held(4) show ?thesis by (auto intro: implements_same)
  next
    case ExecTake
    with st' show ?thesis by (auto intro: implements_same simp: same_held)
  next
    case (PinEv ch)
    with st' show ?thesis by (auto intro: implements_same simp: same_held)
  next
    case (CreateBegin profile op ready now)
    with st' show ?thesis
      by (auto split: if_splits prod.splits sum.splits dest: implements_reserve [OF ids p])
  next
    case (CreateDone sid now)
    with st' show ?thesis
      by (auto split: if_splits prod.splits sum.splits dest!: created_snapshot_pool
          intro: implements_same [OF same_touch_session])
  next
    case (ReadyEv w sid error now)
    with st' show ?thesis by (auto simp: set_pool_def implements_ready)
  next
    case (ClosedEv w sid error reusable now)
    with st' o show ?thesis
      by (auto simp: closed_step_def split: option.splits dest: implements_close_take [OF p])
  next
    case (SubmitRegister sid t0 now)
    with st' show ?thesis
      by (auto simp: register_step_def split: option.splits holder.splits if_splits prod.splits
          dest: submit_register_Some implements_register [OF ids])
  next
    case (CloseBegin gate sid ch)
    have "sp t = snd (close_begin gate ch sid (sp s))"
      using st' CloseBegin
      by (auto simp: close_step_def split: if_splits prod.splits close_step.splits bool.splits)
    then show ?thesis by (simp add: implements_close_begin)
  next
    case (DropRequests w oom)
    with st' have "sp t = snd (drop_inflight w (sp s))"
      by (auto simp: drop_step_def case_prod_unfold Let_def)
    then show ?thesis by (simp add: implements_same same_drop_inflight)
  next
    case (DropWorker w now)
    with st' show ?thesis by (auto simp: set_pool_def implements_drop_worker [OF p])
  next
    case (FinishEv rid now)
    then obtain x how rest where f: "take_first (\<lambda>(x, _). x = rid) (finishing s) = Some ((x, how), rest)"
      and t: "t = s\<lparr>sp := fst (finish_row (outcome_row how now) rid (sp s)), finishing := rest\<rparr>"
      using st' by (auto simp: finish_step_def split: option.splits)
    have "(x, how) \<in> set (finishing s)" using f by (auto elim: take_first_Some)
    then have "outcome_ok how" using sys_invD(4) [OF inv] by (auto simp: finishing_ok_def)
    then show ?thesis unfolding t by (simp add: implements_finish outcome_row_finisher)
  next
    case (PurgeEv rid)
    with st' show ?thesis
      by (auto simp: set_pool_def split: option.splits if_splits intro: implements_purge)
  next
    case (SweepSessions now ttl)
    with st' show ?thesis by (auto simp: set_pool_def implements_retain [OF p])
  qed (use st' in \<open>auto simp: set_pool_def submit_step_def send_run_step_def send_close_step_def
      result_step_def Let_def split: if_splits option.splits holder.splits sum.splits
      intro!: implements_same same_service\<close>)
qed

interpretation promised: simulation init_sys orderly_step sys_inv service_init service_step "\<lambda>s. service_of (sp s)"
proof unfold_locales
  fix s assume "init_sys s"
  then show "service_init (service_of (sp s))"
    by (auto simp: init_sys_def service_init_def service_of_def new_pool_def fun_eq_iff)
next
  fix s e t assume "sys_inv s" "orderly_step s e t"
  from implements_step [OF this] show "\<exists>a. service_step (service_of (sp s)) a (service_of (sp t))"
    by (simp add: implements_def)
qed

text \<open>
  C4: The pool implements its specification as long as its runs are orderly (a worker reports only the session it
  holds as closed, and no worker is given back after the connection it was taken on was lost): whatever clients,
  workers and the sweeper do, in every interleaving of critical sections, a run of the pool is, step by step, a run of the small service in
  which a worker is leased to one session at a time, sessions only move forward, the commands of a session are
  accepted only while it serves, and a command is settled once with a final verdict and forgotten only
  afterwards, but for one without a session that could not be sent.
\<close>

theorem pool_implements_service:
  assumes "init_sys s" and "run orderly_step s es t"
  shows "service_init (service_of (sp s)) \<and>
    (\<exists>as. length as = length es \<and> run service_step (service_of (sp s)) as (service_of (sp t)))"
  using promised.sim_init [OF assms(1)] promised.sim_run [OF assms(2) lease.inv_init [OF assms(1)]] by blast

theorem pool_implements_service_witness:
  "\<exists>as. length as = 11 \<and> run service_step (service_of new_pool) as (service_of (sp (demo demo_closed)))"
proof -
  have i: "init_sys empty_sys" by (simp add: init_sys_def empty_sys_def)
  have r: "run orderly_step empty_sys demo_closed (demo demo_closed)"
    using demo_run_orderly(2) by (simp add: run_orderly_run)
  have n: "length demo_closed = 11" by (simp add: demo_closed_def demo_run_def demo_start_def)
  have e: "sp empty_sys = new_pool" by (simp add: empty_sys_def)
  from pool_implements_service [OF i r] show ?thesis unfolding n e by blast
qed

text \<open>The guarantees of the specification, transferred.\<close>

lemma leases_exclusive:
  assumes "reachable init_sys orderly_step s" and "hget (worker_sessions (sp s)) w = Some sid"
    and "hget (worker_sessions (sp s)) w' = Some sid"
  shows "w' = w"
proof -
  have "service_inv (service_of (sp s))"
    by (rule service.inv_reachable [OF promised.sim_reachable [OF assms(1)]])
  with assms(2,3) show ?thesis by (auto simp: service_inv_def inj_on_def dom_def)
qed

end
