(* ===== verification/PoolMixed.thy ===== *)
theory PoolMixed
  imports PoolProps
begin

text \<open>
  The session API and the session-less one on the same workers: in every orderly run of the two a worker is
  used once.  The second section shows what the code does in other runs: a worker that comes back from a connection
  that is gone, or that reports a session twice, is queued again and given out twice.
\<close>

section \<open>One use per worker\<close>

lemma distinct_key_filter:
  "distinct (map f xs) \<Longrightarrow> length (filter (\<lambda>x. f x = k) xs) \<le> 1"
proof (induction xs)
  case (Cons x xs)
  have "filter (\<lambda>y. f y = k) xs = []" if "f x = k"
    using that Cons.prems by (auto simp: filter_empty_conv image_iff)
  with Cons show ?case by auto
qed simp

lemma hcount_single:
  assumes "hwf m" and "\<And>x v. hget m x = Some v \<Longrightarrow> P x v \<Longrightarrow> x = k"
  shows "hcount P m \<le> 1"
proof -
  have "hretain P m = filter (\<lambda>x. fst x = k) (hretain P m)"
    using assms by (fastforce simp: hretain_def hget_def hwf_def filter_filter intro: filter_cong)
  moreover have "distinct (map fst (hretain P m))"
    using assms(1) by (auto simp: hretain_def hwf_def distinct_map_filter)
  ultimately show ?thesis unfolding hcount_def by (metis distinct_key_filter)
qed

text \<open>How often a worker is used on a connection: idle entries, live sessions, and holders: dispatches between their
  sections, pinned terminals and session-less commands in flight.\<close>

definition uses :: "worker_id \<Rightarrow> conn \<Rightarrow> sys \<Rightarrow> nat" where
  "uses w c s = length (filter (\<lambda>e. we_id e = w) (idle (sp s)))
     + hcount (\<lambda>_ r. live_state (sr_state r) \<and> sr_worker r = w) (sessions (sp s))
     + length (filter (\<lambda>h. (we_id h, we_sink h) = (w, c)) (holders s))"

lemma session_uses:
  assumes "pool_inv p"
  shows "hcount (\<lambda>_ r. live_state (sr_state r) \<and> sr_worker r = w) (sessions p)
    \<le> (if hget (worker_sessions p) w = None then 0 else 1)"
proof (cases "hget (worker_sessions p) w")
  case None
  have wf: "hwf (sessions p)" using pool_invD(1) [OF assms] by (simp add: maps_ok_def)
  have "\<not> (live_state (sr_state r) \<and> sr_worker r = w)" if "(sid, r) \<in> set (sessions p)" for sid r
    using sessions_okD [OF pool_invD(4) [OF assms], of sid r] that None wf
    by (auto simp: session_ok_def hget_def hwf_def)
  then show ?thesis using None by (auto simp: hcount_zero)
next
  case (Some sid)
  have "hcount (\<lambda>_ r. live_state (sr_state r) \<and> sr_worker r = w) (sessions p) \<le> 1"
  proof (rule hcount_single)
    show "hwf (sessions p)" using pool_invD(1) [OF assms] by (simp add: maps_ok_def)
    show "x = sid" if "hget (sessions p) x = Some r" "live_state (sr_state r) \<and> sr_worker r = w" for x r
      using sessions_okD [OF pool_invD(4) [OF assms] that(1)] that(2) Some by (auto simp: session_ok_def)
  qed
  then show ?thesis using Some by simp
qed

text \<open>
  C3: A worker has one use at a time: in every orderly interleaving of the session API with legacy commands and pinned
  terminals (a worker reports only the session it holds as closed, and no worker is given back after the connection it
  was taken on was lost; \<open>disorderly_double_lease\<close> shows a run that is not orderly), a connected worker is in at most one of the places the code keeps workers in: the idle queue, a live
  session, a dispatch between taking and registering, a legacy command in flight, a pinned terminal.
\<close>

theorem worker_used_once:
  assumes "reachable init_sys orderly_step s" and "hget (liveness (sp s)) w = Some l"
  shows "uses w (lv_shutdown l) s \<le> 1"
proof -
  let ?i = "filter (\<lambda>e. we_id e = w) (idle (sp s))"
  let ?h = "filter (\<lambda>h. (we_id h, we_sink h) = (w, lv_shutdown l)) (holders s)"
  note inv = sys_invD [OF lease.inv_reachable [OF assms(1)]]
  note idle = pool_invD(2) [OF inv(1)]
  have i: "length ?i \<le> 1" using idle by (intro distinct_key_filter) (simp add: idle_ok_def)
  have h: "length ?h \<le> 1" using inv(6) by (intro distinct_key_filter) (simp add: held_ok_def)
  have "hget (worker_sessions (sp s)) w = None" if "?i \<noteq> []"
    using that idle by (auto simp: idle_ok_def filter_empty_conv)
  moreover have "hget (worker_sessions (sp s)) w = None" "?i = []" if "?h \<noteq> []"
  proof -
    from that obtain h where "h \<in> set (holders s)" "we_id h = w" "we_sink h = lv_shutdown l"
      by (auto simp: filter_empty_conv)
    with inv(6) assms(2) have "hget (worker_sessions (sp s)) w = None" "w \<notin> we_id ` set (idle (sp s))"
      by (auto simp: held_ok_def)
    then show "hget (worker_sessions (sp s)) w = None" "?i = []" by (auto simp: filter_empty_conv)
  qed
  ultimately show ?thesis
    using session_uses [OF inv(1), of w] i h unfolding uses_def by (cases "?h = []"; cases "?i = []") (auto split: if_splits)
qed

text \<open>Two workers: a legacy command runs on the first, a terminal is pinned to the second.\<close>

definition demo_v :: worker_id where "demo_v = WorkerId ''v''"

definition demo_mixed :: "event list" where
  "demo_mixed = [RegisterEv demo_w ''default'' None 7 1, RegisterEv demo_v ''default'' None 8 1, ExecTake, PinEv 3,
     ExecRegister \<lparr>we_id = demo_w, we_profile = ''default'', we_sink = 7\<rparr> demo_c 4 5, ExecSend demo_c Sent,
     CreateBegin ''default'' demo_open 1 6]"

theorem worker_used_once_witness:
  "uses demo_w 7 (demo demo_mixed) \<le> 1 \<and> map pe_worker (map snd (inflight (sp (demo demo_mixed)))) = [demo_w] \<and>
     map we_id (pins (demo demo_mixed)) = [demo_v]"
proof -
  have run: "run_orderly demo_mixed empty_sys \<noteq> None"
    and l: "case hget (liveness (sp (demo demo_mixed))) demo_w of None \<Rightarrow> False | Some l \<Rightarrow> lv_shutdown l = 7"
    and c: "map pe_worker (map snd (inflight (sp (demo demo_mixed)))) = [demo_w]"
    and t: "map we_id (pins (demo demo_mixed)) = [demo_v]" by code_simp+
  from run_orderly_reachable [OF run_orderly_the [OF run]] have "reachable init_sys orderly_step (demo demo_mixed)"
    by (simp add: demo_def)
  moreover from l obtain k where "hget (liveness (sp (demo demo_mixed))) demo_w = Some k" "lv_shutdown k = 7"
    by (auto split: option.splits)
  ultimately have "uses demo_w 7 (demo demo_mixed) \<le> 1" using worker_used_once by metis
  with c t show ?thesis by blast
qed

section \<open>Runs that are not orderly\<close>

text \<open>None of the three places that give a worker back looks at the connection it was taken with.\<close>

fun connected :: "worker_id \<Rightarrow> conn \<Rightarrow> pool \<Rightarrow> pool" where
  "connected w c p = (case register_worker 0 w ''default'' None c p of Inl _ \<Rightarrow> p | Inr q \<Rightarrow> q)"

definition lost :: "worker_id \<Rightarrow> pool \<Rightarrow> pool" where
  "lost w p = snd (drop_worker 0 w p)"

definition old_entry :: worker_entry where
  "old_entry = \<lparr>we_id = demo_w, we_profile = ''default'', we_sink = 7\<rparr>"

text \<open>A terminal pinned on connection 7, which is lost; the worker comes back on connection 8.\<close>

definition pinned_across :: pool where
  "pinned_across = connected demo_w 8 (lost demo_w (snd (acquire_pinned 1 (connected demo_w 7 new_pool))))"

text \<open>The end of that terminal queues the worker a second time, on its old socket; whoever is given the second entry
  fails to send on it, and then ends the connection that works.\<close>

lemma stale_release_duplicates_worker:
  "map (\<lambda>e. (we_id e, we_sink e)) (idle (release_pinned old_entry pinned_across)) = [(demo_w, 8), (demo_w, 7)]"
  "evict_worker demo_w (release_pinned old_entry pinned_across) = [NotifyShutdown 8]"
  by code_simp+

text \<open>A terminal opened meanwhile on the new connection loses its output.\<close>

lemma stale_release_silences_terminal:
  "let p = snd (acquire_pinned 2 pinned_across) in
     hget (pty_sessions p) demo_w = Some 2 \<and> hget (pty_sessions (release_pinned old_entry p)) demo_w = None"
  by code_simp

text \<open>A dispatch whose capture setup fails puts its worker in front of the queue even when the worker was lost
  meanwhile.\<close>

definition setup_fails :: world where
  "setup_fails = still_world\<lparr>w_yield := (\<lambda>k. lost demo_w), w_setup := Some ''no space''\<rparr>"

definition demo_legacy :: execute_frame where
  "demo_legacy = \<lparr>request_id = demo_c, command = ''ls'', working_dir = ''/'', env = [], exec_drop_to = None\<rparr>"

lemma failed_setup_queues_lost_worker:
  "let (r, p, _) = dispatch setup_fails demo_legacy (connected demo_w 7 new_pool) in
     idle p = [old_entry] \<and> hget (liveness p) demo_w = None"
  by code_simp

text \<open>The same as a run of the system: a terminal is pinned, its connection is lost, the worker comes back, and the end
  of the terminal queues it a second time; two sessions are then created on the one worker, and both are live.\<close>

definition double_lease :: "event list" where
  "double_lease = [RegisterEv demo_w ''default'' None 7 1, PinEv 3, DropRequests demo_w False, DropWorker demo_w 4,
     RegisterEv demo_w ''default'' None 8 5, UnpinEv old_entry, CreateBegin ''default'' demo_open 1 6,
     CreateBegin ''default'' (demo_open\<lparr>open_session_id := SessionId ''o''\<rparr>) 2 7]"

lemma disorderly_double_lease:
  "\<exists>s r r'. reachable init_sys sys_step s \<and> hget (sessions (sp s)) demo_s = Some r \<and> live_state (sr_state r) \<and>
     hget (sessions (sp s)) (SessionId ''o'') = Some r' \<and> live_state (sr_state r') \<and> sr_worker r' = sr_worker r \<and>
     sr_sink r \<noteq> sr_sink r'"
proof -
  have "run_events double_lease empty_sys \<noteq> None"
    and r: "case hget (sessions (sp (demo double_lease))) demo_s of None \<Rightarrow> False
      | Some r \<Rightarrow> live_state (sr_state r) \<and> sr_worker r = demo_w \<and> sr_sink r = 8"
    and r': "case hget (sessions (sp (demo double_lease))) (SessionId ''o'') of None \<Rightarrow> False
      | Some r \<Rightarrow> live_state (sr_state r) \<and> sr_worker r = demo_w \<and> sr_sink r = 7"
    by code_simp+
  then have "reachable init_sys sys_step (demo double_lease)"
    by (intro run_events_reachable [of double_lease]) (simp add: demo_def)
  with r r' show ?thesis by (intro exI [of _ "demo double_lease"]) (auto split: option.splits)
qed

text \<open>A request handler that is dropped while the files of the capture are made leaves its worker in no table but
  \<open>liveness\<close>: no later section can give it out.\<close>

lemma abandoned_dispatch_loses_worker:
  "case pop_idle (connected demo_w 7 new_pool) of None \<Rightarrow> False
   | Some (_, p) \<Rightarrow> hhas (liveness p) demo_w \<and> idle p = [] \<and> inflight p = [] \<and> worker_sessions p = [] \<and> pty_sessions p = []"
  by code_simp

end
