(* ===== verification/Isolation.thy ===== *)
theory Isolation
  imports PoolProps
begin

text \<open>
  Sessions do not disturb each other: what the pool and its tasks know of one session is its view, and a step that
  does not concern the session leaves the view as it is, whatever other clients and other workers do.
\<close>

section \<open>Parts of a map\<close>

lemma hretain_hput_other:
  "\<not> P k v \<Longrightarrow> (\<And>u. hget m k = Some u \<Longrightarrow> \<not> P k u) \<Longrightarrow> hretain P (hput k v m) = hretain P m"
  by (induction m) (auto simp: hretain_def hput_def hget_def split: if_splits)

lemma hretain_hdel_other:
  "hwf m \<Longrightarrow> (\<And>u. hget m k = Some u \<Longrightarrow> \<not> P k u) \<Longrightarrow> hretain P (hdel k m) = hretain P m"
proof (induction m)
  case (Cons x m)
  obtain a b where x: "x = (a, b)" by fastforce
  show ?case
  proof (cases "a = k")
    case True
    with Cons.prems(1) x have "hget m k = None" by (auto simp: hwf_def hget_def map_of_eq_None_iff)
    then have "hdel k (x # m) = m" using True x by (simp add: hdel_def hget_def map_of_eq_None_iff)
    with Cons.prems(2) True x show ?thesis by (simp add: hretain_def hget_def)
  next
    case False
    then have "hdel k (x # m) = x # hdel k m" using x by (simp add: hdel_def)
    moreover have "hretain P (hdel k m) = hretain P m"
      using Cons.prems False x by (intro Cons.IH) (auto simp: hwf_def hget_def)
    ultimately show ?thesis by (simp add: hretain_def)
  qed
qed (simp add: hdel_def)

lemma hretain_hmod_other:
  "(\<And>u. hget m k = Some u \<Longrightarrow> \<not> P k u \<and> \<not> P k (f u)) \<Longrightarrow> hretain P (hmod k f m) = hretain P m"
  by (auto simp: hmod_def intro: hretain_hput_other split: option.split)

lemma hretain_hretain_other:
  "(\<And>k v. (k, v) \<in> set m \<Longrightarrow> P k v \<Longrightarrow> Q k v) \<Longrightarrow> hretain P (hretain Q m) = hretain P m"
  by (auto simp: hretain_def intro!: filter_cong)

section \<open>The view of a session\<close>

text \<open>Its record, the worker that holds it, its requests in flight and its handles.\<close>

definition pool_view :: "session_id \<Rightarrow> pool \<Rightarrow> session_record option \<times> (worker_id, session_id) hmap \<times>
    (exec_id, pending_entry) hmap \<times> (exec_id, handle_row) hmap" where
  "pool_view sid p = (hget (sessions p) sid, hretain (\<lambda>_ x. x = sid) (worker_sessions p),
     hretain (\<lambda>_ e. pe_session e = Some sid) (inflight p), hretain (\<lambda>_ row. hr_session row = Some sid) (handles p))"

definition of_session :: "session_id \<Rightarrow> pool \<Rightarrow> exec_id \<Rightarrow> bool" where
  "of_session sid p rid = (case hget (handles p) rid of None \<Rightarrow> False | Some row \<Rightarrow> hr_session row = Some sid)"

text \<open>With what the tasks hold of it: its lock, the outcomes on their way, its frames, and whether it is known.\<close>

definition session_view :: "session_id \<Rightarrow> sys \<Rightarrow> _" where
  "session_view sid s = (pool_view sid (sp s), hget (locks s) sid,
     filter (\<lambda>(rid, _). of_session sid (sp s) rid) (finishing s), filter (\<lambda>(x, _). x = sid) (wire s),
     sid \<in> set (known s), sid \<in> set (creating s))"

text \<open>The events that concern a session: those that name it or one of its commands, the loss of its worker, and the
  sweep of its record once it is over and old.  Two more take its worker away in runs that are not orderly: a report of
  another session by the worker that holds this one, and a reservation that finds its worker in the idle queue.\<close>

definition next_idle_of :: "string \<Rightarrow> session_id \<Rightarrow> pool \<Rightarrow> bool" where
  "next_idle_of profile sid p = (case take_first (\<lambda>w. we_profile w = profile) (idle p) of None \<Rightarrow> False
     | Some (wk, _) \<Rightarrow> hget (worker_sessions p) (we_id wk) = Some sid)"

fun concerns :: "session_id \<Rightarrow> pool \<Rightarrow> event \<Rightarrow> bool" where
  "concerns sid p (CreateBegin profile op _ _) \<longleftrightarrow> open_session_id op = sid \<or> next_idle_of profile sid p"
| "concerns sid p (CreateDone x _) \<longleftrightarrow> x = sid"
| "concerns sid p (CreateFail x) \<longleftrightarrow> x = sid"
| "concerns sid p (ReadyEv _ x _ _) \<longleftrightarrow> x = sid"
| "concerns sid p (ClosedEv w x _ _ _) \<longleftrightarrow> x = sid \<or> hget (worker_sessions p) w = Some sid"
| "concerns sid p (SubmitCheck x _ _ _) \<longleftrightarrow> x = sid"
| "concerns sid p (SubmitRegister x _ _) \<longleftrightarrow> x = sid"
| "concerns sid p (SubmitSend x _) \<longleftrightarrow> x = sid"
| "concerns sid p (CloseBegin _ x _) \<longleftrightarrow> x = sid"
| "concerns sid p (CloseSend x _) \<longleftrightarrow> x = sid"
| "concerns sid p (AttachEv x _ _) \<longleftrightarrow> x = sid"
| "concerns sid p (DetachEv x _ _) \<longleftrightarrow> x = sid"
| "concerns sid p (SnapshotEv x _) \<longleftrightarrow> x = sid"
| "concerns sid p (ListEv x _) \<longleftrightarrow> x = sid"
| "concerns sid p (CancelEv rid) \<longleftrightarrow> of_session sid p rid"
| "concerns sid p (PollEv rid _) \<longleftrightarrow> of_session sid p rid"
| "concerns sid p (ResultEv _ r _) \<longleftrightarrow> of_session sid p (res_request_id r)"
| "concerns sid p (SpoolFailEv rid) \<longleftrightarrow> of_session sid p rid"
| "concerns sid p (FinishEv rid _) \<longleftrightarrow> of_session sid p rid"
| "concerns sid p (PurgeEv rid) \<longleftrightarrow> of_session sid p rid"
| "concerns sid p (DropRequests w _) \<longleftrightarrow>
     list_ex (\<lambda>(_, e). pe_session e = Some sid \<and> pe_worker e = w) (inflight p)"
| "concerns sid p (DropWorker w _) \<longleftrightarrow> hget (worker_sessions p) w = Some sid"
| "concerns sid p (SweepSessions now ttl) \<longleftrightarrow> (case hget (sessions p) sid of None \<Rightarrow> False
     | Some r \<Rightarrow> (case sr_finished r of None \<Rightarrow> False | Some at_time \<Rightarrow> ttl < now - at_time))"
| "concerns sid p _ \<longleftrightarrow> False"

lemma of_session_view: "pool_view sid q = pool_view sid p \<Longrightarrow> hwf (handles p) \<Longrightarrow> hwf (handles q) \<Longrightarrow>
    of_session sid q rid = of_session sid p rid"
proof -
  assume v: "pool_view sid q = pool_view sid p" and wf: "hwf (handles p)" "hwf (handles q)"
  have "of_session sid p rid = hhas (hretain (\<lambda>_ row. hr_session row = Some sid) (handles p)) rid" if "hwf (handles p)" for p
    using that by (simp add: of_session_def hhas_def split: option.split)
  with v wf show ?thesis by (simp add: pool_view_def)
qed

section \<open>What each section keeps\<close>

lemma view_eqI:
  "hget (sessions q) sid = hget (sessions p) sid \<Longrightarrow>
   hretain (\<lambda>_ x. x = sid) (worker_sessions q) = hretain (\<lambda>_ x. x = sid) (worker_sessions p) \<Longrightarrow>
   hretain (\<lambda>_ e. pe_session e = Some sid) (inflight q) = hretain (\<lambda>_ e. pe_session e = Some sid) (inflight p) \<Longrightarrow>
   hretain (\<lambda>_ row. hr_session row = Some sid) (handles q) = hretain (\<lambda>_ row. hr_session row = Some sid) (handles p) \<Longrightarrow>
   pool_view sid q = pool_view sid p"
  by (simp add: pool_view_def)

lemma view_frame [simp]:
  "pool_view sid (p\<lparr>idle := a\<rparr>) = pool_view sid p" "pool_view sid (p\<lparr>liveness := b\<rparr>) = pool_view sid p"
  "pool_view sid (p\<lparr>pty_sessions := c\<rparr>) = pool_view sid p"
  by (simp_all add: pool_view_def)

lemma view_register: "register_worker now w profile loc c p = Inr q \<Longrightarrow> pool_view sid q = pool_view sid p"
  by (auto simp: register_worker_def pool_view_def split: if_splits)

lemma view_reserve:
  assumes "create_reserve now profile op ready p = (Inr wk, q)" and "\<not> concerns sid p (CreateBegin profile op ready now)"
  shows "pool_view sid q = pool_view sid p"
  using assms(1)
proof (rule create_reserve_cases)
  fix as bs assume idle: "idle p = as @ wk # bs" and at: "we_profile wk = profile" "\<forall>x\<in>set as. we_profile x \<noteq> profile"
    and q: "q = p\<lparr>idle := as @ bs,
      worker_sessions := hput (we_id wk) (open_session_id op) (worker_sessions p),
      sessions := hput (open_session_id op) (opening_record now profile op ready wk) (sessions p)\<rparr>"
  have "take_first (\<lambda>w. we_profile w = profile) (idle p) = Some (wk, as @ bs)"
    unfolding idle using at by (induction as) auto
  with assms(2) have "hget (worker_sessions p) (we_id wk) \<noteq> Some sid" "open_session_id op \<noteq> sid"
    by (simp_all add: next_idle_of_def)
  then show ?thesis unfolding q by (intro view_eqI) (auto intro: hretain_hput_other)
qed

lemma view_session_sections:
  assumes "x \<noteq> sid"
  shows "pool_view sid (touch_session now x p) = pool_view sid p"
    and "pool_view sid (fst (session_ready now w x error p)) = pool_view sid p"
    and "pool_view sid (snd (close_begin gate ch x p)) = pool_view sid p"
    and "pool_view sid (snd (attach_terminal now ch x p)) = pool_view sid p"
    and "pool_view sid (detach_terminal_if now x ch p) = pool_view sid p"
    and "pool_view sid (snd (created_session_snapshot now x p)) = pool_view sid p"
  using assms by (auto simp: pool_view_def touch_session_def session_ready_def close_begin_def attach_terminal_def
      detach_terminal_if_def created_session_snapshot_def split: option.split)

lemma hretain_touch_other:
  "x \<noteq> sid \<Longrightarrow> hretain (\<lambda>_ row. hr_session row = Some sid) (map (\<lambda>(rid, row). (rid, if hr_session row = Some x
     then row\<lparr>hr_polled := now\<rparr> else row)) m) = hretain (\<lambda>_ row. hr_session row = Some sid) m"
  by (induction m) (auto simp: hretain_def split: if_splits)

lemma view_list: "x \<noteq> sid \<Longrightarrow> pool_view sid (snd (list_session_commands now x p)) = pool_view sid p"
  by (auto simp: pool_view_def list_session_commands_def Let_def hretain_touch_other split: option.split)

lemma view_handle_sections:
  assumes "\<not> of_session sid p rid"
  shows "pool_view sid (snd (cancel_request rid p)) = pool_view sid p"
    and "pool_view sid (poll_row now rid p) = pool_view sid p"
    and "pool_view sid (mark_spool_failed rid p) = pool_view sid p"
    and "pool_view sid (fst (finish_row (outcome_row how now) rid p)) = pool_view sid p"
  using assms by (auto simp: pool_view_def of_session_def cancel_request_def poll_row_def mark_spool_failed_def
      finish_row_def intro!: hretain_hput_other hretain_hmod_other split: option.split)

lemma view_purge: "hwf (handles p) \<Longrightarrow> \<not> of_session sid p rid \<Longrightarrow> pool_view sid (fst (purge_handle rid p)) = pool_view sid p"
  by (auto simp: pool_view_def of_session_def purge_handle_def intro!: hretain_hdel_other)

text \<open>A request in flight is of the session of its handle.\<close>

lemma request_session:
  "pool_core p \<Longrightarrow> hget (inflight p) rid = Some e \<Longrightarrow> pe_session e = Some sid \<Longrightarrow> of_session sid p rid"
  by (erule requests_okD [OF pool_coreD(2)]) (auto simp: of_session_def)

lemma view_complete:
  assumes "pool_core p" and "\<not> of_session sid p rid"
  shows "pool_view sid (complete_take now rid p) = pool_view sid p"
proof (cases "hget (inflight p) rid")
  case (Some e)
  have "pe_session e \<noteq> Some sid" using request_session [OF assms(1) Some] assms(2) by blast
  moreover have "hwf (inflight p)" using pool_coreD(1) [OF assms(1)] by (simp add: maps_ok_def)
  ultimately show ?thesis using Some
    by (intro view_eqI) (auto simp: complete_take_def Let_def intro!: hretain_hdel_other split: option.split)
qed (simp add: complete_take_def)

lemma view_close:
  assumes "pool_core p" and "hget (worker_sessions p) w \<noteq> Some sid" and "close_take now w x error reusable p = Some (out, q)"
    and "x \<noteq> sid"
  shows "pool_view sid q = pool_view sid p"
  using assms(3)
proof (rule close_take_cases)
  fix r assume q: "q = p\<lparr>sessions := hput x (closed_record now error r) (sessions p),
       worker_sessions := hdel w (worker_sessions p),
       idle := (if reusable \<and> hhas (liveness p) w
         then idle p @ [\<lparr>we_id = w, we_profile = sr_profile r, we_sink = sr_sink r\<rparr>] else idle p),
       inflight := hretain (\<lambda>_ e. pe_session e \<noteq> Some x) (inflight p)\<rparr>"
    and r: "hget (sessions p) x = Some r" "sr_worker r = w"
  have wf: "hwf (worker_sessions p)" using pool_coreD(1) [OF assms(1)] by (simp add: maps_ok_def)
  from wf assms(2,4) show ?thesis unfolding q
    by (intro view_eqI) (auto intro!: hretain_hdel_other hretain_hretain_other)
qed

lemma view_drop_requests:
  assumes "\<not> list_ex (\<lambda>(_, e). pe_session e = Some sid \<and> pe_worker e = w) (inflight p)"
  shows "pool_view sid (snd (drop_inflight w p)) = pool_view sid p"
  using assms by (auto simp: pool_view_def drop_inflight_def list_ex_iff intro!: hretain_hretain_other)

lemma view_drop_worker:
  assumes "pool_core p" and "hget (worker_sessions p) w \<noteq> Some sid"
  shows "pool_view sid (snd (drop_worker now w p)) = pool_view sid p"
proof -
  have "hwf (worker_sessions p)" using pool_coreD(1) [OF assms(1)] by (simp add: maps_ok_def)
  with assms(2) show ?thesis
    by (intro view_eqI) (auto simp: drop_worker_def Let_def intro!: hretain_hdel_other split: option.split)
qed

lemma view_retain:
  assumes "pool_core p" and "\<not> concerns sid p (SweepSessions now ttl)"
  shows "pool_view sid (retain_sessions now ttl p) = pool_view sid p"
proof -
  have "hwf (sessions p)" using pool_coreD(1) [OF assms(1)] by (simp add: maps_ok_def)
  with assms(2) show ?thesis by (intro view_eqI) (auto simp: retain_sessions_def split: option.splits)
qed

lemma view_submit:
  assumes "hget (inflight p) rid = None" "hget (handles p) rid = None" and "x \<noteq> sid"
  shows "pool_view sid (snd (submit_register t0 now cap x rid mode p)) = pool_view sid p"
  using assms by (auto simp: pool_view_def submit_register_def fresh_row_def intro!: hretain_hput_other split: option.split)

lemma view_dispatch:
  assumes "hget (inflight p) rid = None" "hget (handles p) rid = None"
  shows "pool_view sid (dispatch_register wk rid t0 now p) = pool_view sid p"
  using assms by (auto simp: pool_view_def dispatch_register_def fresh_row_def intro!: hretain_hput_other)

section \<open>Isolation\<close>

lemma session_view_eqI:
  assumes "sys_core s" and "sys_core t" and "pool_view sid (sp t) = pool_view sid (sp s)"
    and "hget (locks t) sid = hget (locks s) sid"
    and "filter (\<lambda>(rid, _). of_session sid (sp s) rid) (finishing t) = filter (\<lambda>(rid, _). of_session sid (sp s) rid) (finishing s)"
    and "filter (\<lambda>(x, _). x = sid) (wire t) = filter (\<lambda>(x, _). x = sid) (wire s)"
    and "sid \<in> set (known t) \<longleftrightarrow> sid \<in> set (known s)" and "sid \<in> set (creating t) \<longleftrightarrow> sid \<in> set (creating s)"
  shows "session_view sid t = session_view sid s"
proof -
  have "hwf (handles (sp s))" "hwf (handles (sp t))"
    using pool_coreD(1) [OF sys_coreD(1) [OF assms(1)]] pool_coreD(1) [OF sys_coreD(1) [OF assms(2)]] by (simp_all add: maps_ok_def)
  from of_session_view [OF assms(3) this] assms(3-) show ?thesis by (simp add: session_view_def)
qed

text \<open>A pool section alone.\<close>

lemma view_pool_only:
  assumes "sys_core s" and "sys_core t" and "t = s\<lparr>sp := p\<rparr>" and "pool_view sid p = pool_view sid (sp s)"
  shows "session_view sid t = session_view sid s"
  using assms by (intro session_view_eqI) simp_all

lemma finishing_append:
  "(\<And>x how. (x, how) \<in> set ys \<Longrightarrow> \<not> P x) \<Longrightarrow> filter (\<lambda>(x, _). P x) (xs @ ys) = filter (\<lambda>(x, _). P x) xs"
  by (auto simp: filter_empty_conv)

lemma finishing_take:
  "take_first (\<lambda>(x, _). x = rid) xs = Some ((y, how), rest) \<Longrightarrow> \<not> P rid \<Longrightarrow>
     filter (\<lambda>(x, _). P x) rest = filter (\<lambda>(x, _). P x) xs"
  by (auto elim!: take_first_Some)

lemma isolated_closed:
  assumes inv: "sys_core s" "sys_core t" and st: "t = closed_step w x error reusable now s" and ne: "x \<noteq> sid"
    and own: "hget (worker_sessions (sp s)) w \<noteq> Some sid"
  shows "session_view sid t = session_view sid s"
proof (cases "close_take now w x error reusable (sp s)")
  case None
  with st show ?thesis by (simp add: closed_step_def)
next
  case (Some a)
  obtain out q where a: "a = (out, q)" by fastforce
  have t: "t = s\<lparr>sp := q, finishing := finishing s @ map (\<lambda>rid. (rid, ByClose (co_cause out))) (co_pending out)\<rparr>"
    using st Some a by (simp add: closed_step_def)
  have pend: "co_pending out = session_commands x (sp s)" using Some a by (auto elim: close_take_cases)
  have "\<not> of_session sid (sp s) rid" if "rid \<in> set (co_pending out)" for rid
  proof -
    from that obtain e where e: "(rid, e) \<in> set (inflight (sp s))" "pe_session e = Some x"
      unfolding pend by (auto simp: session_commands_def)
    have "hwf (inflight (sp s))" using pool_coreD(1) [OF sys_coreD(1) [OF inv(1)]] by (simp add: maps_ok_def)
    with e have "of_session x (sp s) rid" by (intro request_session [OF sys_coreD(1) [OF inv(1)]]) (auto simp: in_set_hget)
    with ne show ?thesis by (auto simp: of_session_def split: option.splits)
  qed
  then show ?thesis using view_close [OF sys_coreD(1) [OF inv(1)] own Some [unfolded a] ne]
    by (intro session_view_eqI [OF inv]) (auto simp: t intro!: finishing_append)
qed

lemma isolated_result:
  assumes inv: "sys_core s" "sys_core (result_step r now s)" and n: "\<not> of_session sid (sp s) (res_request_id r)"
  shows "session_view sid (result_step r now s) = session_view sid s"
  using view_complete [OF sys_coreD(1) [OF inv(1)] n, of now] n
  by (intro session_view_eqI [OF inv]) (auto simp: result_step_def Let_def)

lemma isolated_drop:
  assumes inv: "sys_core s" "sys_core (drop_step w oom s)" and n: "\<not> concerns sid (sp s) (DropRequests w oom)"
  shows "session_view sid (drop_step w oom s) = session_view sid s"
proof -
  have wf: "hwf (inflight (sp s))" using pool_coreD(1) [OF sys_coreD(1) [OF inv(1)]] by (simp add: maps_ok_def)
  have "\<not> of_session sid (sp s) rid" if "(rid, e) \<in> set (inflight (sp s))" "pe_worker e = w" for rid e
  proof -
    have e: "hget (inflight (sp s)) rid = Some e" using wf that(1) by (simp add: in_set_hget)
    obtain row where "hget (handles (sp s)) rid = Some row" "hr_session row = pe_session e"
      by (rule requests_okD [OF pool_coreD(2) [OF sys_coreD(1) [OF inv(1)]] e])
    then show ?thesis using n that by (auto simp: of_session_def list_ex_iff)
  qed
  moreover have "pool_view sid (snd (drop_inflight w (sp s))) = pool_view sid (sp s)"
    using n by (intro view_drop_requests) simp
  ultimately show ?thesis
    by (intro session_view_eqI [OF inv]) (auto simp: drop_step_def drop_verdict_def drop_inflight_def Let_def filter_empty_conv)
qed

lemma isolated_finish:
  assumes inv: "sys_core s" "sys_core t" and st: "finish_step rid now s = Some t" and n: "\<not> of_session sid (sp s) rid"
  shows "session_view sid t = session_view sid s"
  using st finishing_take [of rid "finishing s", where P = "of_session sid (sp s)"] n view_handle_sections(4) [OF n]
  by (intro session_view_eqI [OF inv]) (auto simp: finish_step_def split: option.splits prod.splits)

lemma fresh_request:
  assumes "sys_core s" and "rid \<notin> set (issued s)"
  shows "hget (inflight (sp s)) rid = None" and "hget (handles (sp s)) rid = None"
  using assms inflight_issued ids_okD(4) [OF sys_coreD(2) [OF assms(1)]] by (metis not_None_eq)+

lemma isolated_lock_steps:
  assumes inv: "sys_core s" "sys_core t" and ne: "x \<noteq> sid"
  shows "submit_step x rid cmd mode s = Some t \<Longrightarrow> session_view sid t = session_view sid s"
    and "send_run_step x r s = Some t \<Longrightarrow> session_view sid t = session_view sid s"
    and "send_close_step x r s = Some t \<Longrightarrow> session_view sid t = session_view sid s"
    and "close_step gate x ch s = Some t \<Longrightarrow> session_view sid t = session_view sid s"
  subgoal using ne by (intro session_view_eqI [OF inv]) (auto simp: submit_step_def split: if_splits sum.splits)
  subgoal using ne by (intro session_view_eqI [OF inv]) (auto simp: send_run_step_def split: option.splits holder.splits)
  subgoal using ne by (intro session_view_eqI [OF inv]) (auto simp: send_close_step_def split: option.splits holder.splits)
  subgoal
    using ne view_session_sections(3) [OF ne, of gate ch "sp s"]
    by (intro session_view_eqI [OF inv]) (auto simp: close_step_def split: if_splits prod.splits close_step.splits bool.splits)
  done

lemma isolated_register:
  assumes inv: "sys_core s" "sys_core t" and ne: "x \<noteq> sid" and st: "register_step x t0 now s = Some t"
  shows "session_view sid t = session_view sid s"
proof -
  from st obtain cap rid cmd mode where h: "hget (locks s) x = Some (HoldSubmit cap rid cmd mode)"
    and n: "rid \<notin> set (issued s)"
    by (auto simp: register_step_def split: option.splits holder.splits if_splits)
  obtain r q where q: "submit_register t0 now cap x rid mode (sp s) = (r, q)" by fastforce
  have "pool_view sid q = pool_view sid (sp s)"
    using view_submit [OF fresh_request [OF inv(1) n] ne, of t0 now cap mode] q by simp
  with st h n q ne show ?thesis
    by (intro session_view_eqI [OF inv]) (auto simp: register_step_def split: option.splits)
qed

lemma isolated_create:
  assumes inv: "sys_core s" "sys_core t" and n: "\<not> concerns sid (sp s) (CreateBegin profile op ready now)"
    and st: "apply_event (CreateBegin profile op ready now) s = Some t"
  shows "session_view sid t = session_view sid s"
proof -
  obtain r q where q: "create_reserve now profile op ready (sp s) = (r, q)" by fastforce
  have "pool_view sid q = pool_view sid (sp s)" if "r = Inr wk" for wk
    using view_reserve [OF _ n] q that by blast
  with st q n show ?thesis
    by (intro session_view_eqI [OF inv]) (auto split: if_splits sum.splits)
qed

lemma isolated_created:
  assumes inv: "sys_core s" "sys_core t" and ne: "x \<noteq> sid"
  shows "apply_event (CreateDone x now) s = Some t \<Longrightarrow> session_view sid t = session_view sid s"
    and "apply_event (CreateFail x) s = Some t \<Longrightarrow> session_view sid t = session_view sid s"
  using ne view_session_sections(6) [OF ne, of now "sp s"]
  by (intro session_view_eqI [OF inv]; auto split: if_splits prod.splits sum.splits)+

text \<open>The session-less API.\<close>

lemma isolated_exec_sent:
  assumes inv: "sys_core s" "sys_core t" and st: "exec_sent_step rid r s = Some t"
  shows "session_view sid t = session_view sid s"
proof -
  have u: "rid \<in> set (unsent s)" using st by (simp add: exec_sent_step_def split: if_splits)
  have row: "hr_session row = None" if "hget (handles (sp s)) rid = Some row" for row
    using sys_coreD(6) [OF inv(1)] u that by (simp add: unsent_ok_def)
  have e: "pe_session e = None" if "hget (inflight (sp s)) rid = Some e" for e
    by (rule requests_okD [OF pool_coreD(2) [OF sys_coreD(1) [OF inv(1)]] that]) (use row in auto)
  have "hwf (inflight (sp s))" "hwf (handles (sp s))"
    using pool_coreD(1) [OF sys_coreD(1) [OF inv(1)]] by (simp_all add: maps_ok_def)
  with row e have "pool_view sid ((sp s)\<lparr>inflight := hdel rid (inflight (sp s)), handles := hdel rid (handles (sp s))\<rparr>)
    = pool_view sid (sp s)"
    by (intro view_eqI) (auto intro!: hretain_hdel_other)
  with st u show ?thesis by (intro session_view_eqI [OF inv]) (auto simp: exec_sent_step_def)
qed

lemma isolated_exec:
  assumes inv: "sys_core s" "sys_core t"
  shows "t = take_step s \<Longrightarrow> session_view sid t = session_view sid s"
    and "back_step wk s = Some t \<Longrightarrow> session_view sid t = session_view sid s"
    and "exec_step wk rid t0 now s = Some t \<Longrightarrow> session_view sid t = session_view sid s"
    and "t = pin_step ch s \<Longrightarrow> session_view sid t = session_view sid s"
    and "unpin_step wk s = Some t \<Longrightarrow> session_view sid t = session_view sid s"
  subgoal by (intro session_view_eqI [OF inv]) (auto simp: take_step_def pop_idle_def split: option.splits list.splits)
  subgoal by (intro session_view_eqI [OF inv]) (auto simp: back_step_def split: if_splits)
  subgoal
    using fresh_request [OF inv(1), of rid] view_dispatch [of "sp s" rid sid wk t0 now]
    by (intro session_view_eqI [OF inv]) (auto simp: exec_step_def split: if_splits)
  subgoal
    by (intro session_view_eqI [OF inv]) (auto simp: pin_step_def acquire_pinned_def pop_idle_def split: option.splits list.splits)
  subgoal by (intro session_view_eqI [OF inv]) (auto simp: unpin_step_def release_pinned_def Let_def split: if_splits)
  done

text \<open>In orderly runs no report of another session and no reservation takes the worker of a session.\<close>

lemma worker_stays_with_session:
  assumes "reachable init_sys orderly_step s" and "hget (worker_sessions (sp s)) w = Some sid"
  shows "\<not> next_idle_of profile sid (sp s)" and "orderly s (ClosedEv w x error reusable now) \<Longrightarrow> x = sid"
proof -
  have "idle_ok (sp s)" by (rule pool_invD(2) [OF sys_invD(1) [OF lease.inv_reachable [OF assms(1)]]])
  then show "\<not> next_idle_of profile sid (sp s)"
    by (auto simp: next_idle_of_def idle_ok_def split: option.split elim!: take_first_Some)
qed (use assms(2) in \<open>auto simp: closes_own_def\<close>)

text \<open>
  C5: Sessions are isolated: in every reachable state, whatever step is taken next, by other clients, by the session-less
  API, by other workers or by the sweeper, a session that the step does not concern keeps its record, its worker, its requests and handles,
  its lock, the outcomes on their way to its commands and the frames sent for it.  A step
  concerns a session when it names the session or one of its commands, is the loss of its worker or the sweep of its
  ended record, or takes its worker away, which a report of another session by that worker does, and a reservation that
  finds that worker in the idle queue; these last two do not happen in orderly runs (\<open>worker_stays_with_session\<close>).
\<close>

theorem sessions_isolated:
  assumes "reachable init_sys sys_step s" and "sys_step s e t" and "\<not> concerns sid (sp s) e"
  shows "session_view sid t = session_view sid s"
proof -
  have inv: "sys_core s" "sys_core t"
    using ps.inv_reachable [OF assms(1)] ps.inv_reachable [OF reach_step [OF assms(1,2)]] by blast+
  note p = sys_coreD(1) [OF inv(1)]
  note pool_only = view_pool_only [OF inv]
  have wf: "hwf (handles (sp s))" using pool_coreD(1) [OF p] by (simp add: maps_ok_def)
  have st: "apply_event e s = Some t" using assms(2) by (simp add: sys_step_def)
  consider (pool) q where "t = s\<lparr>sp := q\<rparr>" "pool_view sid q = pool_view sid (sp s)" | (same) "t = s"
    | (task) "session_view sid t = session_view sid s"
  proof (cases e)
    case (RegisterEv w profile location c now)
    with st that(1,2) view_register show thesis by (auto split: if_splits sum.splits)
  next
    case (CreateBegin profile op ready now)
    then show thesis using isolated_create [OF inv] st assms(3) that(3) by blast
  next
    case (CreateDone x now)
    then show thesis using isolated_created(1) [OF inv] st assms(3) that(3) by (metis concerns.simps(2))
  next
    case (CreateFail x)
    then show thesis using isolated_created(2) [OF inv] st assms(3) that(3) by (metis concerns.simps(3))
  next
    case (PurgeEv rid)
    then show thesis using st assms(3) view_purge [OF wf] that(1,2)
      by (auto simp: set_pool_def split: option.splits if_splits)
  next
    case (ClosedEv w x error reusable now)
    with st have "t = closed_step w x error reusable now s" by simp
    from isolated_closed [OF inv this] ClosedEv assms(3) that(3) show thesis by simp
  next
    case (SubmitCheck x rid cmd mode)
    then show thesis using isolated_lock_steps(1) [OF inv] st assms(3) that(3) by auto
  next
    case (SubmitRegister x t0 now)
    then show thesis using isolated_register [OF inv] st assms(3) that(3) by auto
  next
    case (SubmitSend x r)
    then show thesis using isolated_lock_steps(2) [OF inv] st assms(3) that(3) by auto
  next
    case (CloseBegin gate x ch)
    then show thesis using isolated_lock_steps(4) [OF inv] st assms(3) that(3) by auto
  next
    case (CloseSend x r)
    then show thesis using isolated_lock_steps(3) [OF inv] st assms(3) that(3) by auto
  next
    case (ResultEv w r now)
    then have "t = result_step r now s" using st by (simp split: if_splits)
    then show thesis using isolated_result [of s r now] inv ResultEv assms(3) that(3) by auto
  next
    case (DropRequests w oom)
    then show thesis using isolated_drop [of s w oom] inv st assms(3) that(3) by auto
  next
    case (FinishEv rid now)
    then show thesis using isolated_finish [OF inv] st assms(3) that(3) by auto
  next
    case (ExecSend rid r)
    then show thesis using isolated_exec_sent [OF inv] st that(3) by auto
  qed (use st assms(3) that(1,3) isolated_exec [OF inv] in \<open>auto simp: set_pool_def view_session_sections view_handle_sections
      view_list view_drop_worker [OF p] view_retain [OF p] touch_worker_def split: if_splits\<close>)
  then show ?thesis by cases (use pool_only in auto)
qed

text \<open>Two sessions on two workers; whatever becomes of the first, the second keeps its view.\<close>

definition demo_other :: session_id where "demo_other = SessionId ''o''"

definition demo_neighbours :: "event list" where
  "demo_neighbours = [RegisterEv demo_w ''default'' None 7 1, RegisterEv (WorkerId ''v'') ''default'' None 8 1,
     CreateBegin ''default'' demo_open 1 2, CreateBegin ''default'' (demo_open\<lparr>open_session_id := demo_other\<rparr>) 2 2,
     ReadyEv demo_w demo_s None 3, ReadyEv (WorkerId ''v'') demo_other None 3, CreateDone demo_s 4, CreateDone demo_other 4,
     SubmitCheck demo_other demo_c ''ls'' Stateful, SubmitRegister demo_other 5 6]"

theorem sessions_isolated_witness:
  "\<exists>t. sys_step (demo demo_neighbours) (DropWorker demo_w 9) t \<and> hget (worker_sessions (sp t)) demo_w = None \<and>
     session_view demo_other t = session_view demo_other (demo demo_neighbours)"
proof -
  have run: "run_events demo_neighbours empty_sys \<noteq> None"
    and n: "\<not> concerns demo_other (sp (demo demo_neighbours)) (DropWorker demo_w 9)" by code_simp+
  from run have "reachable init_sys sys_step (demo demo_neighbours)"
    by (intro run_events_reachable) (simp add: demo_def)
  moreover obtain t where t: "sys_step (demo demo_neighbours) (DropWorker demo_w 9) t" by (simp add: sys_step_def)
  moreover have "hget (worker_sessions (sp t)) demo_w = None"
    using t by (auto simp: sys_step_def set_pool_def drop_worker_def Let_def)
  ultimately show ?thesis using sessions_isolated n by blast
qed

end
