(* ===== verification/OomProbe.thy ===== *)
theory OomProbe
  imports PoolConn
begin

text \<open>
  The probe of \<open>shiitake-server/src/pool/k8s_status.rs\<close>: whether the container of a lost worker was
  killed for memory.  The answers of the Kubernetes API are an argument; of a pod only the fields that
  the probe reads are kept.
\<close>

record terminated_state =
  term_reason :: "string option"

record container_state =
  cst_terminated :: "terminated_state option"

record container_status =
  cst_name :: string
  cst_last :: "container_state option"

record pod_status =
  pst_containers :: "container_status list option"

record kube_pod =
  kp_status :: "pod_status option"

definition oom_killed :: "kube_pod \<Rightarrow> string \<Rightarrow> bool" where
  "oom_killed pd cont =
     (case kp_status pd of
       None \<Rightarrow> False
     | Some status \<Rightarrow>
         (case pst_containers status of
           None \<Rightarrow> False
         | Some statuses \<Rightarrow>
             Option.bind (Option.bind (Option.bind (find (\<lambda>c. cst_name c = cont) statuses) cst_last)
               cst_terminated) term_reason = Some ''OOMKilled''))"

datatype probe_step = GetPod string string | SleepSecond

text \<open>The loop, from attempt \<open>i\<close> with \<open>n\<close> attempts left; \<open>api i\<close> is the answer to attempt \<open>i\<close>.\<close>

fun poll_pod :: "(nat \<Rightarrow> string + kube_pod) \<Rightarrow> string \<Rightarrow> string \<Rightarrow> string \<Rightarrow> nat \<Rightarrow> nat \<Rightarrow> bool \<times> probe_step list" where
  "poll_pod api pn ns cont i 0 = (False, [])"
| "poll_pod api pn ns cont i (Suc n) =
     (let again = (let (r, fx) = poll_pod api pn ns cont (Suc i) n in (r, GetPod pn ns # SleepSecond # fx))
      in case api i of
        Inr pd \<Rightarrow> if oom_killed pd cont then (True, [GetPod pn ns]) else again
      | Inl e \<Rightarrow> again)"

definition was_oom_killed :: "(nat \<Rightarrow> string + kube_pod) \<Rightarrow> string \<Rightarrow> string \<Rightarrow> string \<Rightarrow> bool \<times> probe_step list" where
  "was_oom_killed api pn ns cont = poll_pod api pn ns cont 0 15"

text \<open>The probe as the pool holds it; \<open>api\<close> answers for a pod of a namespace.\<close>

definition cluster_probe :: "(string \<Rightarrow> string \<Rightarrow> nat \<Rightarrow> string + kube_pod) \<Rightarrow> string \<Rightarrow> string \<Rightarrow> string \<Rightarrow> bool" where
  "cluster_probe api pn ns cont = fst (was_oom_killed (api pn ns) pn ns cont)"

section \<open>The verdict\<close>

definition positive :: "(nat \<Rightarrow> string + kube_pod) \<Rightarrow> string \<Rightarrow> nat \<Rightarrow> bool" where
  "positive api cont i = (case api i of Inr pd \<Rightarrow> oom_killed pd cont | Inl _ \<Rightarrow> False)"

lemma poll_pod_step [simp]:
  "poll_pod api pn ns cont i (Suc n) =
     (if positive api cont i then (True, [GetPod pn ns])
      else let (r, fx) = poll_pod api pn ns cont (Suc i) n in (r, GetPod pn ns # SleepSecond # fx))"
  by (cases "api i") (simp_all add: positive_def Let_def)

declare poll_pod.simps(2) [simp del]

lemma poll_pod_find:
  "poll_pod api pn ns cont i n =
     (case find (positive api cont) [i..<i + n] of
       Some k \<Rightarrow> (True, concat (replicate (k - i) [GetPod pn ns, SleepSecond]) @ [GetPod pn ns])
     | None \<Rightarrow> (False, concat (replicate n [GetPod pn ns, SleepSecond])))"
proof (induction n arbitrary: i)
  case 0
  then show ?case by simp
next
  case (Suc n)
  have up: "[i..<i + Suc n] = i # [Suc i..<Suc i + n]" by (simp add: upt_conv_Cons)
  show ?case
  proof (cases "find (positive api cont) [Suc i..<Suc i + n]")
    case None
    with Suc.IH [of "Suc i"] show ?thesis unfolding up by simp
  next
    case (Some k)
    then have "k \<in> set [Suc i..<Suc i + n]" by (metis find_Some_iff nth_mem)
    then have "k - i = Suc (k - Suc i)" by auto
    with Some Suc.IH [of "Suc i"] show ?thesis unfolding up by simp
  qed
qed

text \<open>
  The probe asks at most fifteen times, waits a second after each answer that is not positive, errors
  included, and stops at the first positive one: its verdict is that one of the first fifteen answers
  names the container's last end an OOM kill, and what it did is the queries up to that one.
\<close>

theorem probe_polls_until_positive:
  "was_oom_killed api pn ns cont =
     (case find (positive api cont) [0..<15] of
       Some k \<Rightarrow> (True, concat (replicate k [GetPod pn ns, SleepSecond]) @ [GetPod pn ns])
     | None \<Rightarrow> (False, concat (replicate 15 [GetPod pn ns, SleepSecond])))"
  using poll_pod_find [of api pn ns cont 0 15] by (simp only: was_oom_killed_def add_0 diff_zero)

lemma was_oom_killed_iff: "fst (was_oom_killed api pn ns cont) \<longleftrightarrow> (\<exists>i<15. positive api cont i)"
proof -
  have "fst (was_oom_killed api pn ns cont) \<longleftrightarrow> find (positive api cont) [0..<15] \<noteq> None"
    unfolding was_oom_killed_def poll_pod_find by (auto split: option.split)
  then show ?thesis by (simp only: find_None_iff set_upt) auto
qed

text \<open>The last state of a container stays until its next end, so the reason of an earlier one is taken for
  the reason of this loss: once a container has been killed for memory, any later loss of its connection
  is reported as one, at the first answer.\<close>

lemma stale_reason_counts:
  assumes "api 0 = Inr pd" and "oom_killed pd cont"
  shows "was_oom_killed api pn ns cont = (True, [GetPod pn ns])"
proof -
  have "positive api cont 0" using assms by (simp add: positive_def)
  then show ?thesis by (simp add: was_oom_killed_def numeral_eq_Suc)
qed

end
