(* ===== verification/HttpApi.thy ===== *)
theory HttpApi
  imports PoolRefine
begin

text \<open>
  The public HTTP interface, \<open>shiitake-server/src/http\<close>: the handlers of \<open>sessions.rs\<close>, \<open>exec.rs\<close> and
  \<open>health.rs\<close> over the operations of the pool, and the router of \<open>mod.rs\<close> with its bearer check.
  A handler returns its reply, the pool after it and the effects of the pool operations it ran.  What
  axum's extractors make of the body of a request, and the check of the bearer layer, are arguments.
\<close>

section \<open>Replies\<close>

abbreviation "status_OK \<equiv> 200 :: nat"
abbreviation "status_CREATED \<equiv> 201 :: nat"
abbreviation "status_ACCEPTED \<equiv> 202 :: nat"
abbreviation "status_UNAUTHORIZED \<equiv> 401 :: nat"
abbreviation "status_NOT_FOUND \<equiv> 404 :: nat"
abbreviation "status_METHOD_NOT_ALLOWED \<equiv> 405 :: nat"
abbreviation "status_CONFLICT \<equiv> 409 :: nat"
abbreviation "status_TOO_MANY_REQUESTS \<equiv> 429 :: nat"
abbreviation "status_INTERNAL_SERVER_ERROR \<equiv> 500 :: nat"
abbreviation "status_BAD_GATEWAY \<equiv> 502 :: nat"
abbreviation "status_SERVICE_UNAVAILABLE \<equiv> 503 :: nat"

text \<open>\<open>Display\<close> of the pool's errors.\<close>

fun session_error_text :: "session_error \<Rightarrow> string" where
  "session_error_text UnknownProfile = ''unknown profile''"
| "session_error_text Busy = ''no idle worker in profile''"
| "session_error_text SessionNotFound = ''session not found''"
| "session_error_text NotActive = ''session is not active''"
| "session_error_text TerminalBusy = ''terminal is attached or a stateful command is active''"
| "session_error_text (WorkerErr e) = ''worker failed: '' @ e"

fun dispatch_error_text :: "dispatch_error \<Rightarrow> string" where
  "dispatch_error_text NoIdleWorker = ''no idle worker available''"
| "dispatch_error_text (DispatchSend e) = ''worker send failed: '' @ e"

definition map_error :: "session_error \<Rightarrow> string \<Rightarrow> http_error" where
  "map_error err action =
     (case err of
       WorkerErr _ \<Rightarrow> (status_BAD_GATEWAY, ''worker could not '' @ action)
     | UnknownProfile \<Rightarrow> (status_NOT_FOUND, session_error_text err)
     | SessionNotFound \<Rightarrow> (status_NOT_FOUND, session_error_text err)
     | Busy \<Rightarrow> (status_TOO_MANY_REQUESTS, session_error_text err)
     | NotActive \<Rightarrow> (status_CONFLICT, session_error_text err)
     | TerminalBusy \<Rightarrow> (status_CONFLICT, session_error_text err))"

definition session_reply :: "session_snapshot \<Rightarrow> session_response" where
  "session_reply s = \<lparr>resp_session_id = ss_session s, resp_worker_id = ss_worker s,
     resp_profile = ss_profile s, resp_state = ss_state s, resp_created_at = ss_created s\<rparr>"

text \<open>The sizes of the captured streams come from the capture store.\<close>

definition status_response ::
    "(exec_id \<Rightarrow> capture_stream \<Rightarrow> 64 word) \<Rightarrow> handle_snapshot \<Rightarrow> status_response" where
  "status_response len snap = \<lparr>st_handle = sn_handle snap, st_session_id = sn_session snap,
     st_worker_id = sn_worker snap, st_status = sn_status snap, st_started_at = sn_started snap,
     st_finished_at = sn_finished snap, st_exit_code = sn_exit_code snap, st_exit_cause = sn_cause snap,
     st_exit_signal = sn_exit_signal snap, st_cancelled = sn_cancelled snap,
     st_stdout_bytes = len (sn_handle snap) OutStream, st_stderr_bytes = len (sn_handle snap) ErrStream\<rparr>"

section \<open>The handlers of a session\<close>

record app_state =
  as_config :: pool_config
  as_auth_token :: string
  as_default_workdir :: string
  as_max_body_bytes :: nat
  as_min_ready :: nat
  as_keepalive :: nat

text \<open>What one request meets: the random bytes of an id, the channel of a waiter, the world of the pool
  operations, and the file system and file server behind the captured output.\<close>

record http_world =
  ht_uuid :: bytes
  ht_chan :: chan
  ht_pool :: world
  ht_len :: "exec_id \<Rightarrow> capture_stream \<Rightarrow> 64 word"
  ht_exists :: "path \<Rightarrow> bool"
  ht_serve_error :: "string option"
  ht_file_status :: nat

definition open_frame_of :: "app_state \<Rightarrow> bytes \<Rightarrow> create_session_request \<Rightarrow> session_open_frame" where
  "open_frame_of st uuid req = \<lparr>open_session_id = SessionId (new_public_id CHR ''s'' uuid),
     open_working_dir = (case req_workdir req of Some d \<Rightarrow> d | None \<Rightarrow> as_default_workdir st),
     open_env = req_env req, open_drop_to = req_drop_to req, open_cols = req_cols req,
     open_rows = req_rows req\<rparr>"

definition create_handler :: "app_state \<Rightarrow> http_world \<Rightarrow> create_session_request \<Rightarrow> pool \<Rightarrow>
    (http_error + session_response) \<times> pool \<times> effect list" where
  "create_handler st W req p =
     (case validate_session_request req of
       Inl e \<Rightarrow> (Inl e, p, [])
     | Inr _ \<Rightarrow>
         (case create_session (as_config st) (ht_pool W) (ht_chan W) (req_profile req)
             (open_frame_of st (ht_uuid W) req) p of
           (Inl e, p1, fx) \<Rightarrow> (Inl (map_error e ''start session''), p1, fx)
         | (Inr s, p1, fx) \<Rightarrow> (Inr (session_reply s), p1, fx)))"

definition status_handler :: "http_world \<Rightarrow> session_id \<Rightarrow> pool \<Rightarrow> (http_error + session_response) \<times> pool" where
  "status_handler W sid p =
     (case session_snapshot (w_clock (ht_pool W) 0) sid p of
       (None, p1) \<Rightarrow> (Inl (map_error SessionNotFound ''find session''), p1)
     | (Some s, p1) \<Rightarrow> (Inr (session_reply s), p1))"

definition close_handler :: "http_world \<Rightarrow> session_id \<Rightarrow> pool \<Rightarrow>
    (http_error + session_response) \<times> pool \<times> effect list" where
  "close_handler W sid p =
     (case close_session (ht_pool W) (ht_chan W) sid p of
       (Inl e, p1, fx) \<Rightarrow> (Inl (map_error e ''close session''), p1, fx)
     | (Inr s, p1, fx) \<Rightarrow> (Inr (session_reply s), p1, fx))"

definition run_handler :: "app_state \<Rightarrow> http_world \<Rightarrow> session_id \<Rightarrow> session_command_request \<Rightarrow> pool \<Rightarrow>
    (http_error + spawn_response) \<times> pool \<times> effect list" where
  "run_handler st W sid req p =
     (case submit_session_command (as_config st) (ht_pool W) sid (ExecId (new_public_id CHR ''c'' (ht_uuid W)))
         (req_command req) (req_mode req) p of
       (Inl e, p1, fx) \<Rightarrow> (Inl (map_error e ''submit command''), p1, fx)
     | (Inr s, p1, fx) \<Rightarrow> (Inr \<lparr>spawn_handle = sn_handle s, spawn_started_at = sn_started s\<rparr>, p1, fx))"

definition list_handler :: "http_world \<Rightarrow> session_id \<Rightarrow> pool \<Rightarrow> (http_error + status_response list) \<times> pool" where
  "list_handler W sid p =
     (case list_session_commands (w_clock (ht_pool W) 0) sid p of
       (None, p1) \<Rightarrow> (Inl (status_NOT_FOUND, ''unknown session''), p1)
     | (Some snaps, p1) \<Rightarrow> (Inr (map (status_response (ht_len W)) snaps), p1))"

definition check_handle :: "http_world \<Rightarrow> session_id \<Rightarrow> exec_id \<Rightarrow> pool \<Rightarrow> (http_error + unit) \<times> pool" where
  "check_handle W sid rid p =
     (case touch_session_handle (w_clock (ht_pool W) 8) sid rid p of
       (None, p1) \<Rightarrow> (Inl (status_NOT_FOUND, ''unknown command''), p1)
     | (Some _, p1) \<Rightarrow> (Inr (), p1))"

text \<open>\<open>exec::status\<close> and \<open>exec::kill\<close>; between the check and these another task may run.\<close>

definition exec_status :: "http_world \<Rightarrow> exec_id \<Rightarrow> pool \<Rightarrow> (http_error + status_response) \<times> pool" where
  "exec_status W rid p =
     (case touch_and_snapshot (w_clock (ht_pool W) 9) rid p of
       (None, p1) \<Rightarrow> (Inl (status_NOT_FOUND, ''unknown handle''), p1)
     | (Some snap, p1) \<Rightarrow> (Inr (status_response (ht_len W) snap), p1))"

definition exec_kill :: "http_world \<Rightarrow> exec_id \<Rightarrow> pool \<Rightarrow>
    (http_error + handle_snapshot_json) \<times> pool \<times> effect list" where
  "exec_kill W rid p =
     (case cancel (ht_pool W) rid p of
       (None, p1, fx) \<Rightarrow> (Inl (status_NOT_FOUND, ''unknown handle''), p1, fx)
     | (Some snap, p1, fx) \<Rightarrow> (Inr \<lparr>hs_handle = sn_handle snap, hs_status = sn_status snap,
          hs_exit_cause = sn_cause snap, hs_cancelled = sn_cancelled snap\<rparr>, p1, fx))"

definition command_status_handler :: "http_world \<Rightarrow> session_id \<Rightarrow> exec_id \<Rightarrow> pool \<Rightarrow>
    (http_error + status_response) \<times> pool" where
  "command_status_handler W sid rid p =
     (case check_handle W sid rid p of
       (Inl e, p1) \<Rightarrow> (Inl e, p1)
     | (Inr _, p1) \<Rightarrow> exec_status W rid (w_yield (ht_pool W) 8 p1))"

definition cancel_handler :: "http_world \<Rightarrow> session_id \<Rightarrow> exec_id \<Rightarrow> pool \<Rightarrow>
    (http_error + handle_snapshot_json) \<times> pool \<times> effect list" where
  "cancel_handler W sid rid p =
     (case check_handle W sid rid p of
       (Inl e, p1) \<Rightarrow> (Inl e, p1, [])
     | (Inr _, p1) \<Rightarrow> exec_kill W rid (w_yield (ht_pool W) 8 p1))"

text \<open>A captured stream is answered with an error, an empty body when there is no file, or by tower-http
  from the file.\<close>

datatype stream_reply = NoCapture | ServeCapture path

text \<open>The file server picks the status of its reply, by the requested range.\<close>

definition stream_code :: "http_world \<Rightarrow> http_error + stream_reply \<Rightarrow> nat" where
  "stream_code W x = (case x of Inr (ServeCapture _) \<Rightarrow> ht_file_status W | _ \<Rightarrow> status_OK)"

definition read_stream :: "app_state \<Rightarrow> http_world \<Rightarrow> exec_id \<Rightarrow> capture_stream \<Rightarrow> pool \<Rightarrow>
    (http_error + stream_reply) \<times> pool" where
  "read_stream st W rid which p =
     (case touch_and_snapshot (w_clock (ht_pool W) 9) rid p of
       (None, p1) \<Rightarrow> (Inl (status_NOT_FOUND, ''unknown handle''), p1)
     | (Some _, p1) \<Rightarrow>
         (let file = stream_path (cfg_capture_root (as_config st)) rid which
          in (if \<not> ht_exists W file then Inr NoCapture
              else case ht_serve_error W of
                Some e \<Rightarrow> Inl (status_INTERNAL_SERVER_ERROR, ''serve: '' @ e)
              | None \<Rightarrow> Inr (ServeCapture file), p1)))"

definition stream_handler :: "app_state \<Rightarrow> http_world \<Rightarrow> session_id \<Rightarrow> exec_id \<Rightarrow> capture_stream \<Rightarrow> pool \<Rightarrow>
    (http_error + stream_reply) \<times> pool" where
  "stream_handler st W sid rid which p =
     (case check_handle W sid rid p of
       (Inl e, p1) \<Rightarrow> (Inl e, p1)
     | (Inr _, p1) \<Rightarrow> read_stream st W rid which (w_yield (ht_pool W) 8 p1))"

definition terminal_handler :: "http_world \<Rightarrow> session_id \<Rightarrow> pool \<Rightarrow> (http_error + attachment) \<times> pool" where
  "terminal_handler W sid p =
     (case attach_terminal (w_clock (ht_pool W) 0) (ht_chan W) sid p of
       (Inl e, p1) \<Rightarrow> (Inl (map_error e ''attach terminal''), p1)
     | (Inr a, p1) \<Rightarrow> (Inr a, p1))"

section \<open>Session-less execution\<close>

record exec_request =
  xr_command :: string
  xr_workdir :: "string option"
  xr_env :: env_map
  xr_drop_to :: "drop_to option"

definition dispatch_reply :: "dispatch_error + handle_snapshot \<Rightarrow> http_error + handle_snapshot" where
  "dispatch_reply r =
     (case r of
       Inr snap \<Rightarrow> Inr snap
     | Inl NoIdleWorker \<Rightarrow> Inl (status_TOO_MANY_REQUESTS, ''all workers busy; retry shortly'')
     | Inl e \<Rightarrow> Inl (status_INTERNAL_SERVER_ERROR, ''dispatch: '' @ dispatch_error_text e))"

text \<open>\<open>exec\<close>; the handle is the simple (hexadecimal) form of a random UUID, an argument here.\<close>

definition exec_handler :: "app_state \<Rightarrow> http_world \<Rightarrow> exec_id \<Rightarrow> exec_request \<Rightarrow> pool \<Rightarrow>
    (http_error + spawn_response) \<times> pool \<times> effect list" where
  "exec_handler st W rid req p =
     (let fr = \<lparr>request_id = rid, command = xr_command req,
        working_dir = (case xr_workdir req of Some d \<Rightarrow> d | None \<Rightarrow> as_default_workdir st),
        env = xr_env req, exec_drop_to = xr_drop_to req\<rparr>
      in case dispatch (ht_pool W) fr p of
        (r, p1, fx) \<Rightarrow> (case dispatch_reply r of
            Inl e \<Rightarrow> (Inl e, p1, fx)
          | Inr snap \<Rightarrow> (Inr \<lparr>spawn_handle = sn_handle snap, spawn_started_at = sn_started snap\<rparr>, p1, fx)))"

section \<open>Probes\<close>

definition SERVICE :: string where "SERVICE = ''shiitake''"

definition health_handler :: "http_world \<Rightarrow> pool \<Rightarrow> health_response \<times> pool" where
  "health_handler W p =
     (let (i, busy) = pool_snapshot p; p1 = w_yield (ht_pool W) 0 p; p2 = w_yield (ht_pool W) 1 p1
      in (\<lparr>health_status = ''ok'', health_service = SERVICE, health_idle = i, health_inflight = busy,
           health_interactive = interactive_count p1, health_sessions = session_count p2\<rparr>, p2))"

definition ready_handler :: "app_state \<Rightarrow> http_world \<Rightarrow> pool \<Rightarrow> (nat \<times> ready_response) \<times> pool" where
  "ready_handler st W p =
     (let (i, busy) = pool_snapshot p; ok = (as_min_ready st \<le> i + busy); p1 = w_yield (ht_pool W) 0 p
      in ((if ok then status_OK else status_SERVICE_UNAVAILABLE,
           \<lparr>rdy_ready = ok, rdy_service = SERVICE, rdy_idle = i, rdy_inflight = busy,
            rdy_sessions = session_count p1, rdy_required = as_min_ready st\<rparr>), p1))"

section \<open>The router\<close>

datatype http_method = GET | HEAD | POST | DELETE | OtherMethod

datatype resource =
    HealthPath
  | ReadyPath
  | ProfilesPath
  | SessionsPath
  | SessionPath session_id
  | CommandsPath session_id
  | CommandPath session_id exec_id
  | StreamPath session_id exec_id capture_stream
  | TerminalPath session_id

text \<open>The segments of the path below \<open>/api/v1\<close>; a parameter matches one segment that is not empty.\<close>

fun resource_of :: "string list \<Rightarrow> resource option" where
  "resource_of [a] =
     (if a = ''health'' then Some HealthPath
      else if a = ''ready'' then Some ReadyPath
      else if a = ''profiles'' then Some ProfilesPath
      else if a = ''sessions'' then Some SessionsPath
      else None)"
| "resource_of [a, sid] = (if a = ''sessions'' \<and> sid \<noteq> [] then Some (SessionPath (SessionId sid)) else None)"
| "resource_of [a, sid, b] =
     (if a = ''sessions'' \<and> sid \<noteq> [] then
        if b = ''commands'' then Some (CommandsPath (SessionId sid))
        else if b = ''terminal'' then Some (TerminalPath (SessionId sid)) else None
      else None)"
| "resource_of [a, sid, b, rid] =
     (if a = ''sessions'' \<and> sid \<noteq> [] \<and> b = ''commands'' \<and> rid \<noteq> []
      then Some (CommandPath (SessionId sid) (ExecId rid)) else None)"
| "resource_of [a, sid, b, rid, c] =
     (if a = ''sessions'' \<and> sid \<noteq> [] \<and> b = ''commands'' \<and> rid \<noteq> [] then
        if c = ''stdout'' then Some (StreamPath (SessionId sid) (ExecId rid) OutStream)
        else if c = ''stderr'' then Some (StreamPath (SessionId sid) (ExecId rid) ErrStream) else None
      else None)"
| "resource_of _ = None"

definition protected :: "resource \<Rightarrow> bool" where
  "protected r \<longleftrightarrow> r \<notin> {HealthPath, ReadyPath}"

definition is_get :: "http_method \<Rightarrow> bool" where
  "is_get m \<longleftrightarrow> m = GET \<or> m = HEAD"

definition allowed :: "http_method \<Rightarrow> resource \<Rightarrow> bool" where
  "allowed m r =
     (case r of
       SessionsPath \<Rightarrow> m = POST
     | SessionPath _ \<Rightarrow> is_get m \<or> m = DELETE
     | CommandsPath _ \<Rightarrow> is_get m \<or> m = POST
     | CommandPath _ _ \<Rightarrow> is_get m \<or> m = DELETE
     | _ \<Rightarrow> is_get m)"

text \<open>A request: what the extractors yield for the body types and the upgrade (a rejection is its
  status).\<close>

record http_request =
  rq_method :: http_method
  rq_path :: "string list"
  rq_authorization :: "string option"
  rq_create :: "nat + create_session_request"
  rq_run :: "nat + session_command_request"
  rq_upgrade :: "nat option"

datatype body =
    SessionBody session_response
  | SpawnBody spawn_response
  | StatusBody status_response
  | StatusesBody "status_response list"
  | HandleBody handle_snapshot_json
  | ProfilesBody "profile_response list"
  | HealthBody health_response
  | ReadyBody ready_response
  | StreamBody stream_reply
  | UpgradeBody attachment
  | TextBody string

definition reply :: "nat \<Rightarrow> ('a \<Rightarrow> body) \<Rightarrow> http_error + 'a \<Rightarrow> nat \<times> body" where
  "reply code wrap r = (case r of Inl (c, msg) \<Rightarrow> (c, TextBody msg) | Inr x \<Rightarrow> (code, wrap x))"

definition serve_resource :: "app_state \<Rightarrow> http_world \<Rightarrow> http_request \<Rightarrow> resource \<Rightarrow> pool \<Rightarrow>
    (nat \<times> body) \<times> pool \<times> effect list" where
  "serve_resource st W rq r p =
     (case r of
       HealthPath \<Rightarrow> (let (h, p1) = health_handler W p in ((status_OK, HealthBody h), p1, []))
     | ReadyPath \<Rightarrow> (let ((c, h), p1) = ready_handler st W p in ((c, ReadyBody h), p1, []))
     | ProfilesPath \<Rightarrow> ((status_OK, ProfilesBody (profiles p)), p, [])
     | SessionsPath \<Rightarrow>
         (case rq_create rq of
           Inl code \<Rightarrow> ((code, TextBody []), p, [])
         | Inr req \<Rightarrow> (let (x, p1, fx) = create_handler st W req p
                        in (reply status_CREATED SessionBody x, p1, fx)))
     | SessionPath sid \<Rightarrow>
         (if rq_method rq = DELETE
          then let (x, p1, fx) = close_handler W sid p in (reply status_OK SessionBody x, p1, fx)
          else let (x, p1) = status_handler W sid p in (reply status_OK SessionBody x, p1, []))
     | CommandsPath sid \<Rightarrow>
         (if rq_method rq = POST
          then (case rq_run rq of
              Inl code \<Rightarrow> ((code, TextBody []), p, [])
            | Inr req \<Rightarrow> (let (x, p1, fx) = run_handler st W sid req p
                           in (reply status_ACCEPTED SpawnBody x, p1, fx)))
          else let (x, p1) = list_handler W sid p in (reply status_OK StatusesBody x, p1, []))
     | CommandPath sid rid \<Rightarrow>
         (if rq_method rq = DELETE
          then let (x, p1, fx) = cancel_handler W sid rid p in (reply status_OK HandleBody x, p1, fx)
          else let (x, p1) = command_status_handler W sid rid p in (reply status_OK StatusBody x, p1, []))
     | StreamPath sid rid which \<Rightarrow>
         (let (x, p1) = stream_handler st W sid rid which p in (reply (stream_code W x) StreamBody x, p1, []))
     | TerminalPath sid \<Rightarrow>
         (case rq_upgrade rq of
           Some code \<Rightarrow> ((code, TextBody []), p, [])
         | None \<Rightarrow> (let (x, p1) = terminal_handler W sid p in (reply 101 UpgradeBody x, p1, []))))"

text \<open>The whole router.  The bearer layer wraps the protected routes, the answer to a method they do not
  have included; a path that is no route is answered by axum.\<close>

definition handle_request :: "(string \<Rightarrow> string option \<Rightarrow> bool) \<Rightarrow> app_state \<Rightarrow> http_world \<Rightarrow> http_request \<Rightarrow>
    pool \<Rightarrow> (nat \<times> body) \<times> pool \<times> effect list" where
  "handle_request bearer_ok st W rq p =
     (case resource_of (rq_path rq) of
       None \<Rightarrow> ((status_NOT_FOUND, TextBody []), p, [])
     | Some r \<Rightarrow>
         if protected r \<and> \<not> bearer_ok (as_auth_token st) (rq_authorization rq)
         then ((status_UNAUTHORIZED, TextBody []), p, [])
         else if \<not> allowed (rq_method rq) r
         then ((status_METHOD_NOT_ALLOWED, TextBody []), p, [])
         else serve_resource st W rq r p)"

section \<open>Access\<close>

text \<open>
  C21: Without the token of the API nothing can be seen or done but the two probes: whatever the request,
  if it does not carry exactly the configured bearer token, no route but health and readiness is served,
  the pool is left as it is and no effect, no frame to a worker, no file, no signal, is caused.
\<close>

theorem unauthorized_has_no_effect:
  assumes bearer: "\<And>token h. bearer_ok token h \<Longrightarrow> h = Some (''Bearer '' @ token)"
    and "rq_authorization rq \<noteq> Some (''Bearer '' @ as_auth_token st)"
    and "rq_path rq \<notin> {[''health''], [''ready'']}"
  shows "\<exists>code. handle_request bearer_ok st W rq p = ((code, TextBody []), p, []) \<and>
    (resource_of (rq_path rq) \<noteq> None \<longrightarrow> code = status_UNAUTHORIZED)"
proof (cases "resource_of (rq_path rq)")
  case None
  then show ?thesis by (simp add: handle_request_def)
next
  case (Some r)
  have "protected r"
    using Some assms(3) by (cases "rq_path rq" rule: resource_of.cases) (auto simp: protected_def split: if_splits)
  moreover have "\<not> bearer_ok (as_auth_token st) (rq_authorization rq)" using bearer assms(2) by blast
  ultimately show ?thesis using Some by (simp add: handle_request_def)
qed

definition exact_bearer :: "string \<Rightarrow> string option \<Rightarrow> bool" where
  "exact_bearer token h \<longleftrightarrow> h = Some (''Bearer '' @ token)"

definition demo_app :: app_state where
  "demo_app = \<lparr>as_config = demo_config, as_auth_token = ''secret'', as_default_workdir = ''/'',
     as_max_body_bytes = 268435456, as_min_ready = 1,
     as_keepalive = 10000\<rparr>"

definition demo_http :: http_world where
  "demo_http = \<lparr>ht_uuid = replicate 16 0, ht_chan = 5, ht_pool = still_world, ht_len = (\<lambda>_ _. 0),
     ht_exists = (\<lambda>_. True), ht_serve_error = None, ht_file_status = 206\<rparr>"

definition demo_request :: "http_method \<Rightarrow> string list \<Rightarrow> string \<Rightarrow> http_request" where
  "demo_request m path token = \<lparr>rq_method = m, rq_path = path, rq_authorization = Some (''Bearer '' @ token),
     rq_create = Inl 415, rq_run = Inl 415, rq_upgrade = Some 426\<rparr>"

theorem unauthorized_has_no_effect_witness:
  "handle_request exact_bearer demo_app demo_http (demo_request DELETE [''sessions'', ''s''] ''guess'') (sp (demo demo_run))
     = ((status_UNAUTHORIZED, TextBody []), sp (demo demo_run), [])"
proof -
  have "\<exists>code. handle_request exact_bearer demo_app demo_http (demo_request DELETE [''sessions'', ''s''] ''guess'')
      (sp (demo demo_run)) = ((code, TextBody []), sp (demo demo_run), []) \<and>
    (resource_of (rq_path (demo_request DELETE [''sessions'', ''s''] ''guess'')) \<noteq> None \<longrightarrow> code = status_UNAUTHORIZED)"
    by (rule unauthorized_has_no_effect) (simp_all add: exact_bearer_def demo_request_def demo_app_def)
  then show ?thesis by (auto simp: demo_request_def)
qed

text \<open>
  C23: A command is visible only inside its session: a request for the status, the cancellation or the
  output of a handle under another session than the one it was submitted in is answered like one for a
  handle that does not exist, and has no effect.
\<close>

theorem foreign_handle_hidden:
  assumes "resource_of (rq_path rq) = Some r" and "r = CommandPath sid rid \<or> r = StreamPath sid rid which"
    and "bearer_ok (as_auth_token st) (rq_authorization rq)" and "allowed (rq_method rq) r"
    and "\<And>row. hget (handles p) rid = Some row \<Longrightarrow> hr_session row \<noteq> Some sid"
  shows "handle_request bearer_ok st W rq p = ((status_NOT_FOUND, TextBody ''unknown command''), p, [])"
proof -
  have "check_handle W sid rid p = (Inl (status_NOT_FOUND, ''unknown command''), p)"
    using assms(5) by (auto simp: check_handle_def touch_session_handle_def split: option.split)
  then show ?thesis
    using assms(1-4) by (auto simp: handle_request_def serve_resource_def cancel_handler_def
      command_status_handler_def stream_handler_def reply_def)
qed

theorem foreign_handle_hidden_witness:
  "handle_request exact_bearer demo_app demo_http (demo_request DELETE [''sessions'', ''other'', ''commands'', ''c''] ''secret'')
      (sp (demo demo_run)) = ((status_NOT_FOUND, TextBody ''unknown command''), sp (demo demo_run), [])"
proof (rule foreign_handle_hidden [of _ "CommandPath (SessionId ''other'') demo_c" "SessionId ''other''" demo_c])
  fix row assume "hget (handles (sp (demo demo_run))) demo_c = Some row"
  moreover have "case hget (handles (sp (demo demo_run))) demo_c of None \<Rightarrow> True
    | Some row \<Rightarrow> hr_session row \<noteq> Some (SessionId ''other'')" by code_simp
  ultimately show "hr_session row \<noteq> Some (SessionId ''other'')" by simp
qed (simp_all add: demo_request_def exact_bearer_def demo_app_def allowed_def demo_c_def)

definition public_messages :: "string list" where
  "public_messages = [[], ''invalid profile or terminal size'', ''session input is too large'',
     ''unknown profile'', ''no idle worker in profile'', ''session not found'', ''session is not active'',
     ''terminal is attached or a stateful command is active'', ''worker could not start session'',
     ''worker could not close session'', ''worker could not submit command'', ''worker could not attach terminal'',
     ''unknown session'', ''unknown command'', ''unknown handle'']"

lemma map_error_public:
  "action \<in> {''start session'', ''close session'', ''submit command'', ''attach terminal''} \<Longrightarrow>
     snd (map_error e action) \<in> set public_messages"
  by (cases e) (auto simp: map_error_def public_messages_def)

lemma reply_text: "reply code wrap r = (c, TextBody msg) \<Longrightarrow> (\<And>x. wrap x \<noteq> TextBody msg) \<Longrightarrow> r = Inl (c, msg)"
  by (auto simp: reply_def split: sum.splits)

text \<open>
  What a worker says about its failures stays inside: every text a client is answered with is one of a
  fixed list of public messages, or the message of the file server; the details of a worker's error are
  never part of it.
\<close>

theorem worker_errors_stay_inside:
  assumes "handle_request bearer_ok st W rq p = ((code, TextBody msg), q, fx)"
  shows "msg \<in> set public_messages \<or> (\<exists>e. ht_serve_error W = Some e \<and> msg = ''serve: '' @ e)"
proof -
  have pub: "[] \<in> set public_messages" "''unknown session'' \<in> set public_messages"
    "''unknown command'' \<in> set public_messages" "''unknown handle'' \<in> set public_messages"
    "''session not found'' \<in> set public_messages"
    by (simp_all add: public_messages_def)
  have val: "validate_session_request req = Inl (c, m) \<Longrightarrow> m \<in> set public_messages" for req c m
    by (auto simp: validate_session_request_def public_messages_def split: if_splits)
  have err: "map_error e a = (c, m) \<Longrightarrow> a \<in> {''start session'', ''close session'', ''submit command'', ''attach terminal''}
      \<Longrightarrow> m \<in> set public_messages" for e a c m
    using map_error_public [of a e] by simp
  show ?thesis
  proof (cases "resource_of (rq_path rq)")
    case None
    with assms pub show ?thesis by (simp add: handle_request_def)
  next
    case (Some r)
    show ?thesis
    proof (cases "(protected r \<and> \<not> bearer_ok (as_auth_token st) (rq_authorization rq)) \<or> \<not> allowed (rq_method rq) r")
      case True
      with assms Some pub show ?thesis by (auto simp: handle_request_def split: if_splits)
    next
      case False
      with assms Some have s: "serve_resource st W rq r p = ((code, TextBody msg), q, fx)"
        by (auto simp: handle_request_def)
      show ?thesis
      proof (cases r)
        case SessionsPath
        with s val err pub show ?thesis
          by (auto simp: serve_resource_def create_handler_def split: sum.splits prod.splits dest!: reply_text)
      next
        case (SessionPath sid)
        with s err pub show ?thesis
          by (auto simp: serve_resource_def close_handler_def status_handler_def map_error_def
            split: sum.splits prod.splits option.splits if_splits dest!: reply_text)
      next
        case (CommandsPath sid)
        with s err pub show ?thesis
          by (auto simp: serve_resource_def run_handler_def list_handler_def
            split: sum.splits prod.splits option.splits if_splits dest!: reply_text)
      next
        case (CommandPath sid rid)
        with s pub show ?thesis
          by (auto simp: serve_resource_def cancel_handler_def command_status_handler_def check_handle_def
            exec_status_def exec_kill_def split: sum.splits prod.splits option.splits if_splits dest!: reply_text)
      next
        case (StreamPath sid rid which)
        with s pub show ?thesis
          by (auto simp: serve_resource_def stream_handler_def read_stream_def check_handle_def Let_def
            split: sum.splits prod.splits option.splits if_splits dest!: reply_text)
      next
        case (TerminalPath sid)
        with s err pub show ?thesis
          by (auto simp: serve_resource_def terminal_handler_def
            split: sum.splits prod.splits option.splits dest!: reply_text)
      qed (use s in \<open>auto simp: serve_resource_def split: prod.splits\<close>)
    qed
  qed
qed

theorem worker_errors_stay_inside_witness:
  "(status_NOT_FOUND, TextBody ''unknown command'') =
     fst (handle_request exact_bearer demo_app demo_http
       (demo_request GET [''sessions'', ''other'', ''commands'', ''c''] ''secret'') (sp (demo demo_run))) \<and>
   ''unknown command'' \<in> set public_messages"
proof -
  let ?rq = "demo_request GET [''sessions'', ''other'', ''commands'', ''c''] ''secret''"
  have none: "touch_session_handle (w_clock (ht_pool demo_http) 8) (SessionId ''other'') (ExecId ''c'') (sp (demo demo_run))
      = (None, sp (demo demo_run))"
    by code_simp
  have r: "handle_request exact_bearer demo_app demo_http ?rq (sp (demo demo_run))
      = ((status_NOT_FOUND, TextBody ''unknown command''), sp (demo demo_run), [])"
    by (simp add: handle_request_def demo_request_def exact_bearer_def demo_app_def allowed_def is_get_def serve_resource_def
      command_status_handler_def check_handle_def none reply_def)
  from worker_errors_stay_inside [OF r] have "''unknown command'' \<in> set public_messages"
    by (simp add: demo_http_def)
  with r show ?thesis by simp
qed

end
