(* ===== verification/RustText.thy ===== *)
theory RustText
  imports WireApi
begin

text \<open>
  The parts of Rust's \<open>str\<close> that the worker uses, on the UTF-8 bytes of a string: \<open>trim\<close>, \<open>split\<close> on a
  character and \<open>parse\<close> of the integer types.
\<close>

text \<open>The encodings of the Unicode \<open>White_Space\<close> characters.\<close>

definition white_space :: "string list" where
  "white_space = map of_bytes
     ([[9], [10], [11], [12], [13], [32], [0xC2, 0x85], [0xC2, 0xA0], [0xE1, 0x9A, 0x80],
       [0xE2, 0x80, 0xA8], [0xE2, 0x80, 0xA9], [0xE2, 0x80, 0xAF], [0xE2, 0x81, 0x9F], [0xE3, 0x80, 0x80]]
      @ map (\<lambda>b. [0xE2, 0x80, b]) [0x80, 0x81, 0x82, 0x83, 0x84, 0x85, 0x86, 0x87, 0x88, 0x89, 0x8A])"

lemma white_space_chars [code]: "white_space =
    [[CHR 0x09], [CHR 0x0A], [CHR 0x0B], [CHR 0x0C], [CHR 0x0D], [CHR 0x20], [CHR 0xC2, CHR 0x85],
     [CHR 0xC2, CHR 0xA0], [CHR 0xE1, CHR 0x9A, CHR 0x80], [CHR 0xE2, CHR 0x80, CHR 0xA8], [CHR 0xE2,
     CHR 0x80, CHR 0xA9], [CHR 0xE2, CHR 0x80, CHR 0xAF], [CHR 0xE2, CHR 0x81, CHR 0x9F], [CHR 0xE3,
     CHR 0x80, CHR 0x80], [CHR 0xE2, CHR 0x80, CHR 0x80], [CHR 0xE2, CHR 0x80, CHR 0x81], [CHR 0xE2,
     CHR 0x80, CHR 0x82], [CHR 0xE2, CHR 0x80, CHR 0x83], [CHR 0xE2, CHR 0x80, CHR 0x84], [CHR 0xE2,
     CHR 0x80, CHR 0x85], [CHR 0xE2, CHR 0x80, CHR 0x86], [CHR 0xE2, CHR 0x80, CHR 0x87], [CHR 0xE2,
     CHR 0x80, CHR 0x88], [CHR 0xE2, CHR 0x80, CHR 0x89], [CHR 0xE2, CHR 0x80, CHR 0x8A]]"
  by (simp add: white_space_def of_bytes_def char_of_def bit_numeral_rec bit_0)

text \<open>Removing leading occurrences of the patterns; each one removed is not empty, so the length of the
  string bounds their number.\<close>

fun strip_n :: "nat \<Rightarrow> string list \<Rightarrow> string \<Rightarrow> string" where
  "strip_n 0 ws s = s"
| "strip_n (Suc n) ws s =
     (case find (\<lambda>w. take (length w) s = w) ws of
       None \<Rightarrow> s
     | Some w \<Rightarrow> strip_n n ws (drop (length w) s))"

definition trim_start :: "string \<Rightarrow> string" where
  "trim_start s = strip_n (length s) white_space s"

definition trim_end :: "string \<Rightarrow> string" where
  "trim_end s = rev (strip_n (length s) (map rev white_space) (rev s))"

definition trim :: "string \<Rightarrow> string" where
  "trim s = trim_end (trim_start s)"

text \<open>\<open>split(c)\<close>.\<close>

fun split_char :: "char \<Rightarrow> string \<Rightarrow> string list" where
  "split_char c [] = [[]]"
| "split_char c (x # xs) =
     (if x = c then [] # split_char c xs
      else case split_char c xs of p # ps \<Rightarrow> (x # p) # ps | [] \<Rightarrow> [[x]])"

lemma split_char_not_Nil [simp]: "split_char c s \<noteq> []"
  by (induction s) (auto split: list.splits)

lemma split_char_pieces: "p \<in> set (split_char c s) \<Longrightarrow> c \<notin> set p"
  by (induction s arbitrary: p) (auto split: list.splits if_splits)

lemma split_char_append: "split_char c (s @ c # t) = split_char c s @ split_char c t"
  by (induction s) (auto split: list.splits simp: neq_Nil_conv)

lemma split_char_none: "c \<notin> set s \<Longrightarrow> split_char c s = [s]"
  by (induction s) auto

text \<open>\<open>parse\<close>: an optional sign, at least one digit, and the value in range.\<close>

fun digits :: "nat \<Rightarrow> string \<Rightarrow> nat option" where
  "digits n [] = Some n"
| "digits n (c # cs) =
     (let d = of_char c :: nat in if 48 \<le> d \<and> d \<le> 57 then digits (10 * n + (d - 48)) cs else None)"

definition parse_digits :: "string \<Rightarrow> nat option" where
  "parse_digits s = (if s = [] then None else digits 0 s)"

definition parse_i32 :: "string \<Rightarrow> i32 option" where
  "parse_i32 s =
     (let v = (case s of
           c # cs \<Rightarrow> if c = CHR ''-'' then map_option (\<lambda>n. - int n) (parse_digits cs)
             else if c = CHR ''+'' then map_option int (parse_digits cs)
             else map_option int (parse_digits s)
         | [] \<Rightarrow> None)
      in case v of None \<Rightarrow> None
       | Some i \<Rightarrow> if - 2147483648 \<le> i \<and> i \<le> 2147483647 then Some i else None)"

lemma parse_i32_range: "parse_i32 s = Some i \<Longrightarrow> - 2147483648 \<le> i \<and> i \<le> 2147483647"
  by (auto simp: parse_i32_def Let_def split: option.splits if_splits)

section \<open>Lines and words\<close>

definition newline :: char where
  "newline = CHR 0x0A"

text \<open>\<open>lines\<close>: the pieces of \<open>split_inclusive\<close> on the newline, without their line ending.\<close>

fun split_inclusive :: "string \<Rightarrow> string list" where
  "split_inclusive [] = []"
| "split_inclusive (c # cs) =
     (if c = newline then [c] # split_inclusive cs
      else case split_inclusive cs of [] \<Rightarrow> [[c]] | l # ls \<Rightarrow> (c # l) # ls)"

definition strip_ending :: "string \<Rightarrow> string" where
  "strip_ending l =
     (if l \<noteq> [] \<and> last l = newline then
        (let m = butlast l in if m \<noteq> [] \<and> last m = CHR 0x0D then butlast m else m)
      else l)"

definition lines :: "string \<Rightarrow> string list" where
  "lines s = map strip_ending (split_inclusive s)"

definition starts_with :: "string \<Rightarrow> string \<Rightarrow> bool" where
  "starts_with p s \<longleftrightarrow> take (length p) s = p"

lemma starts_with_append [simp]: "starts_with p (p @ r)"
  by (simp add: starts_with_def)

definition strip_prefix :: "string \<Rightarrow> string \<Rightarrow> string option" where
  "strip_prefix p s = (if starts_with p s then Some (drop (length p) s) else None)"

lemma strip_prefix_append [simp]: "strip_prefix p (p @ r) = Some r"
  by (simp add: strip_prefix_def)

lemma strip_prefix_Some: "strip_prefix p h = Some r \<Longrightarrow> h = p @ r"
  unfolding strip_prefix_def starts_with_def
  by (metis append_take_drop_id option.distinct(1) option.inject)

text \<open>\<open>split_whitespace\<close>: the arguments are a bound on the steps and the word being read; every step
  takes at least one character.\<close>

fun words_n :: "nat \<Rightarrow> string \<Rightarrow> string \<Rightarrow> string list" where
  "words_n 0 w s = (if w = [] then [] else [w])"
| "words_n (Suc n) w [] = (if w = [] then [] else [w])"
| "words_n (Suc n) w (c # s) =
     (case find (\<lambda>p. starts_with p (c # s)) white_space of
       None \<Rightarrow> words_n n (w @ [c]) s
     | Some p \<Rightarrow> (if w = [] then [] else [w]) @ words_n n [] (drop (length p) (c # s)))"

definition split_whitespace :: "string \<Rightarrow> string list" where
  "split_whitespace s = words_n (length s) [] s"

text \<open>\<open>to_string\<close> of an unsigned integer.\<close>

function show_nat :: "nat \<Rightarrow> string" where
  "show_nat n = (if n < 10 then [char_of (48 + n)] else show_nat (n div 10) @ [char_of (48 + n mod 10)])"
  by pat_completeness auto
termination by (relation "measure id") auto

declare show_nat.simps [simp del]

text \<open>\<open>u64::from_str\<close>.\<close>

definition parse_u64 :: "string \<Rightarrow> nat option" where
  "parse_u64 s =
     (case (case s of c # cs \<Rightarrow> if c = CHR ''+'' then parse_digits cs else parse_digits s | [] \<Rightarrow> None) of
       None \<Rightarrow> None
     | Some n \<Rightarrow> if n < 2 ^ 64 then Some n else None)"

lemma split_inclusive_line: "newline \<notin> set l \<Longrightarrow> split_inclusive (l @ newline # s) = (l @ [newline]) # split_inclusive s"
  by (induction l) (simp_all, metis)

lemma split_inclusive_append:
  "s = [] \<or> last s = newline \<Longrightarrow> split_inclusive (s @ t) = split_inclusive s @ split_inclusive t"
proof (induction s)
  case Nil
  then show ?case by simp
next
  case (Cons c s)
  show ?case
  proof (cases "s = []")
    case True
    with Cons.prems show ?thesis by simp
  next
    case False
    with Cons have "split_inclusive (s @ t) = split_inclusive s @ split_inclusive t" by simp
    moreover have "split_inclusive s \<noteq> []" using False by (cases s) (auto split: list.split)
    ultimately show ?thesis by (auto split: list.split)
  qed
qed

lemma concat_split_inclusive: "concat (split_inclusive s) = s"
  by (induction s) (auto split: list.split)

lemma lines_append:
  "s = [] \<or> last s = newline \<Longrightarrow> lines (s @ t) = lines s @ lines t"
  by (simp add: lines_def split_inclusive_append)

lemma lines_line:
  assumes "newline \<notin> set l" "CHR 0x0D \<notin> set l"
  shows "lines (l @ [newline]) = [l]"
proof -
  have "\<not> (l \<noteq> [] \<and> last l = CHR 0x0D)" using assms(2) last_in_set by metis
  then show ?thesis using split_inclusive_line [OF assms(1), of "[]"] by (auto simp: lines_def strip_ending_def Let_def)
qed

text \<open>A text all of whose lines end with a bare newline is the concatenation of its lines.\<close>

definition unix_text :: "string \<Rightarrow> bool" where
  "unix_text s \<longleftrightarrow> CHR 0x0D \<notin> set s \<and> (s = [] \<or> last s = newline)"

lemma unix_text_lines:
  assumes "unix_text s"
  shows "concat (map (\<lambda>l. l @ [newline]) (lines s)) = s"
proof -
  have "concat (map (\<lambda>l. l @ [newline]) (lines s)) = s" if "CHR 0x0D \<notin> set s" "s = [] \<or> last s = newline" for s
    using that
  proof (induction "length s" arbitrary: s rule: less_induct)
    case less
    show ?case
    proof (cases "s = []")
      case True
      then show ?thesis by (simp add: lines_def)
    next
      case False
      with less.prems(2) have "newline \<in> set s" by (metis last_in_set)
      then obtain l r where s: "s = l @ newline # r" "newline \<notin> set l" by (meson split_list_first)
      have cr: "CHR 0x0D \<notin> set l" "CHR 0x0D \<notin> set r" using less.prems(1) s(1) by simp_all
      have r: "r = [] \<or> last r = newline" using less.prems(2) s(1) by (auto split: if_splits)
      have "lines s = l # lines r"
        using lines_append [of "l @ [newline]" r] lines_line [OF s(2) cr(1)] by (simp add: s(1))
      moreover have "length r < length s" by (simp add: s(1))
      ultimately show ?thesis using less.hyps [OF _ cr(2) r] by (simp add: s(1))
    qed
  qed
  with assms show ?thesis by (simp add: unix_text_def)
qed

section \<open>Decimal numbers\<close>

lemma show_nat_chars: "c \<in> set (show_nat n) \<Longrightarrow> 48 \<le> (of_char c :: nat) \<and> (of_char c :: nat) \<le> 57"
proof (induction n rule: show_nat.induct)
  case (1 n)
  show ?case
  proof (cases "n < 10")
    case True
    with 1(2) show ?thesis by (simp add: show_nat.simps)
  next
    case False
    from 1(2) False have "c \<in> set (show_nat (n div 10)) \<or> c = char_of (48 + n mod 10)"
      by (subst (asm) show_nat.simps) auto
    with 1(1) [OF False] show ?thesis by auto
  qed
qed

lemma show_nat_not_Nil: "show_nat n \<noteq> []"
  by (subst show_nat.simps) simp

lemma digits_snoc: "digits m s = Some k \<Longrightarrow> d < 10 \<Longrightarrow> digits m (s @ [char_of (48 + d)]) = Some (10 * k + d)"
  by (induction s arbitrary: m) (auto simp: Let_def split: if_splits)

lemma digits_show_nat: "digits 0 (show_nat n) = Some n"
proof (induction n rule: show_nat.induct)
  case (1 n)
  show ?case
  proof (cases "n < 10")
    case True
    then show ?thesis by (simp add: show_nat.simps)
  next
    case False
    from digits_snoc [OF 1 [OF False], of "n mod 10"] False show ?thesis
      by (subst show_nat.simps) simp
  qed
qed

lemma parse_u64_show_nat: "n < 2 ^ 64 \<Longrightarrow> parse_u64 (show_nat n) = Some n"
proof -
  assume n: "n < 2 ^ 64"
  obtain c cs where s: "show_nat n = c # cs" using show_nat_not_Nil [of n] by (cases "show_nat n") auto
  have "c \<noteq> CHR ''+''" using show_nat_chars [of c n] by (auto simp: s)
  with digits_show_nat [of n] n show ?thesis by (simp add: s parse_u64_def parse_digits_def)
qed

lemma digit_no_white_space:
  assumes "48 \<le> (of_char c :: nat)" and "(of_char c :: nat) \<le> 57"
  shows "w \<in> set white_space \<Longrightarrow> c \<notin> set w"
proof -
  have "\<forall>w \<in> set white_space. \<forall>x \<in> set w. (of_char x :: nat) < 48 \<or> 57 < (of_char x :: nat)" by code_simp
  then show "w \<in> set white_space \<Longrightarrow> c \<notin> set w" using assms by fastforce
qed

lemma white_space_not_Nil: "[] \<notin> set white_space"
  by code_simp

lemma strip_n_digits:
  assumes "\<And>w. w \<in> set ws \<Longrightarrow> w \<noteq> [] \<and> set w \<inter> set s = {}"
  shows "strip_n n ws s = s"
proof (cases n)
  case (Suc m)
  have "find (\<lambda>w. take (length w) s = w) ws = None"
  proof (unfold find_None_iff, safe)
    fix w assume w: "w \<in> set ws" "take (length w) s = w"
    then have "hd w \<in> set s" using assms [of w] by (metis hd_in_set in_set_takeD)
    with assms [of w] w(1) show False by (meson disjoint_iff hd_in_set)
  qed
  with Suc show ?thesis by simp
qed simp

lemma trim_show_nat: "trim (show_nat n) = show_nat n"
proof -
  have d: "w \<in> set white_space \<Longrightarrow> w \<noteq> [] \<and> set w \<inter> set (show_nat n) = {}" for w
    using digit_no_white_space show_nat_chars white_space_not_Nil by blast
  have "trim_start (show_nat n) = show_nat n" unfolding trim_start_def by (rule strip_n_digits) (rule d)
  moreover have "trim_end (show_nat n) = show_nat n"
    unfolding trim_end_def by (subst strip_n_digits) (use d in fastforce, simp)
  ultimately show ?thesis by (simp add: trim_def)
qed

end
