(* ===== verification/HttpSockets.thy ===== *)
theory HttpSockets
  imports HttpApi RustText Traces PoolQueries
begin

text \<open>
  The WebSocket side of \<open>shiitake-server/src/http\<close>: the registration of workers under a dispatch token
  bound to their profile (\<open>mod.rs\<close>, \<open>dispatch.rs\<close>), the terminal attachment of a session
  (\<open>sessions.rs\<close>) and the legacy terminal on a pinned worker (\<open>pty.rs\<close>).  A loop over a \<open>select!\<close> takes
  one input per turn; each input carries whether the send it leads to succeeds.  The parsers of the JSON
  control frames are arguments.
\<close>

section \<open>Dispatch credentials\<close>

text \<open>\<open>build_dispatch_router_with_profiles\<close>; the extra tokens come in the order of their map, by profile.\<close>

fun check_tokens :: "string list \<Rightarrow> (string \<times> string) list \<Rightarrow> string + unit" where
  "check_tokens seen_tokens [] = Inr ()"
| "check_tokens seen_tokens ((profile, token) # rest) =
     (if profile = ''default'' \<or> \<not> valid_profile profile
      then Inl (''invalid additional profile name: '' @ profile)
      else if token = [] \<or> token \<in> set seen_tokens
      then Inl ''each profile needs a distinct non-empty dispatch token''
      else check_tokens (token # seen_tokens) rest)"

definition build_tokens :: "string \<Rightarrow> (string \<times> string) list \<Rightarrow> string + (string \<times> string) list" where
  "build_tokens default_token extra =
     (if default_token = [] then Inl ''default dispatch token is required''
      else case check_tokens [default_token] extra of
        Inl e \<Rightarrow> Inl e
      | Inr _ \<Rightarrow> Inr (insort_key fst (''default'', default_token) extra))"

text \<open>\<open>connect_scoped\<close>: the profile of the token, or no upgrade (401).  A header that is no text counts as
  absent.\<close>

definition connect_scoped :: "(string \<times> string) list \<Rightarrow> string option \<Rightarrow> string option" where
  "connect_scoped tokens header =
     (case header of
       None \<Rightarrow> None
     | Some h \<Rightarrow> (case strip_prefix ''Bearer '' h of
         None \<Rightarrow> None
       | Some token \<Rightarrow> map_option fst (find (\<lambda>(_, expected). expected = token) tokens)))"

text \<open>The first message of the socket (\<open>None\<close> when it ends or fails); \<open>None\<close> closes the socket.\<close>

definition accept_hello :: "string option \<Rightarrow> message option \<Rightarrow>
    (worker_id \<times> string \<times> worker_location option) option" where
  "accept_hello expected_profile first =
     (case first of
       Some (Text (Hello w version profile location)) \<Rightarrow>
         if version \<noteq> PROTOCOL_VERSION then None
         else if \<not> valid_profile profile then None
         else if (case expected_profile of None \<Rightarrow> False | Some e \<Rightarrow> e \<noteq> profile) then None
         else Some (w, profile, location)
     | _ \<Rightarrow> None)"

definition run_socket :: "pool_config \<Rightarrow> time \<Rightarrow> string option \<Rightarrow> message option \<Rightarrow> bool \<Rightarrow> conn \<Rightarrow>
    (world \<times> conn_input) list \<Rightarrow> world \<Rightarrow> pool \<Rightarrow> pool \<times> effect list" where
  "run_socket cfg now expected_profile first ack_sent c ins Wd p =
     (case accept_hello expected_profile first of
       None \<Rightarrow> (p, [])
     | Some (w, profile, location) \<Rightarrow>
         (let fx = [SendFrame c (Text (HelloAck PROTOCOL_VERSION))]
          in if \<not> ack_sent then (p, fx)
             else case register_and_run cfg now w profile location c ins Wd p of
               Inl _ \<Rightarrow> (p, fx)
             | Inr (p1, fx1) \<Rightarrow> (p1, fx @ fx1)))"

definition dispatch_socket :: "pool_config \<Rightarrow> (string \<times> string) list \<Rightarrow> string option \<Rightarrow> time \<Rightarrow> message option \<Rightarrow>
    bool \<Rightarrow> conn \<Rightarrow> (world \<times> conn_input) list \<Rightarrow> world \<Rightarrow> pool \<Rightarrow> pool \<times> effect list" where
  "dispatch_socket cfg tokens header now first ack_sent c ins Wd p =
     (case connect_scoped tokens header of
       None \<Rightarrow> (p, [])
     | Some profile \<Rightarrow> run_socket cfg now (Some profile) first ack_sent c ins Wd p)"

section \<open>The terminal of a session\<close>

datatype client_frame = CBinary bytes | CText string | CPing | CPong | CEnd
datatype client_out = OutPing | OutBinary bytes | OutClose nat string

datatype socket_action =
    ToClient client_out
  | ToWorker message
  | DetachTerminal
  | ReleasePinned

datatype 'e socket_input =
    PingTick time bool
  | FromClient time client_frame bool
  | FromPool "'e option" bool

definition terminal_close :: "string option \<Rightarrow> client_out" where
  "terminal_close err = (case err of
     Some _ \<Rightarrow> OutClose 1011 ''session ended unexpectedly'' | None \<Rightarrow> OutClose 1000 ''session ended'')"

text \<open>\<open>terminal_resize\<close>, over the parser of the control frame.\<close>

definition terminal_resize :: "(string \<Rightarrow> (16 word \<times> 16 word) option) \<Rightarrow> string \<Rightarrow> (16 word \<times> 16 word) option" where
  "terminal_resize parse text =
     (case parse text of
       Some (cols, rows) \<Rightarrow> if 0 < cols \<and> 0 < rows then Some (cols, rows) else None
     | None \<Rightarrow> None)"

text \<open>Durations are in milliseconds.\<close>

definition ping_every :: "nat \<Rightarrow> nat" where
  "ping_every keepalive = max keepalive 1000"

definition max_silence :: "nat \<Rightarrow> nat" where
  "max_silence keepalive = ping_every keepalive * 3"

record terminal_state =
  ts_last :: time
  ts_open :: bool

definition terminal_turn :: "(string \<Rightarrow> (16 word \<times> 16 word) option) \<Rightarrow> session_id \<Rightarrow> nat \<Rightarrow> terminal_state \<Rightarrow>
    terminal_event socket_input \<Rightarrow> terminal_state \<times> socket_action list" where
  "terminal_turn parse sid keepalive s inp =
     (case inp of
       PingTick now ok \<Rightarrow>
         if max_silence keepalive \<le> now - ts_last s
         then (s\<lparr>ts_open := False\<rparr>, [ToClient (OutClose 1001 ''terminal connection timed out'')])
         else (s\<lparr>ts_open := ok\<rparr>, [ToClient OutPing])
     | FromClient now f ok \<Rightarrow>
         (case f of
           CBinary b \<Rightarrow>
             (case encode \<lparr>chunk_stream = Stdin, chunk_id = sid_str sid, chunk_bytes = b\<rparr> of
               None \<Rightarrow> (s\<lparr>ts_open := False\<rparr>, [])
             | Some e \<Rightarrow> (\<lparr>ts_last = now, ts_open = ok\<rparr>, [ToWorker (Binary e)]))
         | CText t \<Rightarrow>
             (case terminal_resize parse t of
               None \<Rightarrow> (s\<lparr>ts_open := False\<rparr>, [ToClient (OutClose 1007 ''invalid terminal control'')])
             | Some (cols, rows) \<Rightarrow>
                 (\<lparr>ts_last = now, ts_open = ok\<rparr>, [ToWorker (Text (SessionResize sid cols rows))]))
         | CPing \<Rightarrow> (s\<lparr>ts_last := now\<rparr>, [])
         | CPong \<Rightarrow> (s\<lparr>ts_last := now\<rparr>, [])
         | CEnd \<Rightarrow> (s\<lparr>ts_open := False\<rparr>, []))
     | FromPool ev ok \<Rightarrow>
         (case ev of
           Some (TermOutput b) \<Rightarrow> (s\<lparr>ts_open := ok\<rparr>, [ToClient (OutBinary b)])
         | Some (TermClosed err) \<Rightarrow> (s\<lparr>ts_open := False\<rparr>, [ToClient (terminal_close err)])
         | None \<Rightarrow> (s\<lparr>ts_open := False\<rparr>, [ToClient (OutClose 1011 ''worker disconnected'')])))"

text \<open>The whole attachment over the inputs it meets: the actions, and whether it has ended.\<close>

definition serve_terminal :: "(string \<Rightarrow> (16 word \<times> 16 word) option) \<Rightarrow> session_id \<Rightarrow> nat \<Rightarrow> time \<Rightarrow>
    terminal_event socket_input list \<Rightarrow> bool \<times> socket_action list" where
  "serve_terminal parse sid keepalive now ins =
     (let (s, acts) = drive ts_open (terminal_turn parse sid keepalive) ins \<lparr>ts_last = now, ts_open = True\<rparr>
      in (\<not> ts_open s, acts @ (if ts_open s then [] else [DetachTerminal])))"

section \<open>The legacy terminal on a pinned worker\<close>

record open_params =
  op_command :: "string list"
  op_working_dir :: string
  op_env :: env_map
  op_cols :: "16 word"
  op_rows :: "16 word"
  op_drop_to :: "drop_to option"

datatype client_control = ControlOpen open_params | ControlResize "16 word" "16 word"

text \<open>\<open>first_open\<close>: the messages until the opening one; \<open>None\<close> in the list is the deadline.  The outer
  \<open>None\<close> means that more is to come.\<close>

fun first_open :: "(string \<Rightarrow> client_control option) \<Rightarrow> client_frame option list \<Rightarrow> open_params option option" where
  "first_open parse [] = None"
| "first_open parse (None # ms) = Some None"
| "first_open parse (Some m # ms) =
     (case m of
       CText t \<Rightarrow> Some (case parse t of Some (ControlOpen o1) \<Rightarrow> Some o1 | _ \<Rightarrow> None)
     | CPing \<Rightarrow> first_open parse ms
     | CPong \<Rightarrow> first_open parse ms
     | CBinary _ \<Rightarrow> first_open parse ms
     | CEnd \<Rightarrow> Some None)"

definition pty_open_of :: "exec_id \<Rightarrow> open_params \<Rightarrow> pty_open_frame" where
  "pty_open_of pid o1 = \<lparr>pty_session_id = pid, pty_command = op_command o1, pty_working_dir = op_working_dir o1,
     pty_env = op_env o1, pty_cols = op_cols o1, pty_rows = op_rows o1, pty_drop_to = op_drop_to o1\<rparr>"

text \<open>How the splice stands: it runs, the client left (or a socket died), or the shell ended and the
  worker was released.\<close>

datatype splice = Splicing | ClientLeft | ShellEnded

definition splice_turn :: "(string \<Rightarrow> client_control option) \<Rightarrow> exec_id \<Rightarrow> splice \<Rightarrow> pty_event socket_input \<Rightarrow>
    splice \<times> socket_action list" where
  "splice_turn parse pid s inp =
     (case inp of
       PingTick _ ok \<Rightarrow> (if ok then s else ClientLeft, [ToWorker (Ping [])])
     | FromClient _ f ok \<Rightarrow>
         (case f of
           CBinary b \<Rightarrow> (if ok then s else ClientLeft, [ToWorker (Binary b)])
         | CText t \<Rightarrow>
             (s, case parse t of
                   Some (ControlResize cols rows) \<Rightarrow> [ToWorker (Text (PtyResize pid cols rows))]
                 | _ \<Rightarrow> [])
         | CPing \<Rightarrow> (s, [])
         | CPong \<Rightarrow> (s, [])
         | CEnd \<Rightarrow> (ClientLeft, []))
     | FromPool ev ok \<Rightarrow>
         (case ev of
           Some (PtyOutput b) \<Rightarrow> (if ok then s else ClientLeft, [ToClient (OutBinary b)])
         | Some (PtyExited _ _ err) \<Rightarrow>
             (ShellEnded, [ToClient (case err of None \<Rightarrow> OutClose 1000 ''session ended'' | Some e \<Rightarrow> OutClose 1011 e),
                ReleasePinned])
         | None \<Rightarrow> (ShellEnded, [ToClient (OutClose 1011 ''session ended unexpectedly''), ReleasePinned])))"

text \<open>The wait for the shell to end after \<open>PtyClose\<close> gives up after five seconds; its outcome is not
  used.  \<open>None\<close> for the worker means that none is idle.\<close>

definition serve_pty :: "(string \<Rightarrow> client_control option) \<Rightarrow> client_frame option list \<Rightarrow> bool \<Rightarrow> exec_id \<Rightarrow> bool \<Rightarrow>
    pty_event socket_input list \<Rightarrow> bool \<times> socket_action list" where
  "serve_pty parse opening pinned pid open_sent ins =
     (case first_open parse opening of
       None \<Rightarrow> (False, [])
     | Some None \<Rightarrow> (True, [ToClient (OutClose 1008 ''expected an open frame'')])
     | Some (Some o1) \<Rightarrow>
         if \<not> pinned then (True, [ToClient (OutClose 1013 ''no idle worker; retry'')])
         else if \<not> open_sent
         then (True, [ToWorker (Text (PtyOpen (pty_open_of pid o1))), ToClient (OutClose 1011 ''worker unreachable''),
                ReleasePinned])
         else (let (s, acts) = drive (\<lambda>s. s = Splicing) (splice_turn parse pid) ins Splicing
               in (s \<noteq> Splicing, ToWorker (Text (PtyOpen (pty_open_of pid o1))) # acts
                 @ (if s = ClientLeft then [ToWorker (Text (PtyClose pid)), ReleasePinned] else []))))"

section \<open>Workers and their tokens\<close>

lemma check_tokens_ok:
  "check_tokens ts extra = Inr u \<Longrightarrow>
     distinct (map snd extra) \<and> snd ` set extra \<inter> set ts = {} \<and> [] \<notin> snd ` set extra \<and> ''default'' \<notin> fst ` set extra"
  by (induction ts extra rule: check_tokens.induct) (auto split: if_splits)

lemma build_tokens_ok:
  assumes "build_tokens d extra = Inr tokens"
  shows "distinct (map snd tokens) \<and> [] \<notin> snd ` set tokens"
proof -
  have t: "tokens = insort_key fst (''default'', d) extra" "d \<noteq> []" and c: "check_tokens [d] extra = Inr ()"
    using assms by (auto simp: build_tokens_def split: if_splits sum.splits)
  have "distinct (map snd (insort_key fst x xs)) \<longleftrightarrow> snd x \<notin> snd ` set xs \<and> distinct (map snd xs)"
    for x :: "string \<times> string" and xs
    by (induction xs) (auto simp: set_insort_key)
  with check_tokens_ok [OF c] t show ?thesis by (auto simp: set_insort_key)
qed

lemma distinct_snd: "distinct (map snd xs) \<Longrightarrow> (a, t) \<in> set xs \<Longrightarrow> (b, t) \<in> set xs \<Longrightarrow> a = b"
  by (induction xs) (auto simp: rev_image_eqI)

lemma accept_hello_Some:
  assumes "accept_hello (Some e) first = Some x"
  shows "\<exists>w location. first = Some (Text (Hello w PROTOCOL_VERSION e location)) \<and> valid_profile e"
proof -
  from assms obtain m where m: "first = Some m" by (cases first) (simp_all add: accept_hello_def)
  with assms obtain f where f: "m = Text f" by (cases m) (simp_all add: accept_hello_def)
  with assms m show ?thesis by (cases f) (auto simp: accept_hello_def split: if_splits)
qed

text \<open>
  C22: A worker is registered only under the profile of its credential: a dispatch connection has no effect on the
  pool, and gets no answer, unless its first message is a Hello of the current protocol version for a
  valid profile and it presented exactly the token configured for that profile; no two profiles of
  an accepted configuration share a token, so the token decides the profile; and whatever it changes in the pool it
  changes after the registration of the named worker under that profile.  (What a registered worker may report is
  another matter: \<open>foreign_result_accepted\<close>.)
\<close>

theorem worker_profile_bound:
  assumes "build_tokens d extra = Inr tokens"
    and "dispatch_socket cfg tokens header now first sent c ins Wd p = (p', fx)" and "p' \<noteq> p \<or> fx \<noteq> []"
  shows "\<exists>w profile location token. first = Some (Text (Hello w PROTOCOL_VERSION profile location)) \<and>
    header = Some (''Bearer '' @ token) \<and> token \<noteq> [] \<and> valid_profile profile \<and> (profile, token) \<in> set tokens \<and>
    (\<forall>q. (q, token) \<in> set tokens \<longrightarrow> q = profile) \<and>
    (p' \<noteq> p \<longrightarrow> (\<exists>p1 fx1. register_worker now w profile location c p = Inr p1 \<and> read_loop cfg w ins Wd p1 = (p', fx1)))"
proof -
  note ok = build_tokens_ok [OF assms(1)]
  from assms(2,3) obtain profile where prof: "connect_scoped tokens header = Some profile"
    and run: "run_socket cfg now (Some profile) first sent c ins Wd p = (p', fx)"
    by (auto simp: dispatch_socket_def split: option.splits)
  from prof obtain h token where h: "header = Some h" "strip_prefix ''Bearer '' h = Some token"
    and f: "map_option fst (find (\<lambda>(_, expected). expected = token) tokens) = Some profile"
    by (auto simp: connect_scoped_def split: option.splits)
  from h(2) have hd: "h = ''Bearer '' @ token"
    by (rule strip_prefix_Some)
  from f have mem: "(profile, token) \<in> set tokens" by (auto simp: find_Some_iff) (metis nth_mem)
  from run assms(3) obtain x where x: "accept_hello (Some profile) first = Some x"
    by (auto simp: run_socket_def split: option.splits)
  from accept_hello_Some [OF this] obtain w location
    where f: "first = Some (Text (Hello w PROTOCOL_VERSION profile location))" and v: "valid_profile profile" by blast
  have "x = (w, profile, location)" using x f v by (simp add: accept_hello_def)
  with run x have reg: "p' \<noteq> p \<longrightarrow> (\<exists>p1 fx1. register_worker now w profile location c p = Inr p1 \<and> read_loop cfg w ins Wd p1 = (p', fx1))"
    by (auto simp: run_socket_def register_and_run_def Let_def split: if_splits sum.splits prod.splits)
  have "token \<noteq> []" using ok mem by force
  moreover have "\<forall>q. (q, token) \<in> set tokens \<longrightarrow> q = profile" using ok mem distinct_snd by metis
  ultimately show ?thesis using f v reg mem h(1) hd by blast
qed

definition demo_tokens :: "(string \<times> string) list" where
  "demo_tokens = [(''default'', ''t''), (''root'', ''u'')]"

theorem worker_profile_bound_witness:
  "fst (dispatch_socket demo_config demo_tokens (Some ''Bearer u'') 1
      (Some (Text (Hello demo_w PROTOCOL_VERSION ''root'' None))) False 7 [] still_world new_pool) = new_pool \<and>
   {q. (q, ''u'') \<in> set demo_tokens} = {''root''}"
proof -
  let ?r = "dispatch_socket demo_config demo_tokens (Some ''Bearer u'') 1
      (Some (Text (Hello demo_w PROTOCOL_VERSION ''root'' None))) False 7 [] still_world new_pool"
  have b: "build_tokens ''t'' [(''root'', ''u'')] = Inr demo_tokens" by code_simp
  have r: "?r = (new_pool, [SendFrame 7 (Text (HelloAck PROTOCOL_VERSION))])" by code_simp
  from worker_profile_bound [OF b r] show ?thesis unfolding r by auto
qed

section \<open>Terminals of a session\<close>

definition keystrokes_in :: "'e socket_input list \<Rightarrow> bytes" where
  "keystrokes_in ins = concat (map (\<lambda>i. case i of FromClient _ (CBinary b) _ \<Rightarrow> b | _ \<Rightarrow> []) ins)"

definition keystrokes_out :: "session_id \<Rightarrow> socket_action list \<Rightarrow> bytes" where
  "keystrokes_out sid acts = concat (map (\<lambda>a. case a of
     ToWorker (Binary e) \<Rightarrow> (case decode e of
         Inr c \<Rightarrow> if chunk_stream c = Stdin \<and> chunk_id c = sid_str sid then chunk_bytes c else []
       | Inl _ \<Rightarrow> [])
   | _ \<Rightarrow> []) acts)"

definition screen_in :: "terminal_event socket_input list \<Rightarrow> bytes" where
  "screen_in ins = concat (map (\<lambda>i. case i of FromPool (Some (TermOutput b)) _ \<Rightarrow> b | _ \<Rightarrow> []) ins)"

definition screen_out :: "socket_action list \<Rightarrow> bytes" where
  "screen_out acts = concat (map (\<lambda>a. case a of ToClient (OutBinary b) \<Rightarrow> b | _ \<Rightarrow> []) acts)"

lemma relay_simps [simp]:
  "keystrokes_in [] = []" "keystrokes_in (i # is) = keystrokes_in [i] @ keystrokes_in is"
  "screen_in [] = []" "screen_in (j # js) = screen_in [j] @ screen_in js"
  "keystrokes_out sid [] = []" "keystrokes_out sid (as @ bs) = keystrokes_out sid as @ keystrokes_out sid bs"
  "screen_out [] = []" "screen_out (as @ bs) = screen_out as @ screen_out bs"
  by (simp_all add: keystrokes_in_def screen_in_def keystrokes_out_def screen_out_def)

lemma terminal_turn_relays:
  assumes "rust_string (sid_str sid)" and "length (sid_str sid) < 2 ^ 16"
    and "terminal_turn parse sid k s i = (t, as)"
  shows "keystrokes_out sid as = keystrokes_in [i] \<and> screen_out as = screen_in [i]"
proof -
  have c: "\<exists>e. encode \<lparr>chunk_stream = Stdin, chunk_id = sid_str sid, chunk_bytes = b\<rparr> = Some e \<and>
      decode e = Inr \<lparr>chunk_stream = Stdin, chunk_id = sid_str sid, chunk_bytes = b\<rparr>" for b
  proof -
    have ok: "chunk_ok \<lparr>chunk_stream = Stdin, chunk_id = sid_str sid, chunk_bytes = b\<rparr>"
      using assms(1,2) by (simp add: chunk_ok_def)
    from chunk.enc_total [OF this] chunk.dec_enc [OF ok] show ?thesis by blast
  qed
  note defs = terminal_turn_def keystrokes_out_def keystrokes_in_def screen_in_def screen_out_def
  show ?thesis
  proof (cases "\<exists>now b ok. i = FromClient now (CBinary b) ok")
    case True
    then obtain now b ok where i: "i = FromClient now (CBinary b) ok" by blast
    from c [of b] assms(3) show ?thesis by (auto simp: i defs)
  next
    case False
    with assms(3) show ?thesis
      by (cases i) (auto simp: defs terminal_close_def split: client_frame.splits option.splits
        terminal_event.splits if_splits)
  qed
qed

text \<open>
  A terminal relays everything once, in order and unchanged: at any time the keystrokes in the Stdin
  chunks of the session sent to the worker are, decoded, exactly those the client typed, and the bytes on
  the client's screen exactly the output of the worker, up to the input at which the attachment ended.
\<close>

theorem terminal_relays_exactly:
  assumes "rust_string (sid_str sid)" and "length (sid_str sid) < 2 ^ 16"
    and "serve_terminal parse sid keepalive now ins = (ended, acts)"
  shows "\<exists>n. keystrokes_out sid acts = keystrokes_in (take n ins) \<and> screen_out acts = screen_in (take n ins) \<and>
    (\<not> ended \<longrightarrow> take n ins = ins)"
proof -
  have relay: "\<exists>n. keystrokes_out sid (snd r) = keystrokes_in (take n is) \<and> screen_out (snd r) = screen_in (take n is)
      \<and> (ts_open (fst r) \<longrightarrow> take n is = is)"
    if "r = drive ts_open (terminal_turn parse sid keepalive) is s" for r "is" s
    using that
  proof (induction "is" arbitrary: s r)
    case Nil
    then show ?case by simp
  next
    case (Cons i "is")
    show ?case
    proof (cases "ts_open s")
      case False
      with Cons.prems show ?thesis by (intro exI [of _ 0]) simp
    next
      case True
      obtain s1 a1 where t: "terminal_turn parse sid keepalive s i = (s1, a1)" by fastforce
      let ?r = "drive ts_open (terminal_turn parse sid keepalive) is s1"
      have r: "r = (fst ?r, a1 @ snd ?r)" using Cons.prems True t by (simp add: split_beta Let_def)
      from Cons.IH [OF refl, of s1] obtain n where
        n: "keystrokes_out sid (snd ?r) = keystrokes_in (take n is)" "screen_out (snd ?r) = screen_in (take n is)"
          "ts_open (fst ?r) \<longrightarrow> take n is = is" by blast
      note one = terminal_turn_relays [OF assms(1,2) t]
      show ?thesis
        by (rule exI [of _ "Suc n"])
          (use n one r in \<open>simp add: relay_simps(2) [of i "take n is"] relay_simps(4) [of i "take n is"]
            del: relay_simps(2,4)\<close>)
    qed
  qed
  have tail: "keystrokes_out sid (if b then [] else [DetachTerminal]) = []"
    "screen_out (if b then [] else [DetachTerminal]) = []" for b
    by (simp_all add: keystrokes_out_def screen_out_def)
  let ?d = "drive ts_open (terminal_turn parse sid keepalive) ins \<lparr>ts_last = now, ts_open = True\<rparr>"
  from relay [OF refl] obtain n where n: "keystrokes_out sid (snd ?d) = keystrokes_in (take n ins)"
    "screen_out (snd ?d) = screen_in (take n ins)" "ts_open (fst ?d) \<longrightarrow> take n ins = ins" by blast
  have "ended \<longleftrightarrow> \<not> ts_open (fst ?d)" and "acts = snd ?d @ (if ts_open (fst ?d) then [] else [DetachTerminal])"
    using assms(3) by (simp_all add: serve_terminal_def Let_def split_beta)
  with n tail show ?thesis by (intro exI [of _ n]) (simp del: if_split)
qed

definition no_control :: "string \<Rightarrow> (16 word \<times> 16 word) option" where
  "no_control text = None"

theorem terminal_relays_exactly_witness:
  "keystrokes_out demo_s (snd (serve_terminal no_control demo_s 1000 0
      [FromClient 1 (CBinary [104, 105]) True, FromPool (Some (TermOutput [36])) True, FromClient 2 (CBinary [10]) True]))
    = [104, 105, 10]"
proof -
  let ?ins = "[FromClient 1 (CBinary [104, 105]) True, FromPool (Some (TermOutput [36])) True,
    FromClient 2 (CBinary [10]) True]"
  let ?r = "serve_terminal no_control demo_s 1000 0 ?ins"
  have ok: "rust_string (sid_str demo_s)" "length (sid_str demo_s) < 2 ^ 16"
    by (simp_all add: demo_s_def rust_string_def as_bytes_def)
  have "fst ?r = False" by (simp add: serve_terminal_def terminal_turn_def encode_def demo_s_def)
  then have e: "?r = (False, snd ?r)" by (simp add: prod_eq_iff)
  from terminal_relays_exactly [OF ok e] obtain n where
    n: "keystrokes_out demo_s (snd ?r) = keystrokes_in (take n ?ins)" "take n ?ins = ?ins" by blast
  show ?thesis unfolding n by (simp add: keystrokes_in_def)
qed

text \<open>
  C25: A terminal that ends is detached, once and last, so the session can be attached again; a terminal
  that goes on is not detached.  And it ends: a client that has been silent for three ping intervals is
  disconnected at the next tick, whatever the worker sends in the meantime.
\<close>

theorem silent_client_detached:
  assumes "ins = before @ PingTick late ok # after"
    and "\<And>t f b. FromClient t f b \<in> set before \<Longrightarrow> t \<le> heard" and "now \<le> heard"
    and "heard + max_silence keepalive \<le> late"
    and "serve_terminal parse sid keepalive now ins = (ended, acts)"
  shows "ended \<and> (\<exists>rest. acts = rest @ [DetachTerminal] \<and> DetachTerminal \<notin> set rest)"
proof -
  let ?turn = "terminal_turn parse sid keepalive" and ?s = "\<lparr>ts_last = now, ts_open = True\<rparr>"
  let ?d = "drive ts_open ?turn ins ?s"
  have last: "ts_last (fst (drive ts_open ?turn before ?s)) \<le> heard"
  proof (rule drive_keeps [where P = "\<lambda>s. ts_last s \<le> heard"])
    fix s :: terminal_state and i assume "i \<in> set before" "ts_last s \<le> heard"
    with assms(2) show "ts_last (fst (?turn s i)) \<le> heard"
      by (auto simp: terminal_turn_def split: socket_input.splits client_frame.splits option.splits terminal_event.splits)
  qed (use assms(3) in simp)
  have dead: "\<not> ts_open s \<Longrightarrow> drive ts_open ?turn is s = (s, [])" for s "is" by (cases "is") simp_all
  have "\<not> ts_open (fst ?d)"
    using last assms(4) dead
    by (auto simp: assms(1) drive_append Let_def split_beta terminal_turn_def)
  moreover have "DetachTerminal \<notin> set (snd ?d)"
  proof
    assume "DetachTerminal \<in> set (snd ?d)"
    from drive_effect [OF this] obtain i s where "DetachTerminal \<in> set (snd (?turn s i))" by blast
    then show False
      by (auto simp: terminal_turn_def split: socket_input.splits client_frame.splits option.splits
        terminal_event.splits if_splits)
  qed
  ultimately show ?thesis using assms(5) by (auto simp: serve_terminal_def Let_def split_beta)
qed

theorem silent_client_detached_witness:
  "fst (serve_terminal no_control demo_s 1000 0 [PingTick 1000 True, FromPool (Some (TermOutput [36])) True, PingTick 3000 True])"
proof -
  let ?r = "serve_terminal no_control demo_s 1000 0
    ([PingTick 1000 True, FromPool (Some (TermOutput [36])) True] @ PingTick 3000 True # [])"
  have "fst ?r" by (rule silent_client_detached [OF refl _ _ _ prod.collapse [symmetric], of _ 0, THEN conjunct1])
    (auto simp: max_silence_def ping_every_def)
  then show ?thesis by simp
qed

section \<open>Pinned workers\<close>

lemma splice_turn_release:
  "splice_turn parse pid Splicing i = (t, as) \<Longrightarrow>
     (if t = ShellEnded then \<exists>code msg. as = [ToClient (OutClose code msg), ReleasePinned] else ReleasePinned \<notin> set as)"
  by (cases i) (auto simp: splice_turn_def split: client_frame.splits option.splits pty_event.splits
    client_control.splits if_splits)

lemma splice_release:
  "drive (\<lambda>s. s = Splicing) (splice_turn parse pid) ins Splicing = (t, as) \<Longrightarrow>
     (if t = ShellEnded then \<exists>rest. as = rest @ [ReleasePinned] \<and> ReleasePinned \<notin> set rest \<and>
        (\<exists>code msg. ToClient (OutClose code msg) \<in> set rest)
      else ReleasePinned \<notin> set as)"
proof (induction ins arbitrary: t as)
  case Nil
  then show ?case by simp
next
  case (Cons i ins)
  obtain t1 a1 where t1: "splice_turn parse pid Splicing i = (t1, a1)" by fastforce
  note one = splice_turn_release [OF t1]
  show ?case
  proof (cases "t1 = Splicing")
    case True
    obtain t2 a2 where t2: "drive (\<lambda>s. s = Splicing) (splice_turn parse pid) ins Splicing = (t2, a2)" by fastforce
    have "t = t2" "as = a1 @ a2" using Cons.prems t1 t2 True by simp_all
    with Cons.IH [OF t2] one True show ?thesis
      by (cases "t = ShellEnded") (fastforce intro: exI [of _ "a1 @ r" for r])+
  next
    case False
    then have "drive (\<lambda>s. s = Splicing) (splice_turn parse pid) ins t1 = (t1, [])" by (cases ins) simp_all
    with Cons.prems t1 have "t = t1" "as = a1" by simp_all
    with one show ?thesis by (auto split: if_splits)
  qed
qed

text \<open>
  C24: No worker is lost to a terminal: a legacy terminal that pinned a worker and ends has released it,
  exactly once and as its last action, on every path, whether the shell ended, the client left, a send
  failed or the open frame could not be sent, and not before it told the shell to hang up or the client
  that the terminal is over; it never releases a worker it did not pin or still uses.
\<close>

theorem pinned_worker_released:
  assumes "serve_pty parse opening pinned pid open_sent ins = (ended, acts)"
    and "first_open parse opening = Some (Some o1)"
  shows "(pinned \<and> ended \<longrightarrow> (\<exists>rest. acts = rest @ [ReleasePinned] \<and> ReleasePinned \<notin> set rest \<and>
      (ToWorker (Text (PtyClose pid)) \<in> set rest \<or> (\<exists>code msg. ToClient (OutClose code msg) \<in> set rest)))) \<and>
    (\<not> (pinned \<and> ended) \<longrightarrow> ReleasePinned \<notin> set acts)"
proof -
  obtain t as where d: "drive (\<lambda>s. s = Splicing) (splice_turn parse pid) ins Splicing = (t, as)" by fastforce
  note rel = splice_release [OF d]
  let ?open = "ToWorker (Text (PtyOpen (pty_open_of pid o1)))"
  consider "\<not> pinned" | "pinned" "\<not> open_sent" | "pinned" "open_sent" by blast
  then show ?thesis
  proof cases
    case 1
    with assms show ?thesis by (auto simp: serve_pty_def)
  next
    case 2
    with assms have "acts = [?open, ToClient (OutClose 1011 ''worker unreachable''), ReleasePinned]" "ended"
      by (auto simp: serve_pty_def)
    with 2 show ?thesis
      by (auto intro!: exI [of _ "[?open, ToClient (OutClose 1011 ''worker unreachable'')]"])
  next
    case 3
    then have a: "ended = (t \<noteq> Splicing)" "acts = ?open # as
        @ (if t = ClientLeft then [ToWorker (Text (PtyClose pid)), ReleasePinned] else [])"
      using assms d by (simp_all add: serve_pty_def)
    show ?thesis
    proof (cases t)
      case ClientLeft
      with 3 rel a show ?thesis
        by (auto intro!: exI [of _ "?open # as @ [ToWorker (Text (PtyClose pid))]"])
    next
      case ShellEnded
      with rel obtain rest code msg where "as = rest @ [ReleasePinned]" "ReleasePinned \<notin> set rest"
        "ToClient (OutClose code msg) \<in> set rest" by auto
      with 3 ShellEnded a show ?thesis by (auto intro!: exI [of _ "?open # rest"])
    next
      case Splicing
      with rel a show ?thesis by auto
    qed
  qed
qed

definition demo_params :: open_params where
  "demo_params = \<lparr>op_command = [], op_working_dir = ''/'', op_env = [], op_cols = 80, op_rows = 24, op_drop_to = None\<rparr>"

definition demo_control :: "string \<Rightarrow> client_control option" where
  "demo_control text = (if text = ''open'' then Some (ControlOpen demo_params) else None)"

theorem pinned_worker_released_witness:
  "\<exists>rest. snd (serve_pty demo_control [Some CPing, Some (CText ''open'')] True demo_c True
      [FromPool (Some (PtyOutput [36])) True, FromClient 1 CEnd True]) = rest @ [ReleasePinned] \<and> ReleasePinned \<notin> set rest"
proof -
  let ?r = "serve_pty demo_control [Some CPing, Some (CText ''open'')] True demo_c True
      [FromPool (Some (PtyOutput [36])) True, FromClient 1 CEnd True]"
  have f: "first_open demo_control [Some CPing, Some (CText ''open'')] = Some (Some demo_params)"
    by (simp add: demo_control_def)
  have "fst ?r" by (simp add: serve_pty_def demo_control_def splice_turn_def)
  with pinned_worker_released [OF prod.collapse [symmetric] f, of True demo_c True
      "[FromPool (Some (PtyOutput [36])) True, FromClient 1 CEnd True]"] show ?thesis by blast
qed

text \<open>The pool forwards every \<open>PtyExit\<close> of a worker to the terminal the worker is pinned to, without looking
  at its session id.  The wait for the exit gives up after five seconds, shorter than a reset may take,
  so the exit of one terminal can reach the next one pinned to the same worker, which then releases the
  worker although its own shell runs.\<close>

lemma stale_exit_ends_next_terminal:
  assumes "acquire_pinned 1 one_worker = (Some wk, p1)"
    and "acquire_pinned 2 (release_pinned wk p1) = (Some wk2, p2)"
  shows "we_id wk2 = we_id wk \<and>
    snd (snd (read_turn still_world (we_id wk) (Received (Text (PtyExit (ExecId ''old'') None None None))) p2))
      = [SendPty 2 (PtyExited None None None)] \<and>
    snd (splice_turn parse (ExecId ''new'') Splicing (FromPool (Some (PtyExited None None None)) True))
      = [ToClient (OutClose 1000 ''session ended''), ReleasePinned]"
proof -
  have "acquire_pinned 1 one_worker = (Some \<lparr>we_id = demo_w, we_profile = ''default'', we_sink = 7\<rparr>, snd (acquire_pinned 1 one_worker))"
    by (simp add: acquire_pinned_def one_worker_def pop_idle_def register_worker_def new_pool_def)
  then show ?thesis
    using assms by (auto simp: acquire_pinned_def one_worker_def pop_idle_def register_worker_def new_pool_def
      release_pinned_def Let_def read_turn_def touch_worker_def handle_frame_def splice_turn_def still_world_def)
qed

end
