(* ===== verification/WorkerShell.thy ===== *)
theory WorkerShell
  imports CaptureStore
begin

text \<open>
  The parts of \<open>shiitake-worker/src/client.rs\<close> that tie a stateful command to the session shell: the
  filter that finds a command's private completion marker in the shell's output
  (\<open>ShellCompletion\<close>), the line that is typed into the shell, and the parser of the state the shell
  leaves behind.
\<close>

section \<open>ShellCompletion\<close>

record shell_completion =
  marker :: bytes
  pending :: bytes
  seen :: bool

text \<open>\<open>windows(n).position(..)\<close>: the first index at which the marker occurs.\<close>

fun find_window :: "bytes \<Rightarrow> bytes \<Rightarrow> nat option" where
  "find_window m [] = None"
| "find_window m (x # xs) =
     (if take (length m) (x # xs) = m then Some 0 else map_option Suc (find_window m xs))"

definition ends_with :: "bytes \<Rightarrow> bytes \<Rightarrow> bool" where
  "ends_with xs ys \<longleftrightarrow> length ys \<le> length xs \<and> drop (length xs - length ys) xs = ys"

text \<open>\<open>(1..marker.len()).rev().find(..).unwrap_or(0)\<close>: the longest proper prefix of the marker at the end
  of the buffer.\<close>

definition keep_len :: "bytes \<Rightarrow> bytes \<Rightarrow> nat" where
  "keep_len m xs =
     (case find (\<lambda>n. ends_with xs (take n m)) (rev [1..<length m]) of None \<Rightarrow> 0 | Some n \<Rightarrow> n)"

definition feed :: "bytes \<Rightarrow> shell_completion \<Rightarrow> bytes \<times> shell_completion" where
  "feed bs c =
     (if seen c then (bs, c)
      else let buf = pending c @ bs
           in case find_window (marker c) buf of
             Some pos \<Rightarrow>
               (take pos buf @ drop (pos + length (marker c)) buf, c\<lparr>pending := [], seen := True\<rparr>)
           | None \<Rightarrow>
               let ready = length buf - keep_len (marker c) buf
               in (take ready buf, c\<lparr>pending := drop ready buf\<rparr>))"

text \<open>The reads of one command, in order: what is forwarded to the terminal, and the filter after
  them.\<close>

fun feed_all :: "bytes list \<Rightarrow> shell_completion \<Rightarrow> bytes \<times> shell_completion" where
  "feed_all [] c = ([], c)"
| "feed_all (b # bs) c =
     (let (out, c1) = feed b c; (outs, c2) = feed_all bs c1 in (out @ outs, c2))"

definition new_completion :: "bytes \<Rightarrow> shell_completion" where
  "new_completion m = \<lparr>marker = m, pending = [], seen = False\<rparr>"

text \<open>An occurrence of the marker, and what the filter should do to the whole output.\<close>

definition occurs :: "bytes \<Rightarrow> bytes \<Rightarrow> nat \<Rightarrow> bool" where
  "occurs m s i \<longleftrightarrow> i + length m \<le> length s \<and> take (length m) (drop i s) = m"

definition strip_marker :: "bytes \<Rightarrow> bytes \<Rightarrow> bytes" where
  "strip_marker m s = (case find_window m s of None \<Rightarrow> s
     | Some i \<Rightarrow> take i s @ drop (i + length m) s)"

lemma find_window_Some:
  "m \<noteq> [] \<Longrightarrow> find_window m s = Some i \<longleftrightarrow> occurs m s i \<and> (\<forall>j < i. \<not> occurs m s j)"
proof (induction s arbitrary: i)
  case Nil
  then show ?case by (auto simp: occurs_def)
next
  case (Cons x xs)
  have zero: "occurs m (x # xs) 0 \<longleftrightarrow> take (length m) (x # xs) = m"
    by (auto simp: occurs_def) (metis length_Cons length_take min.cobounded1)
  have suc: "occurs m (x # xs) (Suc j) \<longleftrightarrow> occurs m xs j" for j by (simp add: occurs_def)
  show ?case
  proof (cases "take (length m) (x # xs) = m")
    case True
    then show ?thesis using zero by (cases i) auto
  next
    case False
    with zero have no: "\<not> occurs m (x # xs) 0" by simp
    show ?thesis
    proof (cases i)
      case 0
      with False no show ?thesis by simp
    next
      case (Suc k)
      have "(\<forall>j < Suc k. \<not> occurs m (x # xs) j) \<longleftrightarrow> (\<forall>j < k. \<not> occurs m xs j)"
        using no by (auto simp: less_Suc_eq_0_disj suc)
      with False Suc Cons.IH [OF Cons.prems, of k] show ?thesis by (simp add: suc)
    qed
  qed
qed

lemma find_window_None:
  assumes m: "m \<noteq> []"
  shows "find_window m s = None \<longleftrightarrow> (\<forall>i. \<not> occurs m s i)"
proof (cases "\<exists>i. occurs m s i")
  case True
  then obtain i where "occurs m s i" by blast
  then have "occurs m s (LEAST i. occurs m s i)" by (rule LeastI)
  moreover have "\<forall>j < (LEAST i. occurs m s i). \<not> occurs m s j"
    by (intro allI impI) (rule not_less_Least)
  ultimately have "find_window m s = Some (LEAST i. occurs m s i)"
    using find_window_Some [OF m] by blast
  with True show ?thesis by simp
next
  case False
  then have "find_window m s = None"
    using find_window_Some [OF m, of s] by (cases "find_window m s") auto
  with False show ?thesis by simp
qed

text \<open>The search from the longest candidate down.\<close>

lemma find_down:
  "case find P (rev [1..<k]) of
     None \<Rightarrow> \<forall>n. 1 \<le> n \<and> n < k \<longrightarrow> \<not> P n
   | Some n \<Rightarrow> 1 \<le> n \<and> n < k \<and> P n \<and> (\<forall>j. n < j \<and> j < k \<longrightarrow> \<not> P j)"
proof (induction k)
  case 0
  then show ?case by simp
next
  case (Suc k)
  show ?case
  proof (cases "1 \<le> k")
    case True
    then have "rev [1..<Suc k] = k # rev [1..<k]" by simp
    with Suc True show ?thesis
      by (auto simp: less_Suc_eq split: option.splits)
  next
    case False
    then have "k = 0" by simp
    then show ?thesis by simp
  qed
qed

lemma keep_len_facts:
  assumes "m \<noteq> []"
  shows "keep_len m xs < length m" "ends_with xs (take (keep_len m xs) m)"
    "n < length m \<Longrightarrow> ends_with xs (take n m) \<Longrightarrow> n \<le> keep_len m xs"
proof -
  note f = find_down [where P = "\<lambda>n. ends_with xs (take n m)" and k = "length m"]
  show "keep_len m xs < length m" using f assms by (auto simp: keep_len_def split: option.splits)
  show "ends_with xs (take (keep_len m xs) m)"
    using f by (auto simp: keep_len_def ends_with_def split: option.splits)
  assume n: "n < length m" "ends_with xs (take n m)"
  show "n \<le> keep_len m xs"
  proof (cases "find (\<lambda>n. ends_with xs (take n m)) (rev [1..<length m])")
    case None
    with f n have "\<not> 1 \<le> n" by auto
    then show ?thesis by simp
  next
    case (Some j)
    with f n have "\<not> j < n" by auto
    with Some show ?thesis by (simp add: keep_len_def)
  qed
qed

lemma keep_len_le: "m \<noteq> [] \<Longrightarrow> keep_len m xs \<le> length xs"
  using keep_len_facts(1,2) [of m xs] by (simp add: ends_with_def)

lemma occurs_append: "occurs m s i \<Longrightarrow> occurs m (s @ t) i"
  by (simp add: occurs_def)

lemma occurs_shift: "occurs m (p @ s) (length p + i) \<longleftrightarrow> occurs m s i"
  by (simp add: occurs_def)

text \<open>What the filter has done after the output \<open>s\<close>: it forwarded \<open>out\<close>.  While the marker has not
  appeared, \<open>out\<close> is \<open>s\<close> up to the withheld bytes, and no marker of any continuation starts before
  them.\<close>

definition filtered :: "bytes \<Rightarrow> bytes \<Rightarrow> bytes \<Rightarrow> shell_completion \<Rightarrow> bool" where
  "filtered m s out c \<longleftrightarrow> marker c = m \<and>
     (if seen c then (\<exists>i. find_window m s = Some i \<and> pending c = [] \<and>
           out = take i s @ drop (i + length m) s)
      else out @ pending c = s \<and> (\<forall>i. \<not> occurs m s i) \<and>
        (\<forall>t i. occurs m (s @ t) i \<longrightarrow> length out \<le> i))"

lemma filtered_new: "m \<noteq> [] \<Longrightarrow> filtered m [] [] (new_completion m)"
  by (simp add: filtered_def new_completion_def occurs_def)

text \<open>A marker that starts in \<open>s\<close> and ends beyond it starts with a withheld suffix.\<close>

lemma partial_occurrence:
  assumes "occurs m (s @ t) i" "\<not> occurs m s i" "i < length s"
  shows "length s - i < length m" "ends_with s (take (length s - i) m)"
proof -
  have "take (length m) (drop i s @ t) = m" using assms(1,3) by (simp add: occurs_def)
  moreover have lt: "length s - i < length m"
  proof (rule ccontr)
    assume "\<not> length s - i < length m"
    then have "i + length m \<le> length s" using assms(3) by simp
    moreover have "take (length m) (drop i s) = m" using assms(1) calculation by (simp add: occurs_def)
    ultimately show False using assms(2) by (simp add: occurs_def)
  qed
  ultimately have "drop i s @ take (length m - (length s - i)) t = m" by simp
  then have "take (length s - i) m = drop i s" by (metis append_eq_conv_conj length_drop)
  with assms(3) show "ends_with s (take (length s - i) m)" by (simp add: ends_with_def)
  show "length s - i < length m" by (rule lt)
qed

lemma filtered_feed:
  assumes m: "m \<noteq> []" and f: "filtered m s out c" and fd: "feed b c = (o1, c1)"
  shows "filtered m (s @ b) (out @ o1) c1"
proof (cases "seen c")
  case True
  with f obtain i where i: "find_window m s = Some i" "pending c = []" "marker c = m"
    "out = take i s @ drop (i + length m) s" by (auto simp: filtered_def)
  with m have oc: "occurs m s i" "\<forall>j < i. \<not> occurs m s j" by (simp_all add: find_window_Some)
  have le: "i + length m \<le> length s" using oc(1) by (simp add: occurs_def)
  have "\<not> occurs m (s @ b) j" if "j < i" for j
  proof
    assume "occurs m (s @ b) j"
    moreover have "j + length m \<le> length s" using that le by simp
    ultimately have "occurs m s j" by (simp add: occurs_def)
    with oc(2) that show False by blast
  qed
  with oc(1) have "find_window m (s @ b) = Some i"
    using m by (simp add: find_window_Some occurs_append)
  moreover have "o1 = b" "c1 = c" using fd True by (simp_all add: feed_def)
  ultimately show ?thesis using True i le by (simp add: filtered_def)
next
  case False
  with f have mk: "marker c = m" and s: "out @ pending c = s" and no: "\<And>i. \<not> occurs m s i"
    and early: "\<And>t i. occurs m (s @ t) i \<Longrightarrow> length out \<le> i" by (auto simp: filtered_def)
  let ?buf = "pending c @ b"
  have sb: "s @ b = out @ ?buf" using s by simp
  have here: "occurs m (s @ b) i \<longleftrightarrow> length out \<le> i \<and> occurs m ?buf (i - length out)" for i
    using early [of b i] occurs_shift [of m out ?buf "i - length out"] by (auto simp: sb)
  show ?thesis
  proof (cases "find_window m ?buf")
    case (Some pos)
    with m have p: "occurs m ?buf pos" "\<forall>j < pos. \<not> occurs m ?buf j" by (simp_all add: find_window_Some)
    have "occurs m (s @ b) (length out + pos)" using here [of "length out + pos"] p(1) by simp
    moreover have "\<not> occurs m (s @ b) j" if "j < length out + pos" for j
      using here [of j] p(2) that by auto
    ultimately have "find_window m (s @ b) = Some (length out + pos)"
      using m by (simp add: find_window_Some)
    moreover have "out @ o1 = take (length out + pos) (s @ b) @ drop (length out + pos + length m) (s @ b)"
      using fd False Some mk by (auto simp: feed_def sb Let_def)
    moreover have "c1 = c\<lparr>pending := [], seen := True\<rparr>"
      using fd False Some mk by (auto simp: feed_def Let_def)
    ultimately show ?thesis using mk by (simp add: filtered_def)
  next
    case None
    let ?k = "keep_len m ?buf"
    let ?r = "length ?buf - ?k"
    from None m have nob: "\<And>i. \<not> occurs m ?buf i" by (simp add: find_window_None)
    have nos: "\<not> occurs m (s @ b) i" for i using here nob by blast
    have k: "?k \<le> length ?buf" using m by (rule keep_len_le)
    have c1: "o1 = take ?r ?buf" "c1 = c\<lparr>pending := drop ?r ?buf\<rparr>"
      using fd False None mk by (auto simp: feed_def Let_def)
    have "length (out @ o1) \<le> i" if oc: "occurs m ((s @ b) @ t) i" for t i
    proof (cases "i < length (s @ b)")
      case True
      note part = partial_occurrence [OF oc nos True]
      let ?n = "length (s @ b) - i"
      have i: "length out \<le> i" using early [of "b @ t" i] oc by simp
      then have n: "?n \<le> length ?buf" by (simp add: sb)
      have "drop (length (s @ b) - ?n) (s @ b) = take ?n m"
        using part by (simp add: ends_with_def)
      then have "drop (length ?buf - ?n) ?buf = take ?n m" using n i by (simp add: sb)
      then have "ends_with ?buf (take ?n m)" using part(1) n by (simp add: ends_with_def)
      then have "?n \<le> ?k" by (rule keep_len_facts(3) [OF m part(1)])
      then show ?thesis using k c1(1) by (simp add: sb)
    next
      case False
      have "length (out @ o1) \<le> length (s @ b)" using c1(1) by (simp add: sb)
      with False show ?thesis by simp
    qed
    moreover have "(out @ o1) @ pending c1 = s @ b"
      unfolding c1 sb by (simp del: take_append drop_append)
    moreover have "marker c1 = m" "\<not> seen c1" using c1(2) mk False by simp_all
    ultimately show ?thesis using nos by (simp add: filtered_def)
  qed
qed

lemma filtered_feed_all:
  assumes "m \<noteq> []"
  shows "filtered m s out c \<Longrightarrow> feed_all bs c = (outs, c') \<Longrightarrow>
    filtered m (s @ concat bs) (out @ outs) c'"
proof (induction bs arbitrary: s out c outs c')
  case Nil
  then show ?case by simp
next
  case (Cons b bs s out c outs c')
  obtain o1 c1 where b: "feed b c = (o1, c1)" by fastforce
  obtain o2 c2 where bs: "feed_all bs c1 = (o2, c2)" by fastforce
  have "filtered m ((s @ b) @ concat bs) ((out @ o1) @ o2) c2"
    by (rule Cons.IH [OF filtered_feed [OF assms Cons.prems(1) b] bs])
  with Cons.prems(2) b bs show ?case by simp
qed

text \<open>
  C18: The completion filter does not depend on how the shell's output is cut into reads: for every
  chunking, it reports completion exactly when the marker occurs in the whole output, and then it has
  forwarded all of the output except the first marker; before that it has forwarded everything up to a
  withheld tail that is a proper prefix of the marker.
\<close>

theorem completion_filter_chunking:
  assumes "m \<noteq> []" and "feed_all bs (new_completion m) = (out, c)"
  shows "(seen c \<longleftrightarrow> find_window m (concat bs) \<noteq> None) \<and>
    out @ pending c = strip_marker m (concat bs) \<and>
    (\<exists>n < length m. pending c = take n m)"
proof -
  have f: "filtered m (concat bs) out c"
    using filtered_feed_all [OF assms(1) filtered_new [OF assms(1)] assms(2)] by simp
  have tail: "\<exists>n < length m. pending c = take n m"
    using assms(2)
  proof (induction bs arbitrary: out c rule: rev_induct)
    case Nil
    then show ?case using assms(1) by (auto simp: new_completion_def intro: exI [of _ 0])
  next
    case (snoc b bs)
    have split: "feed_all (bs @ [b]) d = (let (o1, c1) = feed_all bs d; (o2, c2) = feed b c1 in (o1 @ o2, c2))"
      for d
      by (induction bs arbitrary: d) (auto simp: case_prod_unfold Let_def)
    obtain o1 c1 where p: "feed_all bs (new_completion m) = (o1, c1)" by fastforce
    obtain o2 c2 where q: "feed b c1 = (o2, c2)" by fastforce
    have c: "c = c2" using snoc.prems split p q by simp
    have mk: "marker c1 = m"
      using filtered_feed_all [OF assms(1) filtered_new [OF assms(1)] p] by (simp add: filtered_def)
    show ?case
    proof (cases "seen c1")
      case True
      with snoc.IH [OF p] q c show ?thesis by (simp add: feed_def)
    next
      case False
      show ?thesis
      proof (cases "find_window m (pending c1 @ b)")
        case (Some pos)
        with False q mk c assms(1) show ?thesis
          by (auto simp: feed_def Let_def intro: exI [of _ 0])
      next
        case None
        let ?buf = "pending c1 @ b"
        have "pending c = drop (length ?buf - keep_len m ?buf) ?buf"
          using False None q mk c by (auto simp: feed_def Let_def)
        also have "\<dots> = take (keep_len m ?buf) m"
          using keep_len_facts(1,2) [OF assms(1), of ?buf] by (simp add: ends_with_def)
        finally show ?thesis using keep_len_facts(1) [OF assms(1)] by blast
      qed
    qed
  qed
  show ?thesis
  proof (cases "seen c")
    case True
    with f obtain i where "find_window m (concat bs) = Some i" "pending c = []"
      "out = take i (concat bs) @ drop (i + length m) (concat bs)" by (auto simp: filtered_def)
    with True tail show ?thesis by (simp add: strip_marker_def)
  next
    case False
    with f assms(1) have "find_window m (concat bs) = None" "out @ pending c = concat bs"
      by (auto simp: filtered_def find_window_None)
    with False tail show ?thesis by (simp add: strip_marker_def)
  qed
qed

theorem completion_filter_chunking_witness:
  "feed_all [[1, 27], [93, 7], [2]] (new_completion [27, 93, 7]) = ([1, 2], \<lparr>marker = [27, 93, 7],
     pending = [], seen = True\<rparr>) \<and> strip_marker [27, 93, 7] [1, 27, 93, 7, 2] = [1, 2]"
proof -
  have e: "feed_all [[1, 27], [93, 7], [2]] (new_completion [27, 93, 7])
      = ([1, 2], \<lparr>marker = [27, 93, 7], pending = [], seen = True\<rparr>)"
    by code_simp
  have "([27, 93, 7] :: bytes) \<noteq> []" by simp
  from completion_filter_chunking [OF this e] e show ?thesis by simp
qed


section \<open>The line typed into the shell\<close>

text \<open>\<open>shell_quote\<close>: single quotes around the path, each single quote of it written as
  quote, backslash, quote, quote.\<close>

definition shell_quote :: "string \<Rightarrow> string" where
  "shell_quote s = [CHR 0x27]
     @ concat (map (\<lambda>c. if c = CHR 0x27 then [CHR 0x27, CHR 0x5C, CHR 0x27, CHR 0x27] else [c]) s)
     @ [CHR 0x27]"

text \<open>How a POSIX shell reads one word made of single-quoted parts and backslash escapes: \<open>None\<close> when
  a quote is left open or an unquoted character would be interpreted.\<close>

fun shell_word :: "bool \<Rightarrow> string \<Rightarrow> string option" where
  "shell_word True [] = None"
| "shell_word True (c # cs) =
     (if c = CHR 0x27 then shell_word False cs else map_option (Cons c) (shell_word True cs))"
| "shell_word False [] = Some []"
| "shell_word False (c # cs) =
     (if c = CHR 0x27 then shell_word True cs
      else if c = CHR 0x5C then (case cs of d # ds \<Rightarrow> map_option (Cons d) (shell_word False ds) | [] \<Rightarrow> None)
      else None)"

text \<open>
  A quoted path is one inert word: whatever characters the path has, the shell reads its quoted form
  as exactly the path, with no quote left open and nothing interpreted.
\<close>

theorem shell_quote_is_literal: "shell_word False (shell_quote s) = Some s"
proof -
  have "shell_word True (concat (map (\<lambda>c. if c = CHR 0x27
      then [CHR 0x27, CHR 0x5C, CHR 0x27, CHR 0x27] else [c]) s) @ [CHR 0x27]) = Some s"
    by (induction s) simp_all
  then show ?thesis by (simp add: shell_quote_def)
qed

text \<open>The files of a stateful command, all in its capture directory.\<close>

record job_paths =
  jp_cwd :: string
  jp_env :: string
  jp_status :: string
  jp_script :: string
  jp_stdout :: string
  jp_stderr :: string

definition completion_marker :: "string \<Rightarrow> bytes" where
  "completion_marker nonce = as_bytes ([CHR 0x1B] @ '']shiitake-complete:'' @ nonce @ [CHR 0x07])"

definition stateful_line :: "job_paths \<Rightarrow> string \<Rightarrow> string" where
  \<open>stateful_line j nonce =
     ''__shiitake_finish() { printf '%s' "$PWD" > '' @ shell_quote (jp_cwd j)
     @ ''; while IFS= read -r __shiitake_name; do printf '%s=%s'' @ [CHR 0x5C, CHR ''0'', CHR 0x27]
     @ '' "$__shiitake_name" "${!__shiitake_name}"; done < <(compgen -e) > '' @ shell_quote (jp_env j)
     @ ''; printf '%s' "$1" > '' @ shell_quote (jp_status j)
     @ ''; }; __shiitake_interrupted=0; trap '__shiitake_interrupted=1; return 130' INT; source ''
     @ shell_quote (jp_script j) @ '' > '' @ shell_quote (jp_stdout j) @ '' 2> ''
     @ shell_quote (jp_stderr j)
     @ ''; __shiitake_rc=$?; trap - INT; if [[ "$__shiitake_interrupted" == 1 ]]; then __shiitake_rc=130; fi; __shiitake_finish "$__shiitake_rc"; printf ''
     @ [CHR 0x27, CHR 0x5C] @ ''033]shiitake-complete:'' @ nonce
     @ [CHR 0x5C] @ ''007'' @ [CHR 0x27, CHR 0x0A]\<close>

lemma byte_of_char_eq: "(word_of_nat (of_char c) :: byte) = b \<longleftrightarrow> c = char_of (unat b)"
proof
  assume b: "(word_of_nat (of_char c) :: byte) = b"
  have "[c] = of_bytes [word_of_nat (of_char c)]"
    using of_bytes_as_bytes [of "[c]"] by (simp only: as_bytes_def list.map)
  then show "c = char_of (unat b)" unfolding b by (simp only: of_bytes_def list.map list.inject)
next
  assume "c = char_of (unat b)"
  then show "(word_of_nat (of_char c) :: byte) = b"
    using as_bytes_of_bytes [of "[b]"] by (simp add: as_bytes_def of_bytes_def)
qed

lemma in_as_bytes: "b \<in> set (as_bytes s) \<longleftrightarrow> char_of (unat b) \<in> set s"
  unfolding as_bytes_def set_map image_iff using byte_of_char_eq by metis

lemma nul_as_bytes: "0 \<in> set (as_bytes s) \<longleftrightarrow> CHR 0x00 \<in> set s"
  by (simp add: in_as_bytes char_of_def)

lemma esc_as_bytes: "27 \<in> set (as_bytes s) \<longleftrightarrow> CHR 0x1B \<in> set s"
  by (simp add: in_as_bytes char_of_def bit_0)

lemma set_shell_quote: "set (shell_quote s) \<subseteq> set s \<union> {CHR 0x27, CHR 0x5C}"
  by (auto simp: shell_quote_def split: if_splits)

text \<open>
  Typing a command does not complete it: when no path and no nonce contains an escape character,
  the line typed into the shell does not contain the command's completion marker, so a shell that echoes
  the line cannot make the worker believe that the command has finished.
\<close>

theorem typed_line_has_no_marker:
  assumes "CHR 0x1B \<notin> set (jp_cwd j @ jp_env j @ jp_status j @ jp_script j @ jp_stdout j @ jp_stderr j @ nonce)"
  shows "find_window (completion_marker nonce) (as_bytes (stateful_line j nonce)) = None"
proof -
  have q: "CHR 0x1B \<notin> set (shell_quote p)" if "CHR 0x1B \<notin> set p" for p
    using that set_shell_quote [of p] by auto
  have "CHR 0x1B \<notin> set (stateful_line j nonce)"
    using assms unfolding stateful_line_def set_append Un_iff de_Morgan_disj
    by (intro conjI q) (simp_all (no_asm_simp))
  then have clean: "27 \<notin> set (as_bytes (stateful_line j nonce))" by (simp only: esc_as_bytes) simp
  have head: "completion_marker nonce = 27 # tl (completion_marker nonce)"
    by (simp add: completion_marker_def as_bytes_def)
  have mem: "27 \<in> set s" if "occurs (completion_marker nonce) s i" for s i
  proof -
    have "completion_marker nonce = take (length (completion_marker nonce)) (drop i s)"
      using that by (simp add: occurs_def)
    then have "set (completion_marker nonce) \<subseteq> set s"
      by (metis order_trans set_drop_subset set_take_subset)
    moreover have "27 \<in> set (completion_marker nonce)" by (subst head) simp
    ultimately show ?thesis by blast
  qed
  have "completion_marker nonce \<noteq> []" by (subst head) simp
  then show ?thesis using clean mem by (simp add: find_window_None) blast
qed

definition demo_paths :: job_paths where
  "demo_paths = \<lparr>jp_cwd = ''/c/cwd'', jp_env = ''/c/env'', jp_status = ''/c/status'',
     jp_script = ''/c/s'', jp_stdout = ''/c/o'', jp_stderr = ''/c/e''\<rparr>"

theorem typed_line_has_no_marker_witness:
  "find_window (completion_marker ''n'') (as_bytes (stateful_line demo_paths ''n'')) = None"
  by (rule typed_line_has_no_marker) (simp add: demo_paths_def)

section \<open>The state the shell leaves\<close>

text \<open>\<open>split(|b| *b == 0)\<close>.\<close>

fun split_nul :: "bytes \<Rightarrow> bytes list" where
  "split_nul [] = [[]]"
| "split_nul (b # bs) =
     (if b = 0 then [] # split_nul bs
      else (case split_nul bs of p # ps \<Rightarrow> (b # p) # ps | [] \<Rightarrow> [[b]]))"

text \<open>\<open>split_once('=')\<close>.\<close>

fun split_once_eq :: "string \<Rightarrow> (string \<times> string) option" where
  "split_once_eq [] = None"
| "split_once_eq (c # cs) =
     (if c = CHR ''='' then Some ([], cs)
      else map_option (\<lambda>(k, v). (c # k, v)) (split_once_eq cs))"

fun parse_entries :: "bytes list \<Rightarrow> env_map \<Rightarrow> string + env_map" where
  "parse_entries [] vars = Inr vars"
| "parse_entries (p # ps) vars =
     (if p = [] then parse_entries ps vars
      else case from_utf8 p of
        None \<Rightarrow> Inl ''invalid utf-8''
      | Some text \<Rightarrow>
          parse_entries ps (case split_once_eq text of None \<Rightarrow> vars | Some (k, v) \<Rightarrow> hput k v vars))"

text \<open>\<open>read_shell_state\<close> after its two file reads.\<close>

definition read_shell_state :: "string + string \<Rightarrow> string + bytes \<Rightarrow> string + (string \<times> env_map)" where
  "read_shell_state cwd_file env_file =
     (case cwd_file of
       Inl e \<Rightarrow> Inl e
     | Inr cwd \<Rightarrow>
         (case env_file of
           Inl e \<Rightarrow> Inl e
         | Inr bs \<Rightarrow> (case parse_entries (split_nul bs) [] of
             Inl e \<Rightarrow> Inl e | Inr vars \<Rightarrow> Inr (cwd, vars))))"

text \<open>What the shell's loop writes: \<open>printf '%s=%s\0'\<close> for every exported name.\<close>

definition env_snapshot :: "env_map \<Rightarrow> bytes" where
  "env_snapshot vars = concat (map (\<lambda>(k, v). as_bytes (k @ [CHR ''=''] @ v) @ [0]) vars)"

definition snapshot_ok :: "string \<times> string \<Rightarrow> bool" where
  "snapshot_ok kv = (case kv of (k, v) \<Rightarrow> CHR ''='' \<notin> set k \<and> CHR 0x00 \<notin> set k \<and> CHR 0x00 \<notin> set v
     \<and> rust_string (k @ [CHR ''=''] @ v))"

lemma split_nul_append: "0 \<notin> set p \<Longrightarrow> split_nul (p @ 0 # bs) = p # split_nul bs"
  by (induction p) auto

lemma split_once_append: "CHR ''='' \<notin> set k \<Longrightarrow> split_once_eq (k @ CHR ''='' # v) = Some (k, v)"
  by (induction k) auto

lemma parse_snapshot:
  "list_all snapshot_ok vars \<Longrightarrow> parse_entries (split_nul (env_snapshot vars)) m =
     Inr (fold (\<lambda>(k, v). hput k v) vars m)"
proof (induction vars arbitrary: m)
  case Nil
  then show ?case by (simp add: env_snapshot_def)
next
  case (Cons kv vars)
  obtain k v where kv: "kv = (k, v)" by (cases kv)
  let ?t = "k @ [CHR ''=''] @ v"
  have ok: "CHR ''='' \<notin> set k" "0 \<notin> set (as_bytes ?t)" "rust_string ?t"
    using Cons.prems by (auto simp: kv snapshot_ok_def nul_as_bytes)
  have "env_snapshot (kv # vars) = as_bytes ?t @ 0 # env_snapshot vars"
    by (simp add: env_snapshot_def kv)
  then have "split_nul (env_snapshot (kv # vars)) = as_bytes ?t # split_nul (env_snapshot vars)"
    using split_nul_append [OF ok(2)] by simp
  moreover have "as_bytes ?t \<noteq> []" by (simp add: as_bytes_def)
  ultimately show ?case
    using Cons split_once_append [OF ok(1)] by (simp add: kv from_utf8_as_bytes [OF ok(3), simplified])
qed

text \<open>
  C38: The environment survives a stateful command: when every exported variable is a Unicode string (a name without an
  equals sign, no NUL), the snapshot the shell writes of them, read back by the worker, gives each of them its value
  and no other variable; equals signs and newlines in the values are kept.
\<close>

theorem env_snapshot_round_trip:
  assumes "hwf vars" and "list_all snapshot_ok vars"
  shows "\<exists>vars'. read_shell_state (Inr cwd) (Inr (env_snapshot vars)) = Inr (cwd, vars') \<and>
    (\<forall>k. hget vars' k = hget vars k)"
proof -
  have "hget (fold (\<lambda>(k, v). hput k v) e m) x = (case hget e x of None \<Rightarrow> hget m x | Some v \<Rightarrow> Some v)"
    if "hwf e" for e m :: env_map and x
    using that
  proof (induction e arbitrary: m)
    case Nil
    then show ?case by simp
  next
    case (Cons kv e)
    obtain k v where kv: "kv = (k, v)" by (cases kv)
    have "hwf e" "hget e k = None"
      using Cons.prems by (auto simp: kv hwf_def hget_def map_of_eq_None_iff)
    with Cons.IH [of "hput k v m"] show ?case by (simp add: kv hget_Cons split: option.split)
  qed
  with assms show ?thesis
    by (simp add: read_shell_state_def parse_snapshot split: option.split)
qed

text \<open>One value that is not UTF-8 makes the reading fail altogether, and the session with it.\<close>

lemma non_utf8_value_fails:
  "read_shell_state (Inr ''/w'') (Inr (env_snapshot [(''A'', ''1'')] @ [0x42, 0x3D, 0xFF, 0])) = Inl ''invalid utf-8''"
  by code_simp

theorem env_snapshot_round_trip_witness:
  "\<exists>vars'. read_shell_state (Inr ''/w'') (Inr (env_snapshot [(''A'', ''x=y''), (''B'', [])])) = Inr (''/w'', vars')
     \<and> hget vars' ''A'' = Some ''x=y''"
proof -
  have "hwf [(''A'', ''x=y''), (''B'', [])]" by (simp add: hwf_def)
  moreover have "list_all snapshot_ok [(''A'', ''x=y''), (''B'', [])]"
    by (simp add: snapshot_ok_def rust_string_def as_bytes_def)
  ultimately show ?thesis
    using env_snapshot_round_trip [of "[(''A'', ''x=y''), (''B'', [])]" "''/w''"]
    by (auto simp: hget_def)
qed

end
