(* ===== verification/WorkerSession.thy ===== *)
theory WorkerSession
  imports WorkerShell RustText Traces
begin

text \<open>
  The session host of \<open>shiitake-worker/src/client.rs\<close>: \<open>run_session\<close> schedules the jobs of one session
  beside its shell, and \<open>watch_stateful_job\<close> decides when a stateful job is over.  One turn of the
  \<open>select!\<close> loop is one function from the loop's variables and one input to the variables after it and
  the effects it attempted, in order.  What the outside answers_for during a turn (whether a send succeeds,
  what the file operations of a stateful setup or of \<open>read_shell_state\<close> give) is an argument.
\<close>

section \<open>State, inputs and effects\<close>

datatype session_event =
    EvOutput exec_id output_stream bytes
  | EvResult result_frame
  | EvInterrupt
  | EvAbort exec_id

text \<open>The branches of the \<open>select!\<close>: a read of the pseudo terminal (\<open>None\<close> for an error), an event of a
  job task, the lapse of the lease, a message of the dispatch socket (\<open>None\<close> for its end or an
  error).\<close>

datatype session_input =
    PtyRead "bytes option"
  | JobEvent session_event
  | LeaseLapsed
  | Socket "message option"

datatype session_action =
    SendFrame frame
  | SendBinary "bytes"
  | SendPong "bytes"
  | PtyWrite "bytes"
  | PtyResized "16 word" "16 word"
  | PtyShutdown
  | StartJob execute_frame
  | WatchStateful execute_frame
  | ReadState exec_id string env_map
  | PurgeCapture exec_id
  | CancelJob exec_id

text \<open>The outside during one turn: does a send on the socket succeed; the typed line and marker of a
  prepared stateful job or the error of its setup; the error of writing that line; the files of
  \<open>read_shell_state\<close>.\<close>

record session_world =
  w_sink :: bool
  w_prepare :: "execute_frame \<Rightarrow> string + string \<times> bytes"
  w_type_error :: "string option"
  w_cwd_file :: "string + string"
  w_env_file :: "string + bytes"

datatype loop_state = Serving | Left | Panicked

record host_state =
  ws_id :: session_id
  ws_drop_to :: "drop_to option"
  ws_running :: "(exec_id, bool) hmap"
  ws_queued :: "(execute_frame \<times> command_mode) list"
  ws_stateful :: "exec_id option"
  ws_completion :: "shell_completion option"
  ws_workdir :: string
  ws_vars :: env_map
  ws_close_error :: "string option"
  ws_lost :: bool
  ws_loop :: loop_state

text \<open>The cap of both guards of the loop.\<close>

definition session_jobs :: nat where
  "session_jobs = 32"

section \<open>Starting jobs\<close>

text \<open>What the loop puts into a queued frame before it starts it.\<close>

definition with_shell_state :: "host_state \<Rightarrow> execute_frame \<Rightarrow> execute_frame" where
  "with_shell_state s e = e\<lparr>working_dir := ws_workdir s, env := ws_vars s, exec_drop_to := ws_drop_to s\<rparr>"

text \<open>The inner \<open>while\<close>: the argument is the queue that is left.\<close>

fun start_queue :: "session_world \<Rightarrow> (execute_frame \<times> command_mode) list \<Rightarrow> host_state \<Rightarrow>
    host_state \<times> session_action list" where
  "start_queue w [] s = (s\<lparr>ws_queued := []\<rparr>, [])"
| "start_queue w ((e, m) # q) s =
     (if ws_stateful s \<noteq> None \<or> session_jobs \<le> length (ws_running s)
      then (s\<lparr>ws_queued := (e, m) # q\<rparr>, [])
      else
        let rid = request_id e; e1 = with_shell_state s e
        in if m = Stateful then
             (case w_prepare w e1 of
               Inr (line, mk) \<Rightarrow>
                 (case w_type_error w of
                   Some err \<Rightarrow>
                     (s\<lparr>ws_queued := q,
                        ws_close_error := Some (''could not submit shell command: '' @ err)\<rparr>,
                      [PtyWrite (as_bytes line)])
                 | None \<Rightarrow>
                     (s\<lparr>ws_queued := q, ws_completion := Some (new_completion mk),
                        ws_stateful := Some rid, ws_running := hput rid False (ws_running s)\<rparr>,
                      [PtyWrite (as_bytes line), WatchStateful e1]))
             | Inl err \<Rightarrow>
                 (s\<lparr>ws_queued := q\<rparr>,
                  [PurgeCapture rid, SendFrame (Result (errored rid (''stateful command setup: '' @ err)))]))
           else
             (let (s1, acts) = start_queue w q (s\<lparr>ws_running := hput rid False (ws_running s)\<rparr>)
              in (s1, StartJob e1 # acts)))"

definition start_jobs :: "session_world \<Rightarrow> host_state \<Rightarrow> host_state \<times> session_action list" where
  "start_jobs w s = start_queue w (ws_queued s) s"

section \<open>The branches of the loop\<close>

definition lose :: "host_state \<Rightarrow> host_state" where
  "lose s = s\<lparr>ws_lost := True, ws_loop := Left\<rparr>"

text \<open>\<open>chunk.encode()\<close> panics when the id does not fit its length field.\<close>

definition send_chunk :: "session_world \<Rightarrow> output_stream \<Rightarrow> string \<Rightarrow> bytes \<Rightarrow> host_state \<Rightarrow>
    host_state \<times> session_action list" where
  "send_chunk w which i bs s =
     (case encode \<lparr>chunk_stream = which, chunk_id = i, chunk_bytes = bs\<rparr> of
       None \<Rightarrow> (s\<lparr>ws_loop := Panicked\<rparr>, [])
     | Some data \<Rightarrow> (if w_sink w then s else lose s, [SendBinary data]))"

definition on_pty :: "session_world \<Rightarrow> bytes option \<Rightarrow> host_state \<Rightarrow>
    host_state \<times> session_action list" where
  "on_pty w r s =
     (case r of
       None \<Rightarrow> (s\<lparr>ws_loop := Left\<rparr>, [])
     | Some bs \<Rightarrow>
         if bs = [] then (s\<lparr>ws_loop := Left\<rparr>, [])
         else
           let (out, comp) = (case ws_completion s of
                 None \<Rightarrow> (bs, None)
               | Some c \<Rightarrow> (case feed bs c of (out, c1) \<Rightarrow> (out, Some c1)));
               s1 = s\<lparr>ws_completion := comp\<rparr>
           in if out = [] then (s1, []) else send_chunk w Terminal (sid_str (ws_id s)) out s1)"

definition report :: "session_world \<Rightarrow> result_frame \<Rightarrow> host_state \<Rightarrow>
    host_state \<times> session_action list" where
  "report w r s =
     (let s1 = s\<lparr>ws_running := hdel (res_request_id r) (ws_running s)\<rparr>
      in (if w_sink w then s1 else lose s1, [SendFrame (Result r)]))"

definition on_result :: "session_world \<Rightarrow> result_frame \<Rightarrow> host_state \<Rightarrow>
    host_state \<times> session_action list" where
  "on_result w r s =
     (if ws_stateful s = Some (res_request_id r) then
        (case read_shell_state (w_cwd_file w) (w_env_file w) of
          Inr (cwd, vars) \<Rightarrow>
            (let s1 = s\<lparr>ws_workdir := cwd, ws_vars := vars, ws_stateful := None, ws_completion := None\<rparr>;
                 (s2, acts) = report w r s1
             in (s2, ReadState (res_request_id r) cwd vars # PurgeCapture (res_request_id r) # acts))
        | Inl err \<Rightarrow>
            (let e = ''could not read completed shell state: '' @ err
             in (s\<lparr>ws_close_error := Some e, ws_loop := Left\<rparr>,
                 [SendFrame (Result (r\<lparr>res_error := Some e\<rparr>))])))
      else report w r s)"

definition abort_message :: string where
  "abort_message = ''stateful command did not stop''"

definition aborted :: "exec_id \<Rightarrow> result_frame" where
  "aborted rid = \<lparr>res_request_id = rid, res_exit_code = None, res_exit_signal = None,
     res_cancelled = True, res_usage = default_usage, res_error = Some abort_message\<rparr>"

definition on_event :: "session_world \<Rightarrow> session_event \<Rightarrow> host_state \<Rightarrow>
    host_state \<times> session_action list" where
  "on_event w ev s =
     (case ev of
       EvOutput rid which bs \<Rightarrow> send_chunk w which (eid_str rid) bs s
     | EvResult r \<Rightarrow> on_result w r s
     | EvInterrupt \<Rightarrow> (s, [PtyWrite [3]])
     | EvAbort rid \<Rightarrow>
         (s\<lparr>ws_close_error := Some abort_message, ws_loop := Left\<rparr>, [SendFrame (Result (aborted rid))]))"

definition queued_ids :: "host_state \<Rightarrow> exec_id list" where
  "queued_ids s = map (request_id \<circ> fst) (ws_queued s)"

definition on_session_run :: "execute_frame \<Rightarrow> command_mode \<Rightarrow> host_state \<Rightarrow>
    host_state \<times> session_action list" where
  "on_session_run e m s =
     (let rid = request_id e
      in if hhas (ws_running s) rid \<or> rid \<in> set (queued_ids s)
            \<or> session_jobs \<le> length (ws_running s) + length (ws_queued s)
         then (s, [SendFrame (Result (errored rid ''duplicate job or session concurrency limit reached''))])
         else (s\<lparr>ws_queued := ws_queued s @ [(e, m)]\<rparr>, []))"

definition on_cancel :: "exec_id \<Rightarrow> host_state \<Rightarrow> host_state \<times> session_action list" where
  "on_cancel rid s =
     (if hhas (ws_running s) rid
      then (s\<lparr>ws_running := hput rid True (ws_running s)\<rparr>, [CancelJob rid])
      else case take_first (\<lambda>(e, m). request_id e = rid) (ws_queued s) of
        Some (x, q) \<Rightarrow>
          (s\<lparr>ws_queued := q\<rparr>,
           [SendFrame (Result ((errored rid ''cancelled before start'')\<lparr>res_cancelled := True\<rparr>))])
      | None \<Rightarrow> (s, []))"

definition on_frame :: "frame \<Rightarrow> host_state \<Rightarrow> host_state \<times> session_action list" where
  "on_frame f s =
     (case f of
       SessionRun sid e m \<Rightarrow> if sid = ws_id s then on_session_run e m s else (s, [])
     | Cancel rid \<Rightarrow> on_cancel rid s
     | SessionResize sid cols rows \<Rightarrow> (s, if sid = ws_id s then [PtyResized cols rows] else [])
     | SessionClose sid \<Rightarrow> (if sid = ws_id s then s\<lparr>ws_loop := Left\<rparr> else s, [])
     | _ \<Rightarrow> (s, []))"

definition on_socket :: "session_world \<Rightarrow> message option \<Rightarrow> host_state \<Rightarrow>
    host_state \<times> session_action list" where
  "on_socket w m s =
     (case m of
       None \<Rightarrow> (lose s, [])
     | Some Close \<Rightarrow> (lose s, [])
     | Some (Text f) \<Rightarrow> on_frame f s
     | Some (Binary data) \<Rightarrow>
         (case decode data of
           Inr ch \<Rightarrow>
             (s, if chunk_stream ch = Stdin \<and> chunk_id ch = sid_str (ws_id s)
                 then [PtyWrite (chunk_bytes ch)] else [])
         | Inl _ \<Rightarrow> (s, []))
     | Some (Ping p) \<Rightarrow> (if w_sink w then s else lose s, [SendPong p])
     | Some _ \<Rightarrow> (s, []))"

definition on_input :: "session_world \<Rightarrow> session_input \<Rightarrow> host_state \<Rightarrow>
    host_state \<times> session_action list" where
  "on_input w i s =
     (case i of
       PtyRead r \<Rightarrow> on_pty w r s
     | JobEvent ev \<Rightarrow> on_event w ev s
     | LeaseLapsed \<Rightarrow> (lose s, [])
     | Socket m \<Rightarrow> on_socket w m s)"

section \<open>The loop\<close>

definition session_turn :: "session_world \<Rightarrow> session_input \<Rightarrow> host_state \<Rightarrow>
    host_state \<times> session_action list" where
  "session_turn w i s =
     (let (s1, a1) = start_jobs w s
      in if ws_close_error s1 \<noteq> None then (s1\<lparr>ws_loop := Left\<rparr>, a1)
         else let (s2, a2) = on_input w i s1 in (s2, a1 @ a2))"

definition session_loop :: "(session_world \<times> session_input) list \<Rightarrow> host_state \<Rightarrow>
    host_state \<times> session_action list" where
  "session_loop = drive (\<lambda>s. ws_loop s = Serving) (\<lambda>s (w, i). session_turn w i s)"

text \<open>Before the loop: the variables.  \<open>home\<close> is what \<open>account::ensure\<close> gave.\<close>

definition session_vars :: "session_open_frame \<Rightarrow> (drop_to \<Rightarrow> string + string option) \<Rightarrow> env_map" where
  "session_vars fr home =
     (let vars = hput ''TERM'' ''xterm-256color'' (open_env fr)
      in case open_drop_to fr of
        None \<Rightarrow> vars
      | Some d \<Rightarrow> (case home d of Inr (Some h) \<Rightarrow> hput ''HOME'' h vars | _ \<Rightarrow> vars))"

definition session_init :: "session_open_frame \<Rightarrow> (drop_to \<Rightarrow> string + string option) \<Rightarrow> host_state" where
  "session_init fr home = \<lparr>ws_id = open_session_id fr, ws_drop_to = open_drop_to fr, ws_running = [],
     ws_queued = [], ws_stateful = None, ws_completion = None, ws_workdir = open_working_dir fr,
     ws_vars = session_vars fr home, ws_close_error = None, ws_lost = False, ws_loop = Serving\<rparr>"

text \<open>After the loop.\<close>

datatype pty_outcome = PtyDone frame | PtySessionLost

definition session_teardown :: "host_state \<Rightarrow> session_action list" where
  "session_teardown s = map (CancelJob \<circ> fst) (ws_running s) @ [PtyShutdown]
     @ map (PurgeCapture \<circ> fst) (ws_running s)"

definition session_outcome :: "host_state \<Rightarrow> pty_outcome" where
  "session_outcome s =
     (if ws_lost s then PtySessionLost else PtyDone (SessionClosed (ws_id s) (ws_close_error s) True))"

text \<open>\<open>run_session\<close>: \<open>spawn\<close> is the error of starting the shell, \<open>ready_sent\<close> whether \<open>SessionReady\<close> went
  out.  No outcome means that the loop still serves (the inputs are a prefix) or has panicked.\<close>

definition run_session :: "session_open_frame \<Rightarrow> string option \<Rightarrow> bool \<Rightarrow>
    (drop_to \<Rightarrow> string + string option) \<Rightarrow> (session_world \<times> session_input) list \<Rightarrow>
    pty_outcome option \<times> session_action list" where
  "run_session fr spawn ready_sent home is =
     (case spawn of
       Some e \<Rightarrow>
         (let err = ''could not start session shell: '' @ e
          in (Some (PtyDone (SessionClosed (open_session_id fr) (Some err) True)),
              [SendFrame (SessionReady (open_session_id fr) (Some err))]))
     | None \<Rightarrow>
         if \<not> ready_sent
         then (Some PtySessionLost, [SendFrame (SessionReady (open_session_id fr) None), PtyShutdown])
         else
           let (s, acts) = session_loop is (session_init fr home);
               trace = SendFrame (SessionReady (open_session_id fr) None) # acts
           in if ws_loop s = Left then (Some (session_outcome s), trace @ session_teardown s)
              else (None, trace))"

section \<open>The watcher of a stateful command\<close>

text \<open>\<open>watch_stateful_job\<close>: one round of its polling loop, every 10 milliseconds.  A round sees whether
  the completion marker has been found, the status file (\<open>None\<close> when it cannot be read), the cancel
  flag, the time when an interrupt is requested and the time of the deadline check after it, and whether
  the event channel is open.\<close>

record watch_round =
  wr_completed :: bool
  wr_status :: "string option"
  wr_cancel :: bool
  wr_now :: time
  wr_after :: time
  wr_open :: bool

record watch_state =
  wj_interrupted_at :: "time option"
  wj_cancelled :: bool
  wj_live :: bool

definition watch_init :: watch_state where
  "watch_init = \<lparr>wj_interrupted_at = None, wj_cancelled = False, wj_live = True\<rparr>"

definition exit_status :: "watch_round \<Rightarrow> i32 option" where
  "exit_status i = (if wr_completed i
     then (case wr_status i of None \<Rightarrow> None | Some code \<Rightarrow> parse_i32 (trim code)) else None)"

text \<open>Two seconds, in milliseconds.\<close>

definition interrupt_grace :: time where
  "interrupt_grace = 2000"

definition watch_turn :: "exec_id \<Rightarrow> watch_state \<Rightarrow> watch_round \<Rightarrow> watch_state \<times> session_event list" where
  "watch_turn rid s i =
     (case exit_status i of
       Some code \<Rightarrow>
         (s\<lparr>wj_live := False\<rparr>,
          [EvResult \<lparr>res_request_id = rid, res_exit_code = Some code, res_exit_signal = None,
             res_cancelled = wj_cancelled s, res_usage = default_usage, res_error = None\<rparr>])
     | None \<Rightarrow>
         let interrupt = (wj_interrupted_at s = None \<and> wr_cancel i);
             s1 = (if interrupt then s\<lparr>wj_interrupted_at := Some (wr_now i), wj_cancelled := True\<rparr> else s);
             e1 = (if interrupt then [EvInterrupt] else [])
         in if interrupt \<and> \<not> wr_open i then (s1\<lparr>wj_live := False\<rparr>, e1)
            else case wj_interrupted_at s1 of
              Some at \<Rightarrow> if interrupt_grace < duration_since (wr_after i) at
                then (s1\<lparr>wj_live := False\<rparr>, e1 @ [EvAbort rid]) else (s1, e1)
            | None \<Rightarrow> (s1, e1))"

definition watch_stateful_job :: "exec_id \<Rightarrow> watch_round list \<Rightarrow> watch_state \<times> session_event list" where
  "watch_stateful_job rid is = drive wj_live (watch_turn rid) is watch_init"

section \<open>The invariant of the scheduler\<close>

text \<open>The running and the queued jobs are distinct commands and at most 32, and the command that owns
  the shell is one of the running jobs.\<close>

definition host_ok :: "host_state \<Rightarrow> bool" where
  "host_ok s \<longleftrightarrow> hwf (ws_running s) \<and> distinct (queued_ids s)
     \<and> (\<forall>rid \<in> set (queued_ids s). \<not> hhas (ws_running s) rid)
     \<and> length (ws_running s) + length (ws_queued s) \<le> session_jobs
     \<and> (case ws_stateful s of None \<Rightarrow> True | Some rid \<Rightarrow> hhas (ws_running s) rid)"

lemma length_hput_fresh: "\<not> hhas m k \<Longrightarrow> length (hput k v m) = Suc (length m)"
  by (simp add: hhas_def hput_fresh)

lemma length_hput_present: "hhas m k \<Longrightarrow> length (hput k v m) = length m"
proof (induction m)
  case Nil
  then show ?case by simp
next
  case (Cons x m)
  then show ?case by (cases x) (auto simp: hhas_def hget_def hput_def split: if_splits)
qed

lemma length_hdel_le: "length (hdel k m) \<le> length m"
  by (simp add: hdel_def length_delete_le)

lemma host_ok_init [simp]: "host_ok (session_init fr home)"
  by (simp add: host_ok_def session_init_def queued_ids_def)

text \<open>Starting jobs: the five ways the loop treats the head of its queue.\<close>

lemma start_queue_cases:
  assumes "start_queue w ((e, m) # q) s = (t, acts)"
  obtains (stop) "ws_stateful s \<noteq> None \<or> session_jobs \<le> length (ws_running s)"
      "t = s\<lparr>ws_queued := (e, m) # q\<rparr>" "acts = []"
  | (typed) line mk where "ws_stateful s = None" "length (ws_running s) < session_jobs" "m = Stateful"
      "w_prepare w (with_shell_state s e) = Inr (line, mk)" "w_type_error w = None"
      "t = s\<lparr>ws_queued := q, ws_completion := Some (new_completion mk),
        ws_stateful := Some (request_id e), ws_running := hput (request_id e) False (ws_running s)\<rparr>"
      "acts = [PtyWrite (as_bytes line), WatchStateful (with_shell_state s e)]"
  | (unsent) line mk err where "ws_stateful s = None" "length (ws_running s) < session_jobs" "m = Stateful"
      "w_prepare w (with_shell_state s e) = Inr (line, mk)" "w_type_error w = Some err"
      "t = s\<lparr>ws_queued := q, ws_close_error := Some (''could not submit shell command: '' @ err)\<rparr>"
      "acts = [PtyWrite (as_bytes line)]"
  | (unready) err where "ws_stateful s = None" "length (ws_running s) < session_jobs" "m = Stateful"
      "w_prepare w (with_shell_state s e) = Inl err" "t = s\<lparr>ws_queued := q\<rparr>"
      "acts = [PurgeCapture (request_id e),
        SendFrame (Result (errored (request_id e) (''stateful command setup: '' @ err)))]"
  | (parallel) a1 where "ws_stateful s = None" "length (ws_running s) < session_jobs" "m \<noteq> Stateful"
      "start_queue w q (s\<lparr>ws_running := hput (request_id e) False (ws_running s)\<rparr>) = (t, a1)"
      "acts = StartJob (with_shell_state s e) # a1"
proof (cases "ws_stateful s \<noteq> None \<or> session_jobs \<le> length (ws_running s)")
  case True
  with assms stop show thesis by auto
next
  case False
  then have free: "ws_stateful s = None" "length (ws_running s) < session_jobs" by auto
  show thesis
  proof (cases "m = Stateful")
    case True
    show thesis
    proof (cases "w_prepare w (with_shell_state s e)")
      case (Inl err)
      from assms free True Inl show thesis by (intro unready [OF free True Inl]) (simp_all add: Let_def)
    next
      case (Inr r)
      obtain line mk where r: "w_prepare w (with_shell_state s e) = Inr (line, mk)" using Inr by (cases r) simp
      show thesis
      proof (cases "w_type_error w")
        case None
        with assms free True r show thesis by (intro typed [OF free True r None]) (simp_all add: Let_def)
      next
        case (Some err)
        with assms free True r show thesis by (intro unsent [OF free True r Some]) (simp_all add: Let_def)
      qed
    qed
  next
    case m: False
    obtain t1 a1 where t1: "start_queue w q (s\<lparr>ws_running := hput (request_id e) False (ws_running s)\<rparr>) = (t1, a1)"
      by fastforce
    with assms free m have "t = t1" "acts = StartJob (with_shell_state s e) # a1" by (simp_all add: Let_def)
    with t1 show thesis by (intro parallel [OF free m]) simp_all
  qed
qed

lemma request_id_with_shell_state [simp]: "request_id (with_shell_state s e) = request_id e"
  by (simp add: with_shell_state_def)

lemma start_queue_frame:
  "start_queue w q s = (t, acts) \<Longrightarrow> ws_id t = ws_id s \<and> ws_drop_to t = ws_drop_to s
     \<and> ws_workdir t = ws_workdir s \<and> ws_vars t = ws_vars s \<and> ws_lost t = ws_lost s \<and> ws_loop t = ws_loop s"
proof (induction q arbitrary: s acts)
  case Nil
  then show ?case by auto
next
  case (Cons x q)
  obtain e m where x: "x = (e, m)" by (cases x)
  from Cons.prems [unfolded x] show ?case
    by (cases rule: start_queue_cases) (auto dest: Cons.IH)
qed

lemma host_ok_take:
  assumes "host_ok (s\<lparr>ws_queued := (e, m) # q\<rparr>)"
  shows "host_ok (s\<lparr>ws_running := hput (request_id e) False (ws_running s), ws_queued := q\<rparr>)"
    and "host_ok (s\<lparr>ws_queued := q\<rparr>)"
    and "host_ok (s\<lparr>ws_queued := q, ws_stateful := Some (request_id e),
      ws_running := hput (request_id e) False (ws_running s)\<rparr>)"
  using assms
  by (auto simp: host_ok_def queued_ids_def length_hput_fresh image_iff split: option.splits)

lemma host_ok_frame: "host_ok (s\<lparr>ws_completion := c\<rparr>) = host_ok s"
  "host_ok (s\<lparr>ws_close_error := x\<rparr>) = host_ok s" "host_ok (s\<lparr>ws_loop := l\<rparr>) = host_ok s"
  "host_ok (s\<lparr>ws_lost := b\<rparr>) = host_ok s" "host_ok (s\<lparr>ws_workdir := d\<rparr>) = host_ok s"
  "host_ok (s\<lparr>ws_vars := v\<rparr>) = host_ok s"
  by (simp_all add: host_ok_def queued_ids_def split: option.split)

lemma start_queue_ok:
  "host_ok (s\<lparr>ws_queued := q\<rparr>) \<Longrightarrow> start_queue w q s = (t, acts) \<Longrightarrow> host_ok t"
proof (induction q arbitrary: s acts)
  case Nil
  then show ?case by auto
next
  case (Cons x q)
  obtain e m where x: "x = (e, m)" by (cases x)
  note ok = host_ok_take [OF Cons.prems(1) [unfolded x]]
  from Cons.prems(2) [unfolded x] show ?case
  proof (cases rule: start_queue_cases)
    case stop
    with Cons.prems(1) x show ?thesis by simp
  next
    case (typed line mk)
    with ok(3) show ?thesis by (simp add: host_ok_def queued_ids_def)
  next
    case (unsent line mk err)
    with ok(2) show ?thesis by (simp add: host_ok_def queued_ids_def)
  next
    case (unready err)
    with ok(2) show ?thesis by simp
  next
    case (parallel a1)
    show ?thesis by (rule Cons.IH [OF _ parallel(4)]) (use ok(1) in simp)
  qed
qed

text \<open>The queue is served from the front, and only a full or exclusively held session leaves work in
  it.\<close>

fun begun :: "session_action list \<Rightarrow> exec_id list" where
  "begun [] = []"
| "begun (StartJob e # as) = request_id e # begun as"
| "begun (WatchStateful e # as) = request_id e # begun as"
| "begun (_ # as) = begun as"

definition setup_works :: "session_world \<Rightarrow> bool" where
  "setup_works w \<longleftrightarrow> (\<forall>e. \<not> isl (w_prepare w e)) \<and> w_type_error w = None"

lemma start_queue_fifo:
  "setup_works w \<Longrightarrow> start_queue w q s = (t, acts) \<Longrightarrow>
    map (request_id \<circ> fst) q = begun acts @ queued_ids t
    \<and> (ws_queued t = [] \<or> ws_stateful t \<noteq> None \<or> session_jobs \<le> length (ws_running t))"
proof (induction q arbitrary: s acts)
  case Nil
  then show ?case by (auto simp: queued_ids_def)
next
  case (Cons x q)
  obtain e m where x: "x = (e, m)" by (cases x)
  have good: "\<And>e. \<not> isl (w_prepare w e)" "w_type_error w = None"
    using Cons.prems(1) by (simp_all add: setup_works_def)
  from Cons.prems(2) [unfolded x] show ?case
  proof (cases rule: start_queue_cases)
    case (unready err)
    with good(1) [of "with_shell_state s e"] show ?thesis by simp
  next
    case (parallel a1)
    from Cons.IH [OF Cons.prems(1) parallel(4)] parallel(5) show ?thesis by (simp add: x)
  qed (use good(2) in \<open>auto simp: x queued_ids_def\<close>)
qed

text \<open>The branches of the loop keep the invariant.\<close>

lemma host_ok_lose [simp]: "host_ok (lose s) = host_ok s"
  by (simp add: lose_def host_ok_frame)

lemma host_ok_remove:
  "host_ok s \<Longrightarrow> ws_stateful s \<noteq> Some rid \<Longrightarrow> host_ok (s\<lparr>ws_running := hdel rid (ws_running s)\<rparr>)"
  using length_hdel_le [of rid "ws_running s"]
  by (auto simp: host_ok_def queued_ids_def split: option.splits)

lemma host_ok_release: "host_ok s \<Longrightarrow> host_ok (s\<lparr>ws_stateful := None\<rparr>)"
  by (simp add: host_ok_def queued_ids_def)

lemma send_chunk_ok: "send_chunk w which i bs s = (t, acts) \<Longrightarrow> host_ok t = host_ok s"
  by (auto simp: send_chunk_def host_ok_frame split: option.splits if_splits)

lemma on_pty_ok: "host_ok s \<Longrightarrow> on_pty w r s = (t, acts) \<Longrightarrow> host_ok t"
  by (auto simp: on_pty_def Let_def host_ok_frame dest!: send_chunk_ok
      split: option.splits if_splits prod.splits)

lemma report_ok:
  "host_ok s \<Longrightarrow> ws_stateful s \<noteq> Some (res_request_id r) \<Longrightarrow> report w r s = (t, acts) \<Longrightarrow> host_ok t"
  by (auto simp: report_def Let_def host_ok_remove split: if_splits)

lemma on_result_ok:
  assumes "host_ok s" "on_result w r s = (t, acts)"
  shows "host_ok t"
proof (cases "ws_stateful s = Some (res_request_id r)")
  case True
  show ?thesis
  proof (cases "read_shell_state (w_cwd_file w) (w_env_file w)")
    case (Inl err)
    with True assms show ?thesis by (auto simp: on_result_def Let_def host_ok_frame)
  next
    case (Inr st)
    obtain cwd vars where st: "st = (cwd, vars)" by (cases st)
    let ?s = "s\<lparr>ws_workdir := cwd, ws_vars := vars, ws_stateful := None, ws_completion := None\<rparr>"
    have "host_ok ?s" using assms(1) by (simp add: host_ok_def queued_ids_def)
    moreover obtain acts1 where "report w r ?s = (t, acts1)"
      using True Inr st assms(2) by (auto simp: on_result_def Let_def split: prod.splits)
    ultimately show ?thesis by (auto intro: report_ok)
  qed
next
  case False
  with assms show ?thesis by (auto simp: on_result_def intro: report_ok)
qed

lemma on_session_run_ok: "host_ok s \<Longrightarrow> on_session_run e m s = (t, acts) \<Longrightarrow> host_ok t"
  by (cases "ws_stateful s")
    (fastforce simp: on_session_run_def Let_def host_ok_def queued_ids_def split: if_splits)+

lemma on_cancel_ok:
  assumes "host_ok s" "on_cancel rid s = (t, acts)"
  shows "host_ok t"
proof (cases "hhas (ws_running s) rid")
  case True
  then have same: "hhas (hput rid True (ws_running s)) = hhas (ws_running s)" by auto
  have "t = s\<lparr>ws_running := hput rid True (ws_running s)\<rparr>" using True assms(2) by (simp add: on_cancel_def)
  with assms(1) True show ?thesis
    by (simp add: host_ok_def queued_ids_def length_hput_present same del: hhas_simps split: option.splits)
next
  case out: False
  show ?thesis
  proof (cases "take_first (\<lambda>(e, m). request_id e = rid) (ws_queued s)")
    case None
    with out assms show ?thesis by (simp add: on_cancel_def)
  next
    case (Some r)
    obtain x q where r: "r = (x, q)" by (cases r)
    from Some r obtain as bs where q: "ws_queued s = as @ x # bs" "q = as @ bs"
      by (auto elim: take_first_Some)
    from out Some r assms(2) have "t = s\<lparr>ws_queued := q\<rparr>" by (simp add: on_cancel_def)
    with assms(1) q show ?thesis by (auto simp: host_ok_def queued_ids_def split: option.splits)
  qed
qed

lemma on_input_ok:
  assumes "host_ok s" "on_input w i s = (t, acts)"
  shows "host_ok t"
proof (cases i)
  case (PtyRead r)
  with assms show ?thesis by (auto simp: on_input_def intro: on_pty_ok)
next
  case (JobEvent ev)
  with assms show ?thesis
    by (cases ev) (auto simp: on_input_def on_event_def host_ok_frame send_chunk_ok intro: on_result_ok)
next
  case LeaseLapsed
  with assms show ?thesis by (auto simp: on_input_def)
next
  case (Socket m)
  with assms have k: "on_socket w m s = (t, acts)" by (simp add: on_input_def)
  show ?thesis
  proof (cases "\<exists>f. m = Some (Text f)")
    case True
    then obtain f where "on_frame f s = (t, acts)" using k by (auto simp: on_socket_def)
    with assms(1) show ?thesis
      by (cases f) (auto simp: on_frame_def host_ok_frame intro: on_session_run_ok on_cancel_ok split: if_splits)
  next
    case False
    with k assms(1) show ?thesis
      by (auto simp: on_socket_def split: option.splits message.splits sum.splits if_splits)
  qed
qed

lemma session_turn_cases:
  assumes "session_turn w i s = (t, acts)"
  obtains (closed) s1 where "start_jobs w s = (s1, acts)" "ws_close_error s1 \<noteq> None"
      "t = s1\<lparr>ws_loop := Left\<rparr>"
  | (served) s1 a1 a2 where "start_jobs w s = (s1, a1)" "ws_close_error s1 = None"
      "on_input w i s1 = (t, a2)" "acts = a1 @ a2"
  using assms by (auto simp: session_turn_def Let_def split: prod.splits if_splits)

lemma session_turn_ok:
  assumes "host_ok s" "session_turn w i s = (t, acts)"
  shows "host_ok t"
proof -
  have start: "start_jobs w s = (s1, a) \<Longrightarrow> host_ok s1" for s1 a
    using start_queue_ok [where s = s and q = "ws_queued s"] assms(1) by (simp add: start_jobs_def)
  from assms(2) show ?thesis
    by (cases rule: session_turn_cases) (auto simp: host_ok_frame dest: start on_input_ok)
qed

section \<open>The discipline of the session shell\<close>

text \<open>What a reader of the effects knows about the shell: which command owns it, and the directory and
  variables it was last read back with.  Its owner excludes every start, only its own state is read
  back, and what is started gets the last state.\<close>

type_synonym shell_reading = "exec_id option \<times> string \<times> env_map"

definition shell_watch :: "shell_reading \<Rightarrow> session_action \<Rightarrow> shell_reading option" where
  "shell_watch v a = (case v of (owner, st) \<Rightarrow>
     (case a of
       StartJob e \<Rightarrow> if owner = None \<and> (working_dir e, env e) = st then Some (None, st) else None
     | WatchStateful e \<Rightarrow>
         if owner = None \<and> (working_dir e, env e) = st then Some (Some (request_id e), st) else None
     | ReadState rid cwd vars \<Rightarrow> if owner = Some rid then Some (None, cwd, vars) else None
     | _ \<Rightarrow> Some v))"

definition shell_view :: "host_state \<Rightarrow> shell_reading" where
  "shell_view s = (ws_stateful s, ws_workdir s, ws_vars s)"

lemma start_queue_watch:
  "start_queue w q s = (t, acts) \<Longrightarrow> monitor shell_watch (shell_view s) acts = Some (shell_view t)"
proof (induction q arbitrary: s acts)
  case Nil
  then show ?case by (auto simp: shell_view_def)
next
  case (Cons x q)
  obtain e m where x: "x = (e, m)" by (cases x)
  from Cons.prems [unfolded x] show ?case
  proof (cases rule: start_queue_cases)
    case (parallel a1)
    with Cons.IH [OF parallel(4)] show ?thesis
      by (simp add: shell_view_def shell_watch_def with_shell_state_def)
  qed (auto simp: shell_view_def shell_watch_def with_shell_state_def)
qed

lemma send_chunk_watch:
  "send_chunk w which i bs s = (t, acts) \<Longrightarrow> monitor shell_watch (shell_view s) acts = Some (shell_view t)"
  by (auto simp: send_chunk_def shell_view_def shell_watch_def lose_def split: option.splits if_splits)

lemma on_pty_watch:
  assumes "on_pty w r s = (t, acts)"
  shows "monitor shell_watch (shell_view s) acts = Some (shell_view t)"
proof -
  have same: "shell_view (s\<lparr>ws_completion := c\<rparr>) = shell_view s" "shell_view (s\<lparr>ws_loop := l\<rparr>) = shell_view s"
    for c l by (simp_all add: shell_view_def)
  from assms show ?thesis
    by (auto simp: on_pty_def Let_def same dest!: send_chunk_watch
        split: option.splits if_splits prod.splits)
qed

lemma on_event_watch:
  assumes "on_event w ev s = (t, acts)"
  shows "monitor shell_watch (shell_view s) acts = Some (shell_view t)"
proof (cases ev)
  case (EvOutput rid which bs)
  with assms show ?thesis by (simp add: on_event_def send_chunk_watch)
next
  case (EvResult r)
  with assms show ?thesis
    by (auto simp: on_event_def on_result_def report_def Let_def shell_view_def shell_watch_def lose_def
        split: if_splits sum.splits prod.splits)
next
  case EvInterrupt
  with assms show ?thesis by (auto simp: on_event_def shell_watch_def shell_view_def)
next
  case (EvAbort rid)
  with assms show ?thesis by (auto simp: on_event_def shell_watch_def shell_view_def)
qed

lemma on_frame_watch:
  "on_frame f s = (t, acts) \<Longrightarrow> monitor shell_watch (shell_view s) acts = Some (shell_view t)"
  by (cases f) (auto simp: on_frame_def on_session_run_def on_cancel_def Let_def shell_view_def
      shell_watch_def split: if_splits option.splits prod.splits)

lemma on_input_watch:
  assumes "on_input w i s = (t, acts)"
  shows "monitor shell_watch (shell_view s) acts = Some (shell_view t)"
proof (cases i)
  case (Socket m)
  with assms have k: "on_socket w m s = (t, acts)" by (simp add: on_input_def)
  show ?thesis
  proof (cases "\<exists>f. m = Some (Text f)")
    case True
    with k show ?thesis by (auto simp: on_socket_def on_frame_watch)
  next
    case False
    with k show ?thesis
      by (auto simp: on_socket_def shell_view_def shell_watch_def lose_def
          split: option.splits message.splits sum.splits if_splits)
  qed
next
  case LeaseLapsed
  with assms show ?thesis by (auto simp: on_input_def shell_view_def lose_def)
qed (use assms in \<open>simp_all add: on_input_def on_pty_watch on_event_watch\<close>)

lemma session_turn_watch:
  assumes "session_turn w i s = (t, acts)"
  shows "monitor shell_watch (shell_view s) acts = Some (shell_view t)"
  using assms
proof (cases rule: session_turn_cases)
  case (closed s1)
  moreover have "shell_view t = shell_view s1" using closed(3) by (simp add: shell_view_def)
  ultimately show ?thesis using start_queue_watch by (simp add: start_jobs_def)
next
  case (served s1 a1 a2)
  then show ?thesis
    using start_queue_watch on_input_watch by (simp add: start_jobs_def monitor_append_Some)
qed

text \<open>The loop of a session is a monitored loop, for every input.\<close>

interpretation sl: monitored_loop "\<lambda>s. ws_loop s = Serving" "\<lambda>s (w, i). session_turn w i s"
  host_ok "\<lambda>_. True" shell_watch shell_view
  by unfold_locales (auto dest: session_turn_ok session_turn_watch)

section \<open>Properties\<close>

text \<open>A session in which a stateful command runs first and a parallel one after it.\<close>

definition demo_host_open :: session_open_frame where
  "demo_host_open = \<lparr>open_session_id = SessionId ''s'', open_working_dir = ''/w'', open_env = [],
     open_drop_to = None, open_cols = 80, open_rows = 24\<rparr>"

definition demo_cmd :: "string \<Rightarrow> execute_frame" where
  "demo_cmd i = \<lparr>request_id = ExecId i, command = ''true'', working_dir = [], env = [], exec_drop_to = None\<rparr>"

definition demo_outside :: session_world where
  "demo_outside = \<lparr>w_sink = True, w_prepare = (\<lambda>e. Inr (''go'', [7])), w_type_error = None,
     w_cwd_file = Inr ''/x'', w_env_file = Inr (as_bytes ''A=1'')\<rparr>"

definition demo_result :: "string \<Rightarrow> result_frame" where
  "demo_result i = \<lparr>res_request_id = ExecId i, res_exit_code = Some 0, res_exit_signal = None,
     res_cancelled = False, res_usage = default_usage, res_error = None\<rparr>"

definition demo_session :: "(session_world \<times> session_input) list" where
  "demo_session = map (Pair demo_outside)
     [Socket (Some (Text (SessionRun (SessionId ''s'') (demo_cmd ''a'') Stateful))),
      Socket (Some (Text (SessionRun (SessionId ''s'') (demo_cmd ''b'') Parallel))),
      JobEvent (EvResult (demo_result ''a'')), Socket (Some (Pong []))]"

lemma demo_session_trace:
  "snd (session_loop demo_session (session_init demo_host_open (\<lambda>_. Inr None))) =
    [PtyWrite (as_bytes ''go''),
     WatchStateful ((demo_cmd ''a'')\<lparr>working_dir := ''/w'', env := [(''TERM'', ''xterm-256color'')]\<rparr>),
     ReadState (ExecId ''a'') ''/x'' [(''A'', ''1'')], PurgeCapture (ExecId ''a''),
     SendFrame (Result (demo_result ''a'')),
     StartJob ((demo_cmd ''b'')\<lparr>working_dir := ''/x'', env := [(''A'', ''1'')]\<rparr>)]"
  by code_simp

lemma demo_session_end:
  "ws_loop (fst (session_loop demo_session (session_init demo_host_open (\<lambda>_. Inr None)))) = Serving"
  by code_simp

lemma session_trace:
  "session_loop is (session_init fr home) = (t, acts) \<Longrightarrow>
    monitor shell_watch (None, open_working_dir fr, session_vars fr home) acts = Some (shell_view t)"
  using sl.drive_watch [of "is" "session_init fr home" t acts]
  by (simp add: session_loop_def list_all_iff) (simp add: shell_view_def session_init_def)

definition starts :: "session_action \<Rightarrow> bool" where
  "starts a = (case a of StartJob _ \<Rightarrow> True | WatchStateful _ \<Rightarrow> True | _ \<Rightarrow> False)"

fun started_frame :: "session_action \<Rightarrow> execute_frame option" where
  "started_frame (StartJob e) = Some e"
| "started_frame (WatchStateful e) = Some e"
| "started_frame _ = None"

text \<open>
  C11: A stateful command has the session shell to itself until its state has been read back: in every
  run of a session, between the start of a stateful command and the next start of any command, the
  worker has read the working directory and the environment that this command left.
\<close>

theorem stateful_owns_shell:
  assumes "session_loop is (session_init fr home) = (t, xs @ WatchStateful e # ys @ b # zs)" and "starts b"
  shows "\<exists>cwd vars. ReadState (request_id e) cwd vars \<in> set ys"
proof -
  from session_trace [OF assms(1)] obtain m0 m1 where
    w: "shell_watch m0 (WatchStateful e) = Some m1" and
    r: "monitor shell_watch m1 (ys @ b # zs) = Some (shell_view t)" by (rule monitor_at)
  from r obtain m2 m3 where ys: "monitor shell_watch m1 ys = Some m2" and b: "shell_watch m2 b = Some m3"
    by (rule monitor_at)
  have "fst m1 = Some (request_id e)" using w by (auto simp: shell_watch_def split: if_splits prod.splits)
  moreover have "fst m2 \<noteq> Some (request_id e)"
    using b assms(2) by (auto simp: shell_watch_def starts_def split: if_splits prod.splits session_action.splits)
  ultimately have "\<exists>a \<in> set ys. \<exists>cwd vars. a = ReadState (request_id e) cwd vars"
    by (intro monitor_until [OF ys, where holds = "\<lambda>m. fst m = Some (request_id e)"])
      (auto simp: shell_watch_def split: if_splits session_action.splits)
  then show ?thesis by blast
qed

theorem stateful_owns_shell_witness:
  "\<exists>cwd vars. ReadState (ExecId ''a'') cwd vars \<in> set [ReadState (ExecId ''a'') ''/x'' [(''A'', ''1'')],
     PurgeCapture (ExecId ''a''), SendFrame (Result (demo_result ''a''))]"
proof -
  have "session_loop demo_session (session_init demo_host_open (\<lambda>_. Inr None)) =
      (fst (session_loop demo_session (session_init demo_host_open (\<lambda>_. Inr None))),
       [PtyWrite (as_bytes ''go'')] @
       WatchStateful ((demo_cmd ''a'')\<lparr>working_dir := ''/w'', env := [(''TERM'', ''xterm-256color'')]\<rparr>) #
       [ReadState (ExecId ''a'') ''/x'' [(''A'', ''1'')], PurgeCapture (ExecId ''a''),
        SendFrame (Result (demo_result ''a''))] @
       StartJob ((demo_cmd ''b'')\<lparr>working_dir := ''/x'', env := [(''A'', ''1'')]\<rparr>) # [])"
    by (simp only: prod_eq_iff demo_session_trace fst_conv snd_conv append.simps)
  from stateful_owns_shell [OF this] show ?thesis by (simp add: starts_def demo_cmd_def)
qed

text \<open>The state of the shell after some effects.\<close>

fun last_state :: "string \<times> env_map \<Rightarrow> session_action list \<Rightarrow> string \<times> env_map" where
  "last_state st [] = st"
| "last_state st (ReadState _ cwd vars # as) = last_state (cwd, vars) as"
| "last_state st (_ # as) = last_state st as"

lemma monitor_last_state:
  "monitor shell_watch m as = Some m1 \<Longrightarrow> snd m1 = last_state (snd m) as"
proof (induction as arbitrary: m)
  case Nil
  then show ?case by simp
next
  case (Cons a as)
  then obtain y where y: "shell_watch m a = Some y" "monitor shell_watch y as = Some m1"
    by (auto split: option.splits)
  have "last_state (snd y) as = last_state (snd m) (a # as)"
    using y(1) by (cases m; cases a) (auto simp: shell_watch_def split: if_splits)
  with Cons.IH [OF y(2)] show ?case by simp
qed

text \<open>
  C33: What a stateful command does to the shell carries over to the parallel commands: every parallel command of a
  session is started in the working directory and with the environment that were read back from the shell after the
  last finished stateful command before it, and before the first of these in those the session was opened with.
  (A stateful command runs in the live shell itself; the fields of its frame are not used for it.)
\<close>

theorem shell_state_carries:
  assumes "session_loop is (session_init fr home) = (t, xs @ StartJob e # zs)"
  shows "(working_dir e, env e) = last_state (open_working_dir fr, session_vars fr home) xs"
proof -
  from session_trace [OF assms(1)] obtain m0 m1 where
    xs: "monitor shell_watch (None, open_working_dir fr, session_vars fr home) xs = Some m0" and
    w: "shell_watch m0 (StartJob e) = Some m1" by (rule monitor_at)
  have "(working_dir e, env e) = snd m0"
    using w by (auto simp: shell_watch_def split: if_splits prod.splits)
  with monitor_last_state [OF xs] show ?thesis by simp
qed

theorem shell_state_carries_witness:
  "(''/x'', [(''A'', ''1'')]) = last_state (''/w'', [(''TERM'', ''xterm-256color'')])
     [PtyWrite (as_bytes ''go''),
      WatchStateful ((demo_cmd ''a'')\<lparr>working_dir := ''/w'', env := [(''TERM'', ''xterm-256color'')]\<rparr>),
      ReadState (ExecId ''a'') ''/x'' [(''A'', ''1'')], PurgeCapture (ExecId ''a''),
      SendFrame (Result (demo_result ''a''))]"
proof -
  have "session_loop demo_session (session_init demo_host_open (\<lambda>_. Inr None)) =
      (fst (session_loop demo_session (session_init demo_host_open (\<lambda>_. Inr None))),
       [PtyWrite (as_bytes ''go''),
        WatchStateful ((demo_cmd ''a'')\<lparr>working_dir := ''/w'', env := [(''TERM'', ''xterm-256color'')]\<rparr>),
        ReadState (ExecId ''a'') ''/x'' [(''A'', ''1'')], PurgeCapture (ExecId ''a''),
        SendFrame (Result (demo_result ''a''))] @
       StartJob ((demo_cmd ''b'')\<lparr>working_dir := ''/x'', env := [(''A'', ''1'')]\<rparr>) # [])"
    by (simp only: prod_eq_iff demo_session_trace fst_conv snd_conv append.simps)
  from shell_state_carries [OF this] show ?thesis
    by (simp add: demo_host_open_def session_vars_def hput_def)
qed

text \<open>
  A session never holds more than 32 commands, running and waiting together, and never holds two
  commands with one id, whatever the server, the jobs and the file system do.
\<close>

theorem session_bounded:
  assumes "session_loop is (session_init fr home) = (t, acts)"
  shows "length (ws_running t) + length (ws_queued t) \<le> 32 \<and>
    distinct (map fst (ws_running t) @ queued_ids t)"
proof -
  have ok: "host_ok t"
    using sl.drive_inv [of "is" "session_init fr home" t acts] assms
    by (simp add: session_loop_def list_all_iff)
  then have "set (map fst (ws_running t)) \<inter> set (queued_ids t) = {}"
    by (auto simp: host_ok_def hhas_def hget_def map_of_eq_None_iff image_iff)
  with ok show ?thesis by (simp add: host_ok_def session_jobs_def hwf_def)
qed

theorem session_bounded_witness:
  "length (ws_running (fst (session_loop demo_session (session_init demo_host_open (\<lambda>_. Inr None))))) +
   length (ws_queued (fst (session_loop demo_session (session_init demo_host_open (\<lambda>_. Inr None))))) \<le> 32"
  using session_bounded [of demo_session demo_host_open "\<lambda>_. Inr None", OF prod.collapse [symmetric]] by simp

text \<open>
  The queue of a session is served from the front: when the setup of stateful commands works, a round
  starts a prefix of the waiting commands, in the order in which they came, and stops only when nothing
  waits, when a stateful command owns the shell, or when 32 commands run.
\<close>

theorem queue_served_in_order:
  assumes "setup_works w" and "start_jobs w s = (t, acts)"
  shows "queued_ids s = begun acts @ queued_ids t \<and>
    (ws_queued t = [] \<or> ws_stateful t \<noteq> None \<or> 32 \<le> length (ws_running t))"
  using start_queue_fifo [OF assms(1)] assms(2)
  by (simp add: start_jobs_def session_jobs_def queued_ids_def)

theorem queue_served_in_order_witness:
  "queued_ids ((session_init demo_host_open (\<lambda>_. Inr None))\<lparr>ws_queued := [(demo_cmd ''a'', Parallel),
     (demo_cmd ''b'', Stateful), (demo_cmd ''c'', Parallel)]\<rparr>) = [ExecId ''a'', ExecId ''b''] @ [ExecId ''c'']"
proof -
  have "setup_works demo_outside" by (simp add: setup_works_def demo_outside_def)
  from queue_served_in_order [OF this, of "(session_init demo_host_open (\<lambda>_. Inr None))\<lparr>ws_queued :=
      [(demo_cmd ''a'', Parallel), (demo_cmd ''b'', Stateful), (demo_cmd ''c'', Parallel)]\<rparr>",
      OF prod.collapse [symmetric]]
  show ?thesis
    by (simp add: start_jobs_def session_init_def demo_host_open_def demo_cmd_def queued_ids_def
        session_jobs_def demo_outside_def Let_def split_beta with_shell_state_def)
qed

text \<open>A failed setup ends the round: the commands behind it wait for the next input of the loop although
  nothing runs.\<close>

lemma failed_setup_stalls_queue:
  "case start_jobs (demo_outside\<lparr>w_prepare := (\<lambda>_. Inl ''no space'')\<rparr>)
      ((session_init demo_host_open (\<lambda>_. Inr None))\<lparr>ws_queued := [(demo_cmd ''a'', Stateful), (demo_cmd ''b'', Parallel)]\<rparr>)
   of (t, acts) \<Rightarrow> queued_ids t = [ExecId ''b''] \<and> ws_running t = [] \<and> ws_stateful t = None
      \<and> ws_loop t = Serving \<and> begun acts = []"
  by code_simp

section \<open>Every accepted command is answered\<close>

definition held :: "exec_id \<Rightarrow> host_state \<Rightarrow> bool" where
  "held rid s \<longleftrightarrow> hhas (ws_running s) rid \<or> rid \<in> set (queued_ids s)"

definition answers_for :: "exec_id \<Rightarrow> session_action \<Rightarrow> bool" where
  "answers_for rid a = (case a of SendFrame (Result r) \<Rightarrow> res_request_id r = rid | _ \<Rightarrow> False)"

lemma answers_Result [simp]: "answers_for rid (SendFrame (Result r)) \<longleftrightarrow> res_request_id r = rid"
  by (simp add: answers_for_def)

lemma res_request_id_errored [simp]: "res_request_id (errored rid e) = rid"
  by (simp add: errored_def)

lemma held_frame [simp]: "held rid (s\<lparr>ws_completion := c\<rparr>) = held rid s"
  "held rid (s\<lparr>ws_loop := l\<rparr>) = held rid s" "held rid (lose s) = held rid s"
  "held rid (s\<lparr>ws_close_error := x\<rparr>) = held rid s"
  by (simp_all add: held_def queued_ids_def lose_def)

lemma start_queue_held:
  "start_queue w q s = (t, acts) \<Longrightarrow> held rid (s\<lparr>ws_queued := q\<rparr>) \<Longrightarrow>
    held rid t \<or> (\<exists>a \<in> set acts. answers_for rid a) \<or> ws_close_error t \<noteq> None"
proof (induction q arbitrary: s acts)
  case Nil
  then show ?case by auto
next
  case (Cons x q)
  obtain e m where x: "x = (e, m)" by (cases x)
  from Cons.prems(1) [unfolded x] show ?case
  proof (cases rule: start_queue_cases)
    case (parallel a1)
    have "held rid (s\<lparr>ws_running := hput (request_id e) False (ws_running s), ws_queued := q\<rparr>)"
      using Cons.prems(2) by (auto simp: held_def queued_ids_def x)
    from Cons.IH [OF parallel(4)] this parallel(5) show ?thesis by auto
  qed (use Cons.prems(2) in \<open>auto simp: held_def queued_ids_def x\<close>)
qed

lemma send_chunk_held: "send_chunk w which i bs s = (t, acts) \<Longrightarrow> held rid t = held rid s"
  by (auto simp: send_chunk_def split: option.splits if_splits)

lemma on_pty_held: "on_pty w r s = (t, acts) \<Longrightarrow> held rid t = held rid s"
  by (auto simp: on_pty_def Let_def dest!: send_chunk_held split: option.splits if_splits prod.splits)

lemma on_event_held:
  assumes "on_event w ev s = (t, acts)" "held rid s"
  shows "held rid t \<or> (\<exists>a \<in> set acts. answers_for rid a) \<or> ws_loop t \<noteq> Serving"
proof (cases ev)
  case (EvOutput r which bs)
  with assms show ?thesis by (simp add: on_event_def send_chunk_held)
next
  case (EvResult r)
  with assms show ?thesis
    by (auto simp: on_event_def on_result_def report_def Let_def held_def queued_ids_def lose_def
        split: if_splits sum.splits prod.splits)
qed (use assms in \<open>auto simp: on_event_def\<close>)

lemma on_frame_held:
  assumes "on_frame f s = (t, acts)" "held rid s"
  shows "held rid t \<or> (\<exists>a \<in> set acts. answers_for rid a)"
proof (cases "\<exists>r. f = Cancel r")
  case True
  then obtain r where c: "on_cancel r s = (t, acts)" using assms(1) by (auto simp: on_frame_def)
  show ?thesis
  proof (cases "take_first (\<lambda>(e, m). request_id e = r) (ws_queued s)")
    case None
    with c assms(2) show ?thesis by (auto simp: on_cancel_def held_def queued_ids_def split: if_splits)
  next
    case (Some p)
    obtain x q where p: "p = (x, q)" by (cases p)
    from Some p obtain as bs where q: "ws_queued s = as @ x # bs" "q = as @ bs" "request_id (fst x) = r"
      by (auto elim!: take_first_Some)
    with c Some p assms(2) show ?thesis
      by (auto simp: on_cancel_def held_def queued_ids_def split: if_splits)
  qed
next
  case False
  with assms show ?thesis
    by (cases f) (auto simp: on_frame_def on_session_run_def Let_def held_def queued_ids_def split: if_splits)
qed

lemma on_input_held:
  assumes "on_input w i s = (t, acts)" "held rid s"
  shows "held rid t \<or> (\<exists>a \<in> set acts. answers_for rid a) \<or> ws_loop t \<noteq> Serving"
proof (cases i)
  case (PtyRead r)
  with assms show ?thesis by (simp add: on_input_def on_pty_held)
next
  case (JobEvent ev)
  with assms on_event_held show ?thesis by (simp add: on_input_def)
next
  case LeaseLapsed
  with assms show ?thesis by (auto simp: on_input_def)
next
  case (Socket m)
  with assms have k: "on_socket w m s = (t, acts)" by (simp add: on_input_def)
  show ?thesis
  proof (cases "\<exists>f. m = Some (Text f)")
    case True
    then obtain f where "on_frame f s = (t, acts)" using k by (auto simp: on_socket_def)
    from on_frame_held [OF this assms(2)] show ?thesis by blast
  next
    case False
    with k assms(2) show ?thesis
      by (auto simp: on_socket_def split: option.splits message.splits sum.splits if_splits)
  qed
qed

lemma session_turn_held:
  assumes "session_turn w i s = (t, acts)" "held rid s"
  shows "held rid t \<or> (\<exists>a \<in> set acts. answers_for rid a) \<or> ws_loop t \<noteq> Serving"
proof -
  have start: "start_jobs w s = (s1, a) \<Longrightarrow>
      held rid s1 \<or> (\<exists>a \<in> set a. answers_for rid a) \<or> ws_close_error s1 \<noteq> None" for s1 a
    using start_queue_held [where s = s and q = "ws_queued s" and w = w] assms(2) by (simp add: start_jobs_def)
  from assms(1) show ?thesis
  proof (cases rule: session_turn_cases)
    case (closed s1)
    then show ?thesis by simp
  next
    case (served s1 a1 a2)
    from start [OF served(1)] served(2) on_input_held [OF served(3), of rid] served(4)
    show ?thesis by auto
  qed
qed

text \<open>
  C14: No accepted command is dropped while its session serves: a command that runs or waits still runs
  or waits later, or the worker has sent a result for it.
\<close>

theorem session_answers_every_command:
  assumes "session_loop is s = (t, acts)" and "ws_loop t = Serving"
    and "hhas (ws_running s) rid \<or> rid \<in> set (queued_ids s)"
  shows "hhas (ws_running t) rid \<or> rid \<in> set (queued_ids t) \<or>
    (\<exists>r. SendFrame (Result r) \<in> set acts \<and> res_request_id r = rid)"
proof -
  have h: "held rid s" using assms(3) by (simp add: held_def)
  have "held rid t \<or> (\<exists>a \<in> set acts. answers_for rid a)"
    by (rule drive_unless [OF assms(1) [unfolded session_loop_def]])
      (simp_all add: assms(2) h session_turn_held split: prod.splits)
  then show ?thesis
    by (auto simp: held_def answers_for_def split: session_action.splits frame.splits)
qed

theorem session_answers_every_command_witness:
  "ExecId ''a'' \<in> set (queued_ids (fst (session_turn demo_outside (snd (demo_session ! 0)) (session_init demo_host_open (\<lambda>_. Inr None)))))
   \<and> (\<exists>r. SendFrame (Result r) \<in> set (snd (session_loop (tl demo_session)
        (fst (session_turn demo_outside (snd (demo_session ! 0)) (session_init demo_host_open (\<lambda>_. Inr None))))))
        \<and> res_request_id r = ExecId ''a'')"
proof -
  let ?s = "fst (session_turn demo_outside (snd (demo_session ! 0)) (session_init demo_host_open (\<lambda>_. Inr None)))"
  have q: "ExecId ''a'' \<in> set (queued_ids ?s)" by code_simp
  have l: "ws_loop (fst (session_loop (tl demo_session) ?s)) = Serving" by code_simp
  have g: "\<not> hhas (ws_running (fst (session_loop (tl demo_session) ?s))) (ExecId ''a'')" by code_simp
  have h: "ExecId ''a'' \<notin> set (queued_ids (fst (session_loop (tl demo_session) ?s)))" by code_simp
  from session_answers_every_command [OF prod.collapse [symmetric] l disjI2 [OF q]] q g h
  show ?thesis by blast
qed

section \<open>The watcher\<close>

text \<open>
  A stateful command is reported finished only on evidence the command cannot forge by writing its
  status file: every result of the watcher comes from a round in which the completion marker had been
  seen in the terminal's output and the status file held the reported exit code.
\<close>

theorem stateful_result_needs_marker:
  assumes "EvResult r \<in> set (snd (watch_stateful_job rid is))"
  shows "res_request_id r = rid \<and> (\<exists>i \<in> set is. wr_completed i \<and> exit_status i = res_exit_code r
    \<and> res_exit_code r \<noteq> None)"
proof -
  from drive_effect [OF assms [unfolded watch_stateful_job_def]]
  obtain i s where i: "i \<in> set is" "EvResult r \<in> set (snd (watch_turn rid s i))" by blast
  then obtain code where c: "exit_status i = Some code"
    by (auto simp: watch_turn_def Let_def split: option.splits if_splits)
  with i(2) have "res_request_id r = rid" "res_exit_code r = Some code" by (simp_all add: watch_turn_def)
  moreover have "wr_completed i" using c by (simp add: exit_status_def split: if_splits)
  ultimately show ?thesis using i(1) c by force
qed

theorem stateful_result_needs_marker_witness:
  "res_request_id ((demo_result ''a'')\<lparr>res_exit_code := Some 3\<rparr>) = ExecId ''a'' \<and>
   (\<exists>i \<in> set [\<lparr>wr_completed = True, wr_status = Some '' 3 '', wr_cancel = False, wr_now = 0,
       wr_after = 0, wr_open = True\<rparr>]. wr_completed i)"
proof -
  have "EvResult ((demo_result ''a'')\<lparr>res_exit_code := Some 3\<rparr>) \<in> set (snd (watch_stateful_job (ExecId ''a'')
      [\<lparr>wr_completed = True, wr_status = Some '' 3 '', wr_cancel = False, wr_now = 0,
       wr_after = 0, wr_open = True\<rparr>]))"
    by code_simp
  from stateful_result_needs_marker [OF this] show ?thesis by blast
qed

lemma watch_turn_interrupted:
  assumes "wr_now i \<le> b" "wj_interrupted_at s = None \<or> (\<exists>at \<le> b. wj_interrupted_at s = Some at)"
  shows "wj_interrupted_at (fst (watch_turn rid s i)) = None \<or>
    (\<exists>at \<le> b. wj_interrupted_at (fst (watch_turn rid s i)) = Some at)"
  using assms by (auto simp: watch_turn_def Let_def split: option.splits)

lemma watch_turn_keeps:
  "wj_interrupted_at s = Some at \<Longrightarrow> wj_interrupted_at (fst (watch_turn rid s i)) = Some at"
  by (auto simp: watch_turn_def Let_def split: option.splits)

lemma watch_turn_cancel:
  "wr_cancel i \<Longrightarrow> wr_now i \<le> b \<Longrightarrow>
    wj_interrupted_at s = None \<or> (\<exists>at \<le> b. wj_interrupted_at s = Some at) \<Longrightarrow>
    \<not> wj_live (fst (watch_turn rid s i)) \<or> (\<exists>at \<le> b. wj_interrupted_at (fst (watch_turn rid s i)) = Some at)"
  by (auto simp: watch_turn_def Let_def split: option.splits)

lemma watch_turn_late:
  "wj_interrupted_at s = Some at \<Longrightarrow> at + interrupt_grace < wr_after i \<Longrightarrow>
    \<not> wj_live (fst (watch_turn rid s i))"
  by (auto simp: watch_turn_def Let_def split: option.splits)

text \<open>
  C34: A cancelled stateful command does not run on: once the cancellation has been seen in a round, the
  watcher is finished (with a result or with an abort) by the first round more than two seconds later,
  whatever the command does.
\<close>

theorem cancelled_stateful_ends:
  assumes "sorted (map wr_now (pre @ [c]))" and "wr_cancel c"
    and "wr_now c + interrupt_grace < wr_after l"
  shows "\<not> wj_live (fst (watch_stateful_job rid (pre @ c # mid @ [l])))"
proof -
  let ?P = "\<lambda>s. wj_interrupted_at s = None \<or> (\<exists>at \<le> wr_now c. wj_interrupted_at s = Some at)"
  let ?Q = "\<lambda>s. \<not> wj_live s \<or> (\<exists>at \<le> wr_now c. wj_interrupted_at s = Some at)"
  define s1 where "s1 = fst (drive wj_live (watch_turn rid) pre watch_init)"
  define s2 where "s2 = fst (drive wj_live (watch_turn rid) [c] s1)"
  define s3 where "s3 = fst (drive wj_live (watch_turn rid) mid s2)"
  have eq: "fst (watch_stateful_job rid (pre @ c # mid @ [l])) =
      fst (drive wj_live (watch_turn rid) [l] s3)"
    using drive_append [of wj_live "watch_turn rid" pre "[c] @ mid @ [l]" watch_init]
      drive_append [of wj_live "watch_turn rid" "[c]" "mid @ [l]" s1]
      drive_append [of wj_live "watch_turn rid" mid "[l]" s2]
    by (simp add: watch_stateful_job_def s1_def s2_def s3_def Let_def split_beta)
  have pre: "wr_now i \<le> wr_now c" if "i \<in> set pre" for i using assms(1) that by (auto simp: sorted_append)
  have "?P s1" unfolding s1_def
    by (rule drive_keeps [where P = ?P], rule watch_turn_interrupted [OF pre])
      (simp_all add: watch_init_def)
  then have "?Q s2"
    using watch_turn_cancel [OF assms(2) order_refl, of s1 rid]
    by (cases "wj_live s1") (simp_all add: s2_def split_beta)
  then have "?Q s3"
  proof (cases "wj_live s2")
    case True
    with \<open>?Q s2\<close> obtain at where at: "at \<le> wr_now c" "wj_interrupted_at s2 = Some at" by blast
    have "wj_interrupted_at s3 = Some at" unfolding s3_def
      by (rule drive_keeps [where P = "\<lambda>s. wj_interrupted_at s = Some at"]) (simp_all add: watch_turn_keeps at(2))
    with at(1) show ?thesis by blast
  next
    case False
    then have "s3 = s2" by (cases mid) (simp_all add: s3_def)
    with False show ?thesis by simp
  qed
  then show ?thesis
    using assms(3) watch_turn_late [of s3 _ l rid] by (auto simp: eq split_beta)
qed

theorem cancelled_stateful_ends_witness:
  "\<not> wj_live (fst (watch_stateful_job (ExecId ''a'')
     ([] @ \<lparr>wr_completed = False, wr_status = Some ''0'', wr_cancel = True, wr_now = 5, wr_after = 5, wr_open = True\<rparr>
      # [] @ [\<lparr>wr_completed = False, wr_status = Some ''0'', wr_cancel = True, wr_now = 2010, wr_after = 2010,
        wr_open = True\<rparr>])))"
  by (rule cancelled_stateful_ends) (simp_all add: interrupt_grace_def)

end
