(* ===== verification/WorkerCommand.thy ===== *)
theory WorkerCommand
  imports WorkerSession
begin

text \<open>
  The two legacy kinds of work of \<open>shiitake-worker/src/client.rs\<close>: \<open>run_command\<close>, a one-shot command
  beside which the worker watches the dispatch socket, and \<open>run_pty\<close>, a pinned terminal.  As for the
  sessions, one turn of a \<open>select!\<close> loop is one function; the branch that fires is its input.
\<close>

section \<open>A one-shot command\<close>

datatype cmd_input =
    ExecFinished "string + result_frame"
  | CmdLease
  | CmdSocket "message option"

datatype cmd_action = CancelExec | CmdPong bytes | CmdOutput bytes | CmdPurge exec_id

record cmd_state =
  cs_lost :: bool
  cs_result :: "result_frame option"
  cs_over :: bool

definition cmd_init :: cmd_state where
  "cmd_init = \<lparr>cs_lost = False, cs_result = None, cs_over = False\<rparr>"

definition exec_result :: "exec_id \<Rightarrow> string + result_frame \<Rightarrow> result_frame" where
  "exec_result rid r = (case r of Inr x \<Rightarrow> x | Inl e \<Rightarrow> errored rid (''worker error: '' @ e))"

text \<open>Once the session is lost only the end of the child is awaited.\<close>

definition cmd_turn :: "exec_id \<Rightarrow> cmd_state \<Rightarrow> cmd_input \<Rightarrow> cmd_state \<times> cmd_action list" where
  "cmd_turn rid s i =
     (if cs_lost s then
        (case i of ExecFinished _ \<Rightarrow> (s\<lparr>cs_over := True\<rparr>, []) | _ \<Rightarrow> (s, []))
      else case i of
        ExecFinished r \<Rightarrow> (s\<lparr>cs_result := Some (exec_result rid r), cs_over := True\<rparr>, [])
      | CmdLease \<Rightarrow> (s\<lparr>cs_lost := True\<rparr>, [CancelExec])
      | CmdSocket m \<Rightarrow>
          (case m of
            None \<Rightarrow> (s\<lparr>cs_lost := True\<rparr>, [CancelExec])
          | Some Close \<Rightarrow> (s\<lparr>cs_lost := True\<rparr>, [CancelExec])
          | Some (Text (Cancel r)) \<Rightarrow> (s, if r = rid then [CancelExec] else [])
          | Some (Ping p) \<Rightarrow> (s, [CmdPong p])
          | Some _ \<Rightarrow> (s, [])))"

text \<open>The captured output is sent after the command: a stream's file may be missing, fail to open, or
  give some reads and then possibly an error.  \<open>ok\<close> says whether a send succeeds within the lease.\<close>

datatype capture_read = Missing | OpenFailed string | Contents "bytes list" "string option"

datatype send_end = AllSent | SendFailed | SendPanicked

fun send_reads :: "(bytes \<Rightarrow> bool) \<Rightarrow> exec_id \<Rightarrow> output_stream \<Rightarrow> bytes list \<Rightarrow> bytes list \<times> send_end" where
  "send_reads ok rid which [] = ([], AllSent)"
| "send_reads ok rid which (b # bs) =
     (if b = [] then ([], AllSent)
      else case encode \<lparr>chunk_stream = which, chunk_id = eid_str rid, chunk_bytes = b\<rparr> of
        None \<Rightarrow> ([], SendPanicked)
      | Some d \<Rightarrow>
          if ok d then (let (ds, e) = send_reads ok rid which bs in (d # ds, e)) else ([d], SendFailed))"

datatype cmd_outcome = CmdDone result_frame | CmdSessionLost | CmdPanicked

definition output_error :: "string \<Rightarrow> result_frame \<Rightarrow> result_frame" where
  "output_error e r = r\<lparr>res_error := Some (''could not read command output: '' @ e)\<rparr>"

fun send_streams :: "(bytes \<Rightarrow> bool) \<Rightarrow> exec_id \<Rightarrow> (output_stream \<times> capture_read) list \<Rightarrow> result_frame \<Rightarrow>
    cmd_outcome \<times> bytes list" where
  "send_streams ok rid [] r = (CmdDone r, [])"
| "send_streams ok rid ((which, f) # fs) r =
     (case f of
       Missing \<Rightarrow> send_streams ok rid fs r
     | OpenFailed e \<Rightarrow> (CmdDone (output_error e r), [])
     | Contents reads err \<Rightarrow>
         (case send_reads ok rid which reads of
           (ds, AllSent) \<Rightarrow>
             (let r1 = (case err of None \<Rightarrow> r | Some e \<Rightarrow> output_error e r);
                  (out, ds1) = send_streams ok rid fs r1
              in (out, ds @ ds1))
         | (ds, SendFailed) \<Rightarrow> (CmdSessionLost, ds)
         | (ds, SendPanicked) \<Rightarrow> (CmdPanicked, ds)))"

text \<open>\<open>run_command\<close>: no outcome while the inputs are only a prefix.\<close>

definition run_command :: "execute_frame \<Rightarrow> cmd_input list \<Rightarrow> capture_read \<Rightarrow> capture_read \<Rightarrow>
    (bytes \<Rightarrow> bool) \<Rightarrow> cmd_outcome option \<times> cmd_action list" where
  "run_command e is out err ok =
     (let rid = request_id e;
          (s, acts) = drive (\<lambda>s. \<not> cs_over s) (cmd_turn rid) is cmd_init
      in if \<not> cs_over s then (None, acts)
         else case cs_result s of
           None \<Rightarrow> (Some CmdSessionLost, acts)
         | Some r \<Rightarrow>
             (let (oc, ds) = send_streams ok rid [(Stdout, out), (Stderr, err)] r
              in (Some oc, acts @ map CmdOutput ds @ (if oc = CmdPanicked then [] else [CmdPurge rid]))))"

section \<open>A pinned terminal\<close>

datatype pty_input =
    PtyOut "bytes option"
  | PtyLease
  | PtySocket "message option"

datatype pty_action =
    PtySent bytes
  | PtyPong bytes
  | PtyTyped bytes
  | PtySized "16 word" "16 word"
  | PtyHungUp

datatype pty_end = ShellGone | PtyClosed | PtyLost

text \<open>\<open>sink\<close> says whether a send during this turn succeeds.\<close>

definition pty_turn :: "pty_end option \<Rightarrow> bool \<times> pty_input \<Rightarrow> pty_end option \<times> pty_action list" where
  "pty_turn s x = (case x of (sink, i) \<Rightarrow>
     (case i of
       PtyOut None \<Rightarrow> (Some ShellGone, [])
     | PtyOut (Some bs) \<Rightarrow>
         if bs = [] then (Some ShellGone, []) else (if sink then s else Some PtyLost, [PtySent bs])
     | PtyLease \<Rightarrow> (Some PtyLost, [])
     | PtySocket m \<Rightarrow>
         (case m of
           None \<Rightarrow> (Some PtyLost, [])
         | Some Close \<Rightarrow> (Some PtyLost, [])
         | Some (Binary bs) \<Rightarrow> (s, [PtyTyped bs])
         | Some (Text (PtyResize _ cols rows)) \<Rightarrow> (s, [PtySized cols rows])
         | Some (Text (PtyClose _)) \<Rightarrow> (Some PtyClosed, [])
         | Some (Ping p) \<Rightarrow> (if sink then s else Some PtyLost, [PtyPong p])
         | Some _ \<Rightarrow> (s, []))))"

text \<open>\<open>spawn\<close> is the error of opening the terminal, \<open>reap\<close> the status of the shell: exit code and
  signal.\<close>

definition run_pty :: "pty_open_frame \<Rightarrow> string option \<Rightarrow> string + i32 option \<times> i32 option \<Rightarrow>
    (bool \<times> pty_input) list \<Rightarrow> pty_outcome option \<times> pty_action list" where
  "run_pty fr spawn reap is =
     (case spawn of
       Some e \<Rightarrow> (Some (PtyDone (PtyExit (pty_session_id fr) None None (Some e))), [])
     | None \<Rightarrow>
         let (s, acts) = drive (\<lambda>s. s = None) pty_turn is None
         in case s of
           None \<Rightarrow> (None, acts)
         | Some ShellGone \<Rightarrow>
             (Some (PtyDone (case reap of
                Inr (code, signal) \<Rightarrow> PtyExit (pty_session_id fr) code signal None
              | Inl e \<Rightarrow> PtyExit (pty_session_id fr) None None (Some (''could not reap shell: '' @ e)))), acts)
         | Some PtyClosed \<Rightarrow> (Some (PtyDone (PtyExit (pty_session_id fr) None None None)), acts @ [PtyHungUp])
         | Some PtyLost \<Rightarrow> (Some PtySessionLost, acts @ [PtyHungUp]))"

end
