(* ===== verification/WorkerLoop.thy ===== *)
theory WorkerLoop
  imports WorkerCommand
begin

text \<open>
  The resident worker of \<open>shiitake-worker/src/client.rs\<close>: its configuration, the handshake, the wait for
  work between resets, and the four phases of \<open>serve_session\<close> (wait, run, reset, report) inside the
  reconnect loop \<open>run\<close>.  A process is given by the scripts of what its connections meet, and gives the
  trace of what it does.
\<close>

section \<open>Configuration\<close>

record client_config =
  cfg_worker_id :: string
  cfg_profile :: string
  cfg_dispatch_url :: string
  cfg_dispatch_token :: string
  cfg_pod_name :: string
  cfg_pod_namespace :: string
  cfg_container_name :: string
  cfg_capture_root :: string
  cfg_reset_paths :: string
  cfg_restart_after :: "64 word"
  cfg_lease_timeout_secs :: "64 word"

definition scratch_paths :: "client_config \<Rightarrow> string list" where
  "scratch_paths cfg = filter (\<lambda>s. s \<noteq> []) (map trim (split_char (CHR '','') (cfg_reset_paths cfg)))"

definition location :: "client_config \<Rightarrow> worker_location option" where
  "location cfg =
     (if cfg_pod_name cfg = [] \<or> cfg_pod_namespace cfg = [] then None
      else Some \<lparr>pod = cfg_pod_name cfg, namespace = cfg_pod_namespace cfg,
        container = (if cfg_container_name cfg = [] then cfg_worker_id cfg else cfg_container_name cfg)\<rparr>)"

section \<open>The handshake\<close>

datatype hello_action = HelloPong bytes | SentIncompatible result_frame

definition incompatible_message :: string where
  "incompatible_message = ''incompatible dispatcher protocol; command was not run''"

text \<open>The messages until the acknowledgement, each with whether a send answering it succeeds; the
  rejection of a command goes out as a \<open>Result\<close> with the removed field \<open>timed_out\<close> added.\<close>

fun handshake :: "(bool \<times> message option) list \<Rightarrow> (string + unit) option \<times> hello_action list" where
  "handshake [] = (None, [])"
| "handshake ((sink, m) # ms) =
     (case m of
       None \<Rightarrow> (Some (Inl ''dispatcher closed before protocol acknowledgement''), [])
     | Some Close \<Rightarrow> (Some (Inl ''dispatcher closed before protocol acknowledgement''), [])
     | Some (BadText e) \<Rightarrow> (Some (Inl e), [])
     | Some (Text (HelloAck v)) \<Rightarrow>
         (if v = PROTOCOL_VERSION then (Some (Inr ()), [])
          else (Some (Inl ''unexpected dispatcher handshake frame''), []))
     | Some (Text (Execute e)) \<Rightarrow>
         (Some (Inl (if sink then ''dispatcher did not acknowledge protocol version'' else ''send'')),
          [SentIncompatible (errored (request_id e) incompatible_message)])
     | Some (Text _) \<Rightarrow> (Some (Inl ''unexpected dispatcher handshake frame''), [])
     | Some (Ping p) \<Rightarrow>
         (if sink then (let (r, acts) = handshake ms in (r, HelloPong p # acts))
          else (Some (Inl ''send''), [HelloPong p]))
     | Some _ \<Rightarrow> handshake ms)"

section \<open>Waiting for work\<close>

datatype work = WorkExecute execute_frame | WorkPty pty_open_frame | WorkSession session_open_frame

datatype idle_input = IdleLapsed | IdleMessage message | IdleEnded | IdleError string

text \<open>\<open>next_execute\<close>: work, the end of the session (\<open>Inr None\<close>), an error, or still waiting.  A failed
  answer to a ping is only logged.\<close>

fun next_execute :: "idle_input list \<Rightarrow> (string + work option) option" where
  "next_execute [] = None"
| "next_execute (i # is) =
     (case i of
       IdleLapsed \<Rightarrow> Some (Inr None)
     | IdleEnded \<Rightarrow> Some (Inr None)
     | IdleError e \<Rightarrow> Some (Inl e)
     | IdleMessage m \<Rightarrow>
         (case m of
           Text (Execute e) \<Rightarrow> Some (Inr (Some (WorkExecute e)))
         | Text (PtyOpen p) \<Rightarrow> Some (Inr (Some (WorkPty p)))
         | Text (SessionOpen s) \<Rightarrow> Some (Inr (Some (WorkSession s)))
         | Text _ \<Rightarrow> next_execute is
         | BadText e \<Rightarrow> Some (Inl e)
         | Close \<Rightarrow> Some (Inr None)
         | _ \<Rightarrow> next_execute is))"

section \<open>The reset\<close>

datatype reset_outcome = ResetOk | ResetErr string | ResetPanic

datatype reset_input = ResetDone reset_outcome | ResetSocket "message option"

text \<open>The reset runs to its end whatever the socket does; after the socket is lost it is not read any
  more.  The pongs sent meanwhile are the second component.\<close>

fun reset_phase :: "bool \<Rightarrow> reset_input list \<Rightarrow> reset_outcome option \<times> bytes list" where
  "reset_phase lost [] = (None, [])"
| "reset_phase lost (ResetDone r # is) = (Some r, [])"
| "reset_phase lost (ResetSocket m # is) =
     (if lost then reset_phase lost is
      else case m of
        None \<Rightarrow> reset_phase True is
      | Some Close \<Rightarrow> reset_phase True is
      | Some (Ping p) \<Rightarrow> (let (r, ps) = reset_phase lost is in (r, p # ps))
      | Some _ \<Rightarrow> reset_phase lost is)"

section \<open>Serving one connection\<close>

text \<open>What one round of the loop meets: the messages until work comes, the inputs of each kind of work
  (only those of the kind that came are used), the reset, and whether the report can be sent.\<close>

record round_script =
  rd_idle :: "idle_input list"
  rd_cmd :: "cmd_input list"
  rd_out :: capture_read
  rd_err :: capture_read
  rd_send :: "bytes \<Rightarrow> bool"
  rd_spawn :: "string option"
  rd_pty :: "(bool \<times> pty_input) list"
  rd_reap :: "string + i32 option \<times> i32 option"
  rd_ready :: bool
  rd_home :: "drop_to \<Rightarrow> string + string option"
  rd_session :: "(session_world \<times> session_input) list"
  rd_reset :: "reset_input list"
  rd_report :: bool

datatype worker_action =
    WorkStarted work
  | InCommand cmd_action
  | InPty pty_action
  | InSession session_action
  | ResetFinished reset_outcome
  | ResetPong bytes
  | Reported frame bool
  | SocketClosed

datatype work_end = EndReport frame | EndLost | EndPanic

text \<open>Phase 2.\<close>

definition run_work :: "round_script \<Rightarrow> work \<Rightarrow> work_end option \<times> worker_action list" where
  "run_work rd wk =
     (case wk of
       WorkExecute e \<Rightarrow>
         (let (oc, acts) = run_command e (rd_cmd rd) (rd_out rd) (rd_err rd) (rd_send rd)
          in (map_option (\<lambda>x. case x of CmdDone r \<Rightarrow> EndReport (Result r)
                | CmdSessionLost \<Rightarrow> EndLost | CmdPanicked \<Rightarrow> EndPanic) oc, map InCommand acts))
     | WorkPty p \<Rightarrow>
         (let (oc, acts) = run_pty p (rd_spawn rd) (rd_reap rd) (rd_pty rd)
          in (map_option (\<lambda>x. case x of PtyDone f \<Rightarrow> EndReport f | PtySessionLost \<Rightarrow> EndLost) oc, map InPty acts))
     | WorkSession s \<Rightarrow>
         (let (oc, acts) = run_session s (rd_spawn rd) (rd_ready rd) (rd_home rd) (rd_session rd)
          in (map_option (\<lambda>x. case x of PtyDone f \<Rightarrow> EndReport f | PtySessionLost \<Rightarrow> EndLost) oc, map InSession acts)))"

text \<open>Phase 4: the terminal frame of a session says whether the worker can be reused.\<close>

definition final_frame :: "bool \<Rightarrow> bool \<Rightarrow> frame \<Rightarrow> frame" where
  "final_frame reset_failed exiting f =
     (case f of
       SessionClosed sid err _ \<Rightarrow>
         SessionClosed sid (if reset_failed then Some ''sandbox reset failed'' else err)
           (\<not> reset_failed \<and> \<not> exiting)
     | _ \<Rightarrow> f)"

datatype session_end = RestartQuotaReached | ResetFailed | SessionClosedEnd | LostMidCommand

datatype round_end = RoundAgain | RoundEnd "string + session_end" | RoundStuck

text \<open>One round.  \<open>RoundStuck\<close> stands for a script that ends inside the round and for a panic.\<close>

definition serve_round :: "client_config \<Rightarrow> round_script \<Rightarrow> 64 word \<Rightarrow>
    round_end \<times> 64 word \<times> worker_action list" where
  "serve_round cfg rd served =
     (case next_execute (rd_idle rd) of
       None \<Rightarrow> (RoundStuck, served, [])
     | Some (Inl e) \<Rightarrow> (RoundEnd (Inl e), served, [])
     | Some (Inr None) \<Rightarrow> (RoundEnd (Inr SessionClosedEnd), served, [])
     | Some (Inr (Some wk)) \<Rightarrow>
         (case run_work rd wk of
           (None, acts) \<Rightarrow> (RoundStuck, served, WorkStarted wk # acts)
         | (Some EndPanic, acts) \<Rightarrow> (RoundStuck, served, WorkStarted wk # acts)
         | (Some EndLost, acts) \<Rightarrow> (RoundEnd (Inr LostMidCommand), served, WorkStarted wk # acts)
         | (Some (EndReport f), acts) \<Rightarrow>
             (let served1 = served + 1;
                  exiting = (cfg_restart_after cfg \<noteq> 0 \<and> cfg_restart_after cfg \<le> served1);
                  (outcome, pongs) = (if exiting then (Some ResetOk, []) else reset_phase False (rd_reset rd));
                  trace1 = WorkStarted wk # acts @ map ResetPong pongs
              in case outcome of
                None \<Rightarrow> (RoundStuck, served1, trace1)
              | Some r \<Rightarrow>
                  (let reset_failed = (r \<noteq> ResetOk);
                       trace2 = trace1 @ (if exiting then [] else [ResetFinished r])
                         @ [Reported (final_frame reset_failed exiting f) (rd_report rd)]
                   in if \<not> rd_report rd then (RoundEnd (Inr SessionClosedEnd), served1, trace2)
                      else if exiting then (RoundEnd (Inr RestartQuotaReached), served1, trace2 @ [SocketClosed])
                      else if reset_failed then (RoundEnd (Inr ResetFailed), served1, trace2 @ [SocketClosed])
                      else (RoundAgain, served1, trace2)))))"

fun serve_rounds :: "client_config \<Rightarrow> round_script list \<Rightarrow> 64 word \<Rightarrow>
    (string + session_end) option \<times> 64 word \<times> worker_action list" where
  "serve_rounds cfg [] served = (None, served, [])"
| "serve_rounds cfg (rd # rds) served =
     (case serve_round cfg rd served of
       (RoundAgain, served1, acts) \<Rightarrow>
         (let (r, served2, acts2) = serve_rounds cfg rds served1 in (r, served2, acts @ acts2))
     | (RoundEnd r, served1, acts) \<Rightarrow> (Some r, served1, acts)
     | (RoundStuck, served1, acts) \<Rightarrow> (None, served1, acts))"

definition hello_frame :: "client_config \<Rightarrow> frame" where
  "hello_frame cfg = Hello (WorkerId (cfg_worker_id cfg)) PROTOCOL_VERSION (cfg_profile cfg) (location cfg)"

text \<open>A connection: the error of connecting and sending \<open>Hello\<close>, the handshake, and the rounds.\<close>

record conn_script =
  cn_connect :: "string option"
  cn_hello :: "(bool \<times> message option) list"
  cn_rounds :: "round_script list"

definition serve_session :: "client_config \<Rightarrow> conn_script \<Rightarrow> 64 word \<Rightarrow>
    (string + session_end) option \<times> 64 word \<times> worker_action list" where
  "serve_session cfg cn served =
     (case cn_connect cn of
       Some e \<Rightarrow> (Some (Inl e), served, [])
     | None \<Rightarrow>
         (case fst (handshake (cn_hello cn)) of
           None \<Rightarrow> (Some (Inl ''dispatcher protocol acknowledgement timed out''), served, [])
         | Some (Inl e) \<Rightarrow> (Some (Inl e), served, [])
         | Some (Inr _) \<Rightarrow> serve_rounds cfg (cn_rounds cn) served))"

text \<open>\<open>run\<close>: the end of the process, if it came.\<close>

fun run_worker :: "client_config \<Rightarrow> conn_script list \<Rightarrow> 64 word \<Rightarrow>
    session_end option \<times> 64 word \<times> worker_action list" where
  "run_worker cfg [] served = (None, served, [])"
| "run_worker cfg (cn # cns) served =
     (case serve_session cfg cn served of
       (Some (Inr SessionClosedEnd), served1, acts) \<Rightarrow>
         (let (r, served2, acts2) = run_worker cfg cns served1 in (r, served2, acts @ acts2))
     | (Some (Inl e), served1, acts) \<Rightarrow>
         (let (r, served2, acts2) = run_worker cfg cns served1 in (r, served2, acts @ acts2))
     | (Some (Inr x), served1, acts) \<Rightarrow> (Some x, served1, acts)
     | (None, served1, acts) \<Rightarrow> (None, served1, acts))"

section \<open>The sandbox discipline\<close>

text \<open>A reader of the trace who knows whether the sandbox is clean or holds the leftovers of some work.
  Only a successful reset cleans it; a reader of a report that could not be sent gives up until the next
  work.  A session may only be reported reusable on a clean sandbox.\<close>

datatype sandbox = Clean | Dirty | Unreported

definition sandbox_watch :: "sandbox \<Rightarrow> worker_action \<Rightarrow> sandbox option" where
  "sandbox_watch m a =
     (case a of
       WorkStarted _ \<Rightarrow> if m = Dirty then None else Some Dirty
     | ResetFinished r \<Rightarrow> Some (if m = Dirty \<and> r = ResetOk then Clean else m)
     | Reported f sent \<Rightarrow>
         if \<not> sent then Some Unreported
         else (case f of SessionClosed _ _ True \<Rightarrow> if m = Clean then Some m else None | _ \<Rightarrow> Some m)
     | _ \<Rightarrow> Some m)"

definition inner :: "worker_action \<Rightarrow> bool" where
  "inner a = (case a of InCommand _ \<Rightarrow> True | InPty _ \<Rightarrow> True | InSession _ \<Rightarrow> True | ResetPong _ \<Rightarrow> True | _ \<Rightarrow> False)"

lemma sandbox_inner: "inner a \<Longrightarrow> sandbox_watch d a = Some d"
  by (auto simp: inner_def sandbox_watch_def split: worker_action.splits)

lemma monitor_inner: "list_all inner as \<Longrightarrow> monitor sandbox_watch d as = Some d"
  by (rule monitor_neutral) (simp add: list_all_iff sandbox_inner)

lemma run_work_inner: "run_work rd wk = (oc, acts) \<Longrightarrow> list_all inner acts"
  by (auto simp: run_work_def inner_def list_all_iff split: work.splits prod.splits)

lemma inner_pongs: "list_all inner (map ResetPong ps)"
  by (simp add: inner_def list_all_iff)

text \<open>The ways a round can end, with the trace it leaves.\<close>

lemma serve_round_cases:
  assumes "serve_round cfg rd served = (e, n, acts)"
  obtains (idle) "acts = []" "e \<noteq> RoundAgain" "n = served" "\<forall>x. e = RoundEnd (Inr x) \<longrightarrow> x = SessionClosedEnd"
  | (broken) wk as where "acts = WorkStarted wk # as" "list_all inner as"
      "e = RoundStuck \<or> e = RoundEnd (Inr LostMidCommand)"
  | (reported) wk as f r exiting where
      "exiting = (cfg_restart_after cfg \<noteq> 0 \<and> cfg_restart_after cfg \<le> served + 1)" "n = served + 1"
      "acts = WorkStarted wk # as @ (if exiting then [] else [ResetFinished r])
        @ [Reported (final_frame (r \<noteq> ResetOk) exiting f) (rd_report rd)]
        @ (if rd_report rd \<and> (exiting \<or> r \<noteq> ResetOk) then [SocketClosed] else [])"
      "list_all inner as" "exiting \<Longrightarrow> r = ResetOk"
      "e = (if \<not> rd_report rd then RoundEnd (Inr SessionClosedEnd)
        else if exiting then RoundEnd (Inr RestartQuotaReached)
        else if r \<noteq> ResetOk then RoundEnd (Inr ResetFailed) else RoundAgain)"
proof (cases "\<exists>wk. next_execute (rd_idle rd) = Some (Inr (Some wk))")
  case False
  then show thesis using assms idle
    by (auto simp: serve_round_def split: option.splits sum.splits)
next
  case True
  then obtain wk where wk: "next_execute (rd_idle rd) = Some (Inr (Some wk))" by blast
  obtain oc as where work: "run_work rd wk = (oc, as)" by fastforce
  note as = run_work_inner [OF work]
  show thesis
  proof (cases "\<exists>f. oc = Some (EndReport f)")
    case False
    then show thesis using assms wk work as broken
      by (auto simp: serve_round_def split: option.splits work_end.splits)
  next
    case True
    then obtain f where f: "oc = Some (EndReport f)" by blast
    define exiting where "exiting = (cfg_restart_after cfg \<noteq> 0 \<and> cfg_restart_after cfg \<le> served + 1)"
    obtain out ps where ph: "(if exiting then (Some ResetOk, []) else reset_phase False (rd_reset rd)) = (out, ps)"
      by fastforce
    have all: "list_all inner (as @ map ResetPong ps)" using as inner_pongs by simp
    have exit: "exiting \<Longrightarrow> out = Some ResetOk" using ph by (simp split: if_splits)
    show thesis
    proof (cases out)
      case None
      with assms wk work f ph all show thesis
        by (intro broken) (auto simp: serve_round_def exiting_def [symmetric] Let_def)
    next
      case (Some r)
      show thesis
        by (rule reported [OF exiting_def, where as = "as @ map ResetPong ps" and r = r and f = f and wk = wk])
          (use assms wk work f ph all exit Some in
            \<open>auto simp: serve_round_def exiting_def [symmetric] Let_def split: if_splits\<close>)
    qed
  qed
qed

lemma final_frame_reusable:
  "final_frame failed exiting f = SessionClosed sid err True \<Longrightarrow> \<not> failed \<and> \<not> exiting"
  by (cases f) (auto simp: final_frame_def)

lemma sandbox_report:
  assumes "m \<noteq> Clean \<Longrightarrow> failed \<or> exiting"
  shows "sandbox_watch m (Reported (final_frame failed exiting f) sent) = Some (if sent then m else Unreported)"
  using assms final_frame_reusable [of failed exiting f]
  by (auto simp: sandbox_watch_def split: frame.splits bool.splits)

lemma serve_round_watch:
  assumes "serve_round cfg rd served = (e, n, acts)" and m: "m \<noteq> Dirty"
  shows "\<exists>d. monitor sandbox_watch m acts = Some d \<and>
    (d = Dirty \<longrightarrow> (\<forall>x. e \<noteq> RoundEnd (Inl x)) \<and> e \<noteq> RoundAgain \<and> e \<noteq> RoundEnd (Inr SessionClosedEnd))"
  using assms(1)
proof (cases rule: serve_round_cases)
  case idle
  with m show ?thesis by (intro exI [of _ m]) auto
next
  case (broken wk as)
  with m show ?thesis by (intro exI [of _ Dirty]) (auto simp: sandbox_watch_def monitor_inner)
next
  case (reported wk as f r exiting)
  have s: "sandbox_watch m (WorkStarted wk) = Some Dirty" "\<And>d. sandbox_watch d SocketClosed = Some d"
    "\<And>q. sandbox_watch Dirty (ResetFinished q) = Some (if q = ResetOk then Clean else Dirty)"
    using m by (simp_all add: sandbox_watch_def)
  let ?c = "if exiting \<or> r \<noteq> ResetOk then Dirty else Clean"
  let ?d = "if rd_report rd then ?c else Unreported"
  have m1: "monitor sandbox_watch Dirty as = Some Dirty" using reported(4) by (rule monitor_inner)
  have m2: "monitor sandbox_watch Dirty (if exiting then [] else [ResetFinished r]) = Some ?c"
    using reported(5) by (simp add: s(3))
  have m3: "monitor sandbox_watch ?c [Reported (final_frame (r \<noteq> ResetOk) exiting f) (rd_report rd)] = Some ?d"
    by (subst monitor.simps(2), subst sandbox_report) (auto split: if_splits)
  have m4: "monitor sandbox_watch d (if b then [SocketClosed] else []) = Some d" for b d
    by (simp add: s(2))
  have "monitor sandbox_watch m acts = Some ?d"
    unfolding reported(3)
    by (simp only: monitor.simps(2) [of _ _ "WorkStarted wk"] s(1) monitor_append m1 m2 m3 m4 option.case)
  then show ?thesis
    by (intro exI [of _ ?d]) (use reported(6) in \<open>auto split: if_splits\<close>)
qed

lemma serve_rounds_watch:
  "serve_rounds cfg rds served = (e, n, acts) \<Longrightarrow> m \<noteq> Dirty \<Longrightarrow> \<exists>d. monitor sandbox_watch m acts = Some d \<and>
    (d = Dirty \<longrightarrow> (\<forall>x. e \<noteq> Some (Inl x)) \<and> e \<noteq> Some (Inr SessionClosedEnd))"
proof (induction rds arbitrary: m served e n acts)
  case Nil
  then show ?case by (intro exI [of _ m]) simp
next
  case (Cons rd rds)
  obtain e1 n1 a1 where r1: "serve_round cfg rd served = (e1, n1, a1)" by (metis prod_cases3)
  from serve_round_watch [OF r1 Cons.prems(2)] obtain d where d: "monitor sandbox_watch m a1 = Some d"
    "d = Dirty \<longrightarrow> (\<forall>x. e1 \<noteq> RoundEnd (Inl x)) \<and> e1 \<noteq> RoundAgain \<and> e1 \<noteq> RoundEnd (Inr SessionClosedEnd)"
    by blast
  show ?case
  proof (cases e1)
    case RoundAgain
    obtain e2 n2 a2 where r2: "serve_rounds cfg rds n1 = (e2, n2, a2)" by (metis prod_cases3)
    from Cons.prems(1) r1 r2 RoundAgain have eq: "e = e2" "acts = a1 @ a2" by simp_all
    have "d \<noteq> Dirty" using d(2) RoundAgain by blast
    from Cons.IH [OF r2 this] d(1) show ?thesis by (simp add: eq monitor_append)
  qed (use Cons.prems r1 d in auto)
qed

lemma serve_session_watch:
  assumes "serve_session cfg cn served = (e, n, acts)" and m: "m \<noteq> Dirty"
  shows "\<exists>d. monitor sandbox_watch m acts = Some d \<and>
    (d = Dirty \<longrightarrow> (\<forall>x. e \<noteq> Some (Inl x)) \<and> e \<noteq> Some (Inr SessionClosedEnd))"
proof (cases "acts = []")
  case True
  with m show ?thesis by (intro exI [of _ m]) simp
next
  case False
  with assms(1) have "serve_rounds cfg (cn_rounds cn) served = (e, n, acts)"
    by (auto simp: serve_session_def split: option.splits sum.splits)
  from serve_rounds_watch [OF this m] show ?thesis .
qed

lemma run_worker_watch:
  "run_worker cfg cns served = (e, n, acts) \<Longrightarrow> m \<noteq> Dirty \<Longrightarrow> monitor sandbox_watch m acts \<noteq> None"
proof (induction cns arbitrary: m served e n acts)
  case Nil
  then show ?case by simp
next
  case (Cons cn cns)
  obtain e1 n1 a1 where r1: "serve_session cfg cn served = (e1, n1, a1)" by (metis prod_cases3)
  from serve_session_watch [OF r1 Cons.prems(2)] obtain d where d: "monitor sandbox_watch m a1 = Some d"
    "d = Dirty \<longrightarrow> (\<forall>x. e1 \<noteq> Some (Inl x)) \<and> e1 \<noteq> Some (Inr SessionClosedEnd)" by blast
  obtain e2 n2 a2 where r2: "run_worker cfg cns n1 = (e2, n2, a2)" by (metis prod_cases3)
  show ?case
  proof (cases "(\<exists>x. e1 = Some (Inl x)) \<or> e1 = Some (Inr SessionClosedEnd)")
    case True
    with Cons.prems r1 r2 have "acts = a1 @ a2" by auto
    moreover have "d \<noteq> Dirty" using d(2) True by auto
    ultimately show ?thesis using d(1) Cons.IH [OF r2] by (simp add: monitor_append)
  next
    case False
    with Cons.prems r1 have "acts = a1"
      by (auto split: option.splits sum.splits session_end.splits)
    with d(1) show ?thesis by simp
  qed
qed

text \<open>What has happened between some work and an effect that some states of the sandbox forbid.\<close>

lemma happened_between:
  assumes "run_worker cfg cns served = (r, n, us @ WorkStarted w # vs @ a # ws)"
    and need: "\<And>m. holds m \<Longrightarrow> sandbox_watch m a = None" and "holds Dirty"
    and keep: "\<And>x b y. sandbox_watch x b = Some y \<Longrightarrow> holds x \<Longrightarrow> \<not> ends b \<Longrightarrow> holds y"
  shows "\<exists>b \<in> set vs. ends b"
proof -
  from run_worker_watch [OF assms(1), of Clean] obtain d0
    where "monitor sandbox_watch Clean (us @ WorkStarted w # vs @ a # ws) = Some d0" by auto
  then obtain m0 m1 where w: "sandbox_watch m0 (WorkStarted w) = Some m1"
    and r: "monitor sandbox_watch m1 (vs @ a # ws) = Some d0" by (rule monitor_at)
  from r obtain m2 m3 where vs: "monitor sandbox_watch m1 vs = Some m2" and a: "sandbox_watch m2 a = Some m3"
    by (rule monitor_at)
  have "m1 = Dirty" using w by (simp add: sandbox_watch_def split: if_splits)
  moreover have "\<not> holds m2" using a need by force
  ultimately show ?thesis
    using assms(3) by (intro monitor_until [OF vs, where holds = holds]) (simp_all add: keep)
qed

definition cleans :: "worker_action \<Rightarrow> bool" where
  "cleans a = (case a of ResetFinished r \<Rightarrow> r = ResetOk | Reported _ sent \<Rightarrow> \<not> sent | _ \<Rightarrow> False)"

lemma cleans_iff: "cleans a \<longleftrightarrow> a = ResetFinished ResetOk \<or> (\<exists>f. a = Reported f False)"
  by (cases a) (auto simp: cleans_def)

lemma keeps_dirty: "sandbox_watch x a = Some y \<Longrightarrow> x = Dirty \<Longrightarrow> \<not> cleans a \<Longrightarrow> y = Dirty"
  by (auto simp: sandbox_watch_def cleans_def split: worker_action.splits if_splits frame.splits bool.splits)

lemma keeps_not_clean:
  "sandbox_watch x a = Some y \<Longrightarrow> x \<noteq> Clean \<Longrightarrow> a \<noteq> ResetFinished ResetOk \<Longrightarrow> y \<noteq> Clean"
  by (auto simp: sandbox_watch_def split: worker_action.splits if_splits frame.splits bool.splits)

section \<open>Properties\<close>

definition demo_client :: client_config where
  "demo_client = \<lparr>cfg_worker_id = ''w'', cfg_profile = ''default'', cfg_dispatch_url = [], cfg_dispatch_token = ''t'',
     cfg_pod_name = [], cfg_pod_namespace = [], cfg_container_name = [], cfg_capture_root = ''/capture'',
     cfg_reset_paths = [], cfg_restart_after = 0, cfg_lease_timeout_secs = 45\<rparr>"

definition demo_round :: "string \<Rightarrow> reset_outcome \<Rightarrow> bool \<Rightarrow> round_script" where
  "demo_round i reset sent = \<lparr>rd_idle = [IdleMessage (Ping []), IdleMessage (Text (Execute (demo_cmd i)))],
     rd_cmd = [ExecFinished (Inr (demo_result i))], rd_out = Missing, rd_err = Missing, rd_send = (\<lambda>_. True),
     rd_spawn = None, rd_pty = [], rd_reap = Inl [], rd_ready = True, rd_home = (\<lambda>_. Inr None),
     rd_session = [], rd_reset = [ResetSocket None, ResetDone reset], rd_report = sent\<rparr>"

definition demo_conn :: "round_script list \<Rightarrow> conn_script" where
  "demo_conn rds = \<lparr>cn_connect = None, cn_hello = [(True, Some (Text (HelloAck PROTOCOL_VERSION)))],
     cn_rounds = rds\<rparr>"

lemma demo_worker_trace:
  "snd (snd (run_worker demo_client [demo_conn [demo_round ''a'' ResetOk True, demo_round ''b'' ResetOk True]] 0)) =
    [WorkStarted (WorkExecute (demo_cmd ''a'')), InCommand (CmdPurge (ExecId ''a'')), ResetFinished ResetOk,
     Reported (Result (demo_result ''a'')) True,
     WorkStarted (WorkExecute (demo_cmd ''b'')), InCommand (CmdPurge (ExecId ''b'')), ResetFinished ResetOk,
     Reported (Result (demo_result ''b'')) True]"
  by code_simp

text \<open>
  C2: A worker process never starts work in the leftovers of earlier work, over all its connections: in
  every trace, between the starts of two pieces of work the sandbox has been reset with success, or the
  report of some work in between could not be sent.
\<close>

theorem work_starts_clean:
  assumes "run_worker cfg cns served = (r, n, us @ WorkStarted w1 # vs @ WorkStarted w2 # ws)"
  shows "ResetFinished ResetOk \<in> set vs \<or> (\<exists>f. Reported f False \<in> set vs)"
proof -
  have "\<exists>b \<in> set vs. cleans b"
    by (rule happened_between [OF assms, where holds = "\<lambda>m. m = Dirty"])
      (simp add: sandbox_watch_def, simp, rule keeps_dirty)
  then show ?thesis by (auto simp: cleans_iff)
qed

theorem work_starts_clean_witness:
  "ResetFinished ResetOk \<in> set [InCommand (CmdPurge (ExecId ''a'')), ResetFinished ResetOk,
     Reported (Result (demo_result ''a'')) True]
   \<or> (\<exists>f. Reported f False \<in> set [InCommand (CmdPurge (ExecId ''a'')), ResetFinished ResetOk,
     Reported (Result (demo_result ''a'')) True])"
proof -
  let ?t = "run_worker demo_client [demo_conn [demo_round ''a'' ResetOk True, demo_round ''b'' ResetOk True]] 0"
  have "?t = (fst ?t, fst (snd ?t), [] @ WorkStarted (WorkExecute (demo_cmd ''a'')) #
     [InCommand (CmdPurge (ExecId ''a'')), ResetFinished ResetOk, Reported (Result (demo_result ''a'')) True] @
     WorkStarted (WorkExecute (demo_cmd ''b'')) # [InCommand (CmdPurge (ExecId ''b'')), ResetFinished ResetOk,
     Reported (Result (demo_result ''b'')) True])"
    by (simp only: prod_eq_iff demo_worker_trace fst_conv snd_conv append.simps)
  from work_starts_clean [OF this] show ?thesis .
qed

text \<open>
  The exception is real: when the report cannot be sent, the worker reconnects even if the reset had
  failed, and serves the next command on the sandbox of the previous one.
\<close>

theorem lost_report_reuses_failed_reset:
  "case run_worker demo_client [demo_conn [demo_round ''a'' (ResetErr ''busy'') False],
       demo_conn [demo_round ''b'' ResetOk True]] 0 of
     (r, n, acts) \<Rightarrow> acts =
       [WorkStarted (WorkExecute (demo_cmd ''a'')), InCommand (CmdPurge (ExecId ''a'')),
        ResetFinished (ResetErr ''busy''), Reported (Result (demo_result ''a'')) False,
        WorkStarted (WorkExecute (demo_cmd ''b'')), InCommand (CmdPurge (ExecId ''b'')), ResetFinished ResetOk,
        Reported (Result (demo_result ''b'')) True]"
  by code_simp

text \<open>The same happens when the reset had been skipped because the process was about to exit.\<close>

lemma lost_report_skips_reset_and_exit:
  "case run_worker (demo_client\<lparr>cfg_restart_after := 1\<rparr>) [demo_conn [demo_round ''a'' ResetOk False],
       demo_conn [demo_round ''b'' ResetOk True]] 0 of
     (r, n, acts) \<Rightarrow> r = Some RestartQuotaReached \<and> n = 2 \<and> acts =
       [WorkStarted (WorkExecute (demo_cmd ''a'')), InCommand (CmdPurge (ExecId ''a'')),
        Reported (Result (demo_result ''a'')) False,
        WorkStarted (WorkExecute (demo_cmd ''b'')), InCommand (CmdPurge (ExecId ''b'')),
        Reported (Result (demo_result ''b'')) True, SocketClosed]"
  by code_simp

text \<open>
  A session is reported reusable only on a clean sandbox: whenever a worker has told the server that
  a session is closed and the worker can be reused, the sandbox has been reset with success since the
  work before it was started.
\<close>

theorem reusable_means_reset:
  assumes "run_worker cfg cns served = (r, n, us @ WorkStarted w # vs @ Reported (SessionClosed sid err True) True # ws)"
  shows "ResetFinished ResetOk \<in> set vs"
proof -
  have "\<exists>b \<in> set vs. b = ResetFinished ResetOk"
    by (rule happened_between [OF assms, where holds = "\<lambda>m. m \<noteq> Clean"])
      (simp add: sandbox_watch_def, simp, rule keeps_not_clean)
  then show ?thesis by simp
qed

definition demo_session_round :: round_script where
  "demo_session_round = (demo_round [] ResetOk True)\<lparr>
     rd_idle := [IdleMessage (Text (SessionOpen demo_host_open))],
     rd_session := [(demo_outside, Socket (Some (Text (SessionClose (SessionId ''s'')))))]\<rparr>"

theorem reusable_means_reset_witness:
  "ResetFinished ResetOk \<in> set [InSession (SendFrame (SessionReady (SessionId ''s'') None)), InSession PtyShutdown,
     ResetFinished ResetOk]"
proof -
  let ?t = "run_worker demo_client [demo_conn [demo_session_round]] 0"
  have "snd (snd ?t) = [WorkStarted (WorkSession demo_host_open),
      InSession (SendFrame (SessionReady (SessionId ''s'') None)), InSession PtyShutdown, ResetFinished ResetOk,
      Reported (SessionClosed (SessionId ''s'') None True) True]"
    by code_simp
  then have "?t = (fst ?t, fst (snd ?t), [] @ WorkStarted (WorkSession demo_host_open) #
      [InSession (SendFrame (SessionReady (SessionId ''s'') None)), InSession PtyShutdown, ResetFinished ResetOk] @
      Reported (SessionClosed (SessionId ''s'') None True) True # [])"
    by (simp only: prod_eq_iff fst_conv snd_conv append.simps)
  from reusable_means_reset [OF this] show ?thesis .
qed

text \<open>The work a process starts.\<close>

definition works_started :: "worker_action list \<Rightarrow> nat" where
  "works_started acts = length (filter (\<lambda>a. case a of WorkStarted _ \<Rightarrow> True | _ \<Rightarrow> False) acts)"

lemma works_started_simps [simp]: "works_started [] = 0"
  "works_started (as @ bs) = works_started as + works_started bs"
  "works_started (WorkStarted w # as) = Suc (works_started as)"
  "works_started (Reported f b # as) = works_started as"
  "works_started (ResetFinished r # as) = works_started as"
  "works_started (SocketClosed # as) = works_started as"
  by (simp_all add: works_started_def)

lemma works_started_inner: "list_all inner as \<Longrightarrow> works_started as = 0"
  by (auto simp: works_started_def list_all_iff inner_def filter_empty_conv split: worker_action.splits)

definition delivered :: "worker_action list \<Rightarrow> bool" where
  "delivered acts \<longleftrightarrow> list_all (\<lambda>a. case a of Reported _ sent \<Rightarrow> sent | _ \<Rightarrow> True) acts"

lemma serve_round_quota:
  assumes "serve_round cfg rd served = (e, n, acts)" and "served < cfg_restart_after cfg" and "delivered acts"
  shows "unat served + works_started acts \<le> unat (cfg_restart_after cfg)"
    and "e = RoundAgain \<or> e = RoundEnd (Inr SessionClosedEnd) \<or> (\<exists>x. e = RoundEnd (Inl x)) \<Longrightarrow>
      n < cfg_restart_after cfg \<and> unat served + works_started acts = unat n"
proof -
  have lt: "unat served < unat (cfg_restart_after cfg)" using assms(2) by (simp add: word_less_nat_alt)
  have "unat (cfg_restart_after cfg) < 2 ^ 64" using unsigned_less [of "cfg_restart_after cfg"] by simp
  with lt have suc: "unat (served + 1) = Suc (unat served)"
    by (simp add: unat_word_ariths(1) mod_less)
  note facts = works_started_inner
  from assms(1) have "unat served + works_started acts \<le> unat (cfg_restart_after cfg) \<and>
     (e = RoundAgain \<or> e = RoundEnd (Inr SessionClosedEnd) \<or> (\<exists>x. e = RoundEnd (Inl x)) \<longrightarrow>
      n < cfg_restart_after cfg \<and> unat served + works_started acts = unat n)"
  proof (cases rule: serve_round_cases)
    case idle
    with lt assms(2) show ?thesis by auto
  next
    case (broken wk as)
    with lt show ?thesis by (auto simp: facts)
  next
    case (reported wk as f r exiting)
    have sent: "rd_report rd" using assms(3) by (simp add: reported(3) delivered_def)
    have w: "works_started acts = 1" by (simp add: reported(3) facts [OF reported(4)])
    have "e = RoundAgain \<Longrightarrow> served + 1 < cfg_restart_after cfg"
      using reported(1,6) sent assms(2) by (auto split: if_splits simp: not_le)
    moreover have "e \<noteq> RoundAgain \<Longrightarrow> \<exists>y. e = RoundEnd (Inr y) \<and> y \<noteq> SessionClosedEnd"
      using reported(6) sent by (auto split: if_splits)
    ultimately show ?thesis using w lt suc reported(2) by auto
  qed
  then show "unat served + works_started acts \<le> unat (cfg_restart_after cfg)"
    and "e = RoundAgain \<or> e = RoundEnd (Inr SessionClosedEnd) \<or> (\<exists>x. e = RoundEnd (Inl x)) \<Longrightarrow>
      n < cfg_restart_after cfg \<and> unat served + works_started acts = unat n"
    by blast+
qed

lemma delivered_append [simp]: "delivered (as @ bs) \<longleftrightarrow> delivered as \<and> delivered bs"
  by (simp add: delivered_def)

lemma serve_rounds_quota:
  "serve_rounds cfg rds served = (e, n, acts) \<Longrightarrow> served < cfg_restart_after cfg \<Longrightarrow> delivered acts \<Longrightarrow>
    unat served + works_started acts \<le> unat (cfg_restart_after cfg) \<and>
    (e = Some (Inr SessionClosedEnd) \<or> (\<exists>x. e = Some (Inl x)) \<longrightarrow>
      n < cfg_restart_after cfg \<and> unat served + works_started acts = unat n)"
proof (induction rds arbitrary: served e n acts)
  case Nil
  then show ?case by (auto simp: word_less_nat_alt)
next
  case (Cons rd rds)
  obtain e1 n1 a1 where r1: "serve_round cfg rd served = (e1, n1, a1)" by (metis prod_cases3)
  show ?case
  proof (cases e1)
    case RoundAgain
    obtain e2 n2 a2 where r2: "serve_rounds cfg rds n1 = (e2, n2, a2)" by (metis prod_cases3)
    from Cons.prems(1) r1 r2 RoundAgain have eq: "e = e2" "acts = a1 @ a2" "n = n2" by simp_all
    with Cons.prems(3) have dl: "delivered a1" "delivered a2" by simp_all
    note q = serve_round_quota(2) [OF r1 Cons.prems(2) dl(1) disjI1 [OF RoundAgain]]
    from Cons.IH [OF r2 conjunct1 [OF q] dl(2)] conjunct2 [OF q] show ?thesis by (auto simp: eq)
  next
    case (RoundEnd x)
    with Cons.prems(1) r1 have eq: "e = Some x" "acts = a1" "n = n1" by simp_all
    from serve_round_quota [OF r1 Cons.prems(2)] Cons.prems(3) RoundEnd show ?thesis
      by (auto simp: eq)
  next
    case RoundStuck
    with Cons.prems(1) r1 have eq: "e = None" "acts = a1" "n = n1" by simp_all
    from serve_round_quota(1) [OF r1 Cons.prems(2)] Cons.prems(3) show ?thesis by (simp add: eq)
  qed
qed

lemma serve_session_quota:
  assumes "serve_session cfg cn served = (e, n, acts)" "served < cfg_restart_after cfg" "delivered acts"
  shows "unat served + works_started acts \<le> unat (cfg_restart_after cfg) \<and>
    (e = Some (Inr SessionClosedEnd) \<or> (\<exists>x. e = Some (Inl x)) \<longrightarrow>
      n < cfg_restart_after cfg \<and> unat served + works_started acts = unat n)"
proof (cases "serve_rounds cfg (cn_rounds cn) served = (e, n, acts)")
  case True
  from serve_rounds_quota [OF this assms(2,3)] show ?thesis .
next
  case False
  with assms(1) have "acts = []" "n = served"
    by (auto simp: serve_session_def split: option.splits sum.splits)
  with assms(2) show ?thesis by (simp add: word_less_nat_alt)
qed

lemma run_worker_quota:
  "run_worker cfg cns served = (e, n, acts) \<Longrightarrow> served < cfg_restart_after cfg \<Longrightarrow> delivered acts \<Longrightarrow>
    unat served + works_started acts \<le> unat (cfg_restart_after cfg)"
proof (induction cns arbitrary: served e n acts)
  case Nil
  then show ?case by (auto simp: word_less_nat_alt)
next
  case (Cons cn cns)
  obtain e1 n1 a1 where r1: "serve_session cfg cn served = (e1, n1, a1)" by (metis prod_cases3)
  obtain e2 n2 a2 where r2: "run_worker cfg cns n1 = (e2, n2, a2)" by (metis prod_cases3)
  show ?case
  proof (cases "e1 = Some (Inr SessionClosedEnd) \<or> (\<exists>x. e1 = Some (Inl x))")
    case True
    with Cons.prems r1 r2 have eq: "acts = a1 @ a2" by auto
    with Cons.prems(3) have dl: "delivered a1" "delivered a2" by simp_all
    from serve_session_quota [OF r1 Cons.prems(2) dl(1)] True
    have q: "n1 < cfg_restart_after cfg" "unat served + works_started a1 = unat n1" by blast+
    from Cons.IH [OF r2 q(1) dl(2)] q(2) show ?thesis by (simp add: eq)
  next
    case False
    with Cons.prems r1 have "acts = a1"
      by (auto split: option.splits sum.splits session_end.splits)
    with serve_session_quota [OF r1 Cons.prems(2)] Cons.prems(3) show ?thesis by simp
  qed
qed

text \<open>
  C37: The restart quota bounds what one process does: with \<open>restart_after = N\<close> for a positive \<open>N\<close>, a
  process whose reports are all delivered starts at most \<open>N\<close> pieces of work, over all its connections.
\<close>

theorem restart_quota:
  assumes "run_worker cfg cns 0 = (e, n, acts)" and "cfg_restart_after cfg \<noteq> 0" and "delivered acts"
  shows "works_started acts \<le> unat (cfg_restart_after cfg)"
  using run_worker_quota [OF assms(1) _ assms(3)] assms(2) by (simp add: word_gt_0)

theorem restart_quota_witness:
  "works_started (snd (snd (run_worker (demo_client\<lparr>cfg_restart_after := 1\<rparr>)
     [demo_conn [demo_round ''a'' ResetOk True, demo_round ''b'' ResetOk True]] 0))) \<le> 1"
proof -
  let ?t = "run_worker (demo_client\<lparr>cfg_restart_after := 1\<rparr>)
     [demo_conn [demo_round ''a'' ResetOk True, demo_round ''b'' ResetOk True]] 0"
  have t: "?t = (fst ?t, fst (snd ?t), snd (snd ?t))" by simp
  have d: "delivered (snd (snd ?t))" by code_simp
  from restart_quota [OF t _ d] show ?thesis by simp
qed

end
