(* ===== verification/Deployment.thy ===== *)
theory Deployment
  imports OomProbe HttpSockets WorkerLoop
begin

text \<open>
  Server and worker together: what one side sends is what the other side expects.  The worker's Hello
  against the dispatch endpoint, its report of a closed session against the pool, and the location it
  names against the probe of a lost worker.
\<close>

text \<open>The header of the worker's upgrade request, in \<open>serve_session\<close>.\<close>

definition worker_bearer :: "client_config \<Rightarrow> string" where
  "worker_bearer wc = ''Bearer '' @ cfg_dispatch_token wc"

section \<open>Joining\<close>

lemma check_tokens_valid: "check_tokens ts extra = Inr u \<Longrightarrow> (q, t) \<in> set extra \<Longrightarrow> valid_profile q"
  by (induction ts extra rule: check_tokens.induct) (auto split: if_splits)

lemma build_tokens_valid:
  assumes "build_tokens d extra = Inr tokens" and "(q, t) \<in> set tokens"
  shows "valid_profile q"
proof -
  have "check_tokens [d] extra = Inr ()" and "tokens = insort_key fst (''default'', d) extra"
    using assms(1) by (auto simp: build_tokens_def split: if_splits sum.splits)
  moreover have "valid_profile ''default''" by code_simp
  ultimately show ?thesis using assms(2) check_tokens_valid by (auto simp: set_insort_key)
qed

lemma connect_scoped_token:
  assumes "distinct (map snd tokens)" and "(q, t) \<in> set tokens"
  shows "connect_scoped tokens (Some (''Bearer '' @ t)) = Some q"
proof -
  have "find (\<lambda>(_, e). e = t) tokens = Some (q, t)"
    using assms by (induction tokens) (auto simp: rev_image_eqI)
  then show ?thesis by (simp only: connect_scoped_def option.case strip_prefix_append) simp
qed

text \<open>
  A worker configured with the token of its profile joins: whatever tokens the server accepted at
  its start, a worker that presents the one of its profile and whose id is free is acknowledged, waits in
  the idle queue of exactly that profile, and takes the acknowledgement for a finished handshake; so the
  two sides agree on header, frame and protocol version.
\<close>

theorem worker_joins_its_profile:
  assumes "build_tokens d extra = Inr tokens" and "(cfg_profile wc, cfg_dispatch_token wc) \<in> set tokens"
    and "\<not> hhas (liveness p) (WorkerId (cfg_worker_id wc))"
  shows "\<exists>q ack. (\<forall>ins. dispatch_socket cfg tokens (Some (worker_bearer wc)) now (Some (Text (hello_frame wc))) True c ins Wd p
      = (let (q1, fx) = read_loop cfg (WorkerId (cfg_worker_id wc)) ins Wd q in (q1, effect.SendFrame c ack # fx))) \<and>
    idle q = idle p @ [\<lparr>we_id = WorkerId (cfg_worker_id wc), we_profile = cfg_profile wc, we_sink = c\<rparr>] \<and>
    handshake ((sink, Some ack) # ms) = (Some (Inr ()), [])"
proof -
  have "distinct (map snd tokens)" using build_tokens_ok [OF assms(1)] by simp
  then have prof: "connect_scoped tokens (Some (worker_bearer wc)) = Some (cfg_profile wc)"
    unfolding worker_bearer_def by (rule connect_scoped_token) (rule assms(2))
  have hello: "accept_hello (Some (cfg_profile wc)) (Some (Text (hello_frame wc)))
      = Some (WorkerId (cfg_worker_id wc), cfg_profile wc, location wc)"
    using build_tokens_valid [OF assms(1,2)] by (simp add: accept_hello_def hello_frame_def)
  obtain q where q: "register_worker now (WorkerId (cfg_worker_id wc)) (cfg_profile wc) (location wc) c p = Inr q"
    "idle q = idle p @ [\<lparr>we_id = WorkerId (cfg_worker_id wc), we_profile = cfg_profile wc, we_sink = c\<rparr>]"
    using assms(3) by (simp add: register_worker_def)
  show ?thesis
    by (rule exI [of _ q], rule exI [of _ "Text (HelloAck PROTOCOL_VERSION)"])
      (simp add: dispatch_socket_def prof run_socket_def hello register_and_run_def q Let_def split_beta)
qed

definition demo_worker :: client_config where
  "demo_worker = \<lparr>cfg_worker_id = ''w9'', cfg_profile = ''root'', cfg_dispatch_url = [], cfg_dispatch_token = ''u'',
     cfg_pod_name = ''worker-pod'', cfg_pod_namespace = ''jobs'', cfg_container_name = [], cfg_capture_root = [],
     cfg_reset_paths = [], cfg_restart_after = 0, cfg_lease_timeout_secs = 45\<rparr>"

theorem worker_joins_its_profile_witness:
  "\<exists>ack. hd (snd (dispatch_socket demo_config demo_tokens (Some (worker_bearer demo_worker)) 1
      (Some (Text (hello_frame demo_worker))) True 9 [] still_world new_pool)) = effect.SendFrame 9 ack \<and>
    handshake [(True, Some ack)] = (Some (Inr ()), [])"
proof -
  have b: "build_tokens ''t'' [(''root'', ''u'')] = Inr demo_tokens" by code_simp
  have m: "(cfg_profile demo_worker, cfg_dispatch_token demo_worker) \<in> set demo_tokens"
    by (simp add: demo_worker_def demo_tokens_def)
  have f: "\<not> hhas (liveness new_pool) (WorkerId (cfg_worker_id demo_worker))"
    by (simp add: new_pool_def)
  from worker_joins_its_profile [OF b m f, of demo_config 1 9 still_world True "[]"] obtain q ack where
    "dispatch_socket demo_config demo_tokens (Some (worker_bearer demo_worker)) 1 (Some (Text (hello_frame demo_worker)))
      True 9 [] still_world new_pool
     = (let (q1, fx) = read_loop demo_config (WorkerId (cfg_worker_id demo_worker)) [] still_world q
        in (q1, effect.SendFrame 9 ack # fx))" and a: "handshake [(True, Some ack)] = (Some (Inr ()), [])"
    by blast
  then show ?thesis by (intro exI [of _ ack]) (simp add: split_beta)
qed

section \<open>Handing a worker back\<close>

text \<open>
  C8: A report of a closed session hands its worker back only after a reset: if the report that a worker process
  sent makes the pool put a worker back into the idle queue, then the process had finished a reset with success after
  it started the work of the session, and what is queued is one entry, that worker on the connection and in the
  profile of the session.  (A worker whose report could not be sent gets into the queue by registering again, and may
  do so without a reset: \<open>lost_report_reuses_failed_reset\<close>.)
\<close>

theorem handed_back_means_reset:
  assumes "run_worker wc cns served = (r, n, us @ WorkStarted wk # vs @ Reported (SessionClosed sid err reuse) True # ws)"
    and "close_take now w sid err reuse p = Some (out, q)" and "idle q \<noteq> idle p"
  shows "ResetFinished ResetOk \<in> set vs \<and> (\<exists>s. hget (sessions p) sid = Some s \<and> sr_worker s = w \<and>
    idle q = idle p @ [\<lparr>we_id = w, we_profile = sr_profile s, we_sink = sr_sink s\<rparr>])"
proof -
  have idle: "\<exists>s. hget (sessions p) sid = Some s \<and> sr_worker s = w \<and>
    idle q = idle p @ [\<lparr>we_id = w, we_profile = sr_profile s, we_sink = sr_sink s\<rparr>]"
    using assms(2,3) by (auto simp: close_take_def split: option.splits if_splits)
  have "reuse" using assms(2,3) by (auto simp: close_take_def split: option.splits if_splits)
  with assms(1) show ?thesis using reusable_means_reset idle by simp
qed

theorem handed_back_means_reset_witness:
  "ResetFinished ResetOk \<in> set [InSession (SendFrame (SessionReady (SessionId ''s'') None)), InSession PtyShutdown,
     ResetFinished ResetOk]"
proof -
  let ?t = "run_worker demo_client [demo_conn [demo_session_round]] 0"
  have "snd (snd ?t) = [WorkStarted (WorkSession demo_host_open),
      InSession (SendFrame (SessionReady (SessionId ''s'') None)), InSession PtyShutdown, ResetFinished ResetOk,
      Reported (SessionClosed (SessionId ''s'') None True) True]"
    by code_simp
  then have t: "?t = (fst ?t, fst (snd ?t), [] @ WorkStarted (WorkSession demo_host_open) #
      [InSession (SendFrame (SessionReady (SessionId ''s'') None)), InSession PtyShutdown, ResetFinished ResetOk] @
      Reported (SessionClosed (SessionId ''s'') None True) True # [])"
    by (simp only: prod_eq_iff fst_conv snd_conv append.simps)
  have "demo_s = SessionId ''s''" by (simp add: demo_s_def)
  moreover have "case close_take 30 demo_w demo_s None True (sp (demo demo_run)) of
      None \<Rightarrow> False | Some (out, q) \<Rightarrow> length (idle q) \<noteq> length (idle (sp (demo demo_run)))"
    by code_simp
  ultimately obtain out q where "close_take 30 demo_w (SessionId ''s'') None True (sp (demo demo_run)) = Some (out, q)"
    "length (idle q) \<noteq> length (idle (sp (demo demo_run)))" by (auto split: option.splits)
  then have "close_take 30 demo_w (SessionId ''s'') None True (sp (demo demo_run)) = Some (out, q)"
    "idle q \<noteq> idle (sp (demo demo_run))" by auto
  from handed_back_means_reset [OF t this] show ?thesis by blast
qed

section \<open>Losing a worker\<close>

text \<open>The location a worker registered with, and that it stays as long as its connection is not lost.\<close>

definition located :: "worker_id \<Rightarrow> worker_location option \<Rightarrow> pool \<Rightarrow> bool" where
  "located w loc p \<longleftrightarrow> map_option lv_location (hget (liveness p) w) = Some loc"

lemma located_cong: "liveness q = liveness p \<Longrightarrow> located w loc q = located w loc p"
  by (simp add: located_def)

lemma liveness_sections [simp]:
  "liveness (touch_session now sid p) = liveness p" "liveness (fst (session_ready now w sid error p)) = liveness p"
  "liveness (snd (close_begin gate ch sid p)) = liveness p" "liveness (snd (attach_terminal now ch sid p)) = liveness p"
  "liveness (detach_terminal_if now sid ch p) = liveness p" "liveness (snd (cancel_request rid p)) = liveness p"
  "liveness (poll_row now rid p) = liveness p" "liveness (mark_spool_failed rid p) = liveness p"
  "liveness (fst (finish_row upd rid p)) = liveness p" "liveness (snd (list_session_commands now sid p)) = liveness p"
  "liveness (fst (purge_handle rid p)) = liveness p" "liveness (retain_sessions now ttl p) = liveness p"
  "liveness (complete_take now rid p) = liveness p" "liveness (snd (drop_inflight w p)) = liveness p"
  "liveness (snd (submit_register t0 now cap sid rid mode p)) = liveness p"
  "liveness (dispatch_register wk rid t0 now p) = liveness p" "liveness (release_pinned wk p) = liveness p"
  "liveness (snd (create_reserve now profile op ready p)) = liveness p"
  "liveness (snd (created_session_snapshot now sid p)) = liveness p"
  by (simp_all add: touch_session_def session_ready_def close_begin_def attach_terminal_def detach_terminal_if_def
      cancel_request_def poll_row_def mark_spool_failed_def finish_row_def list_session_commands_def purge_handle_def
      retain_sessions_def complete_take_def drop_inflight_def submit_register_def dispatch_register_def release_pinned_def
      create_reserve_def created_session_snapshot_def Let_def split: option.splits prod.splits)

lemma liveness_close_take: "close_take now w sid error reusable p = Some (out, q) \<Longrightarrow> liveness q = liveness p"
  by (erule close_take_cases) simp

lemma liveness_held [simp]:
  "liveness (sp (take_step s)) = liveness (sp s)" "liveness (sp (pin_step ch s)) = liveness (sp s)"
  by (simp_all add: take_step_def pin_step_def pop_idle_def acquire_pinned_def split: list.split)

lemma located_step:
  assumes "located w loc (sp s)" and "sys_step s e t" and "\<And>now. e \<noteq> DropWorker w now"
  shows "located w loc (sp t)"
proof -
  have st: "apply_event e s = Some t" using assms(2) by (simp add: sys_step_def)
  have same: ?thesis if "liveness (sp t) = liveness (sp s)" using assms(1) located_cong [OF that] by simp
  have up: "hhas (liveness (sp s)) w" using assms(1) by (auto simp: located_def hhas_def)
  show ?thesis
  proof (cases e)
    case (RegisterEv v profile l c now)
    with st up assms(1) show ?thesis by (auto simp: register_worker_def located_def split: if_splits sum.splits)
  next
    case (TouchWorkerEv v now)
    with st assms(1) show ?thesis by (auto simp: set_pool_def touch_worker_def located_def)
  next
    case (DropWorker v now)
    with assms(3) have "v \<noteq> w" by blast
    with DropWorker st assms(1) show ?thesis by (auto simp: set_pool_def drop_worker_def Let_def located_def)
  next
    case (CreateBegin profile op ready now)
    obtain r q where q: "create_reserve now profile op ready (sp s) = (r, q)" by fastforce
    with liveness_sections(18) [of now profile op ready "sp s"] CreateBegin st show ?thesis
      by (intro same) (auto split: if_splits sum.splits)
  next
    case (CreateDone sid now)
    obtain r q where q: "created_session_snapshot now sid (sp s) = (r, q)" by fastforce
    with liveness_sections(19) [of now sid "sp s"] CreateDone st show ?thesis
      by (intro same) (auto split: if_splits sum.splits)
  next
    case (ClosedEv v sid error reusable now)
    with st show ?thesis by (intro same) (auto simp: closed_step_def split: option.splits dest: liveness_close_take)
  next
    case (SubmitRegister sid t0 now)
    from SubmitRegister st obtain cap rid cmd mode where h: "hget (locks s) sid = Some (HoldSubmit cap rid cmd mode)"
      by (auto simp: register_step_def split: option.splits holder.splits)
    obtain r q where q: "submit_register t0 now cap sid rid mode (sp s) = (r, q)" by fastforce
    with liveness_sections(15) [of t0 now cap sid rid mode "sp s"] SubmitRegister st h show ?thesis
      by (intro same) (auto simp: register_step_def split: if_splits option.splits)
  next
    case (CloseBegin gate sid ch)
    have "sp t = snd (close_begin gate ch sid (sp s))"
      using st CloseBegin by (auto simp: close_step_def split: if_splits prod.splits close_step.splits bool.splits)
    then show ?thesis by (intro same) simp
  next
    case (ExecSend rid r)
    with st show ?thesis by (intro same) (auto simp: exec_sent_step_def split: if_splits)
  qed (use st assms(1) in \<open>auto simp: located_def set_pool_def submit_step_def send_run_step_def send_close_step_def result_step_def
      drop_step_def case_prod_unfold finish_step_def back_step_def unpin_step_def exec_step_def Let_def
      split: if_splits option.splits holder.splits sum.splits\<close>)
qed

lemma located_run:
  "run sys_step s es t \<Longrightarrow> located w loc (sp s) \<Longrightarrow> (\<And>now. DropWorker w now \<notin> set es) \<Longrightarrow> located w loc (sp t)"
  by (induction rule: run.induct) (auto intro: located_step)

text \<open>What other tasks do between the sections of the handler of a loss: they leave the location of the worker alone, and
  the command neither ends nor changes its outcome nor disappears by them.\<close>

definition lets_be :: "world \<Rightarrow> worker_id \<Rightarrow> exec_id \<Rightarrow> bool" where
  "lets_be W w rid \<longleftrightarrow> (\<forall>k q. map_option lv_location (hget (liveness (w_yield W k q)) w) = map_option lv_location (hget (liveness q) w) \<and>
     (\<forall>row. hget (handles q) rid = Some row \<longrightarrow> (\<exists>row'. hget (handles (w_yield W k q)) rid = Some row' \<and>
       outcome_of row' = outcome_of row)))"

lemma finish_rows_verdict:
  assumes W: "lets_be W w rid" and st: "st \<noteq> Running"
    and row: "hget (handles p) rid = Some row"
    and due: "hr_status row = Running \<and> rid \<in> set rids \<or> hr_status row = st \<and> hr_cause row = Some cause"
  shows "\<exists>row'. hget (handles (fst (finish_rows (dropped_row st cause) W k rids p))) rid = Some row' \<and>
    hr_status row' = st \<and> hr_cause row' = Some cause"
  using row due
proof (induction rids arbitrary: k p row)
  case Nil
  with st show ?case by auto
next
  case (Cons x rids)
  from W Cons.prems(1) obtain r where r: "hget (handles (w_yield W k p)) rid = Some r" "outcome_of r = outcome_of row"
    unfolding lets_be_def by blast
  then have o: "hr_status r = hr_status row" "hr_cause r = hr_cause row" by (simp_all add: outcome_of_def)
  let ?p = "fst (finish_row (dropped_row st cause (w_clock W k)) x (w_yield W k p))"
  have eq: "fst (finish_rows (dropped_row st cause) W k (x # rids) p) = fst (finish_rows (dropped_row st cause) W (Suc k) rids ?p)"
    by (simp add: case_prod_unfold Let_def)
  show ?case
  proof (cases "x = rid \<and> hr_status r = Running")
    case True
    then have "hget (handles ?p) rid = Some (dropped_row st cause (w_clock W k) r)"
      using r by (simp add: finish_row_handles)
    moreover have "hr_status (dropped_row st cause u r) = st \<and> hr_cause (dropped_row st cause u r) = Some cause" for u
      by (simp add: dropped_row_def Let_def)
    ultimately show ?thesis unfolding eq using Cons.IH by blast
  next
    case False
    then have "hget (handles ?p) rid = Some r" using r by (auto simp: finish_row_handles)
    from Cons.IH [OF this] show ?thesis unfolding eq using False o Cons.prems(2) by auto
  qed
qed

text \<open>
  C40: The verdict on a lost worker is about its own container.  Let a worker that knows its pod register, at any moment,
  and let the system go on in any way that does not lose its connection.  When the connection is then lost, and no other
  task touches the command or the worker while the loss is handled, a command that was in flight on the worker ends as
  killed for memory exactly if one of the first fifteen answers about that pod, in that namespace, says so of that
  container, the one configured or else the one named like the worker, whatever the server's own pod is; and ends
  otherwise as an error because its worker died.
\<close>

theorem probe_asks_own_container:
  assumes "accept_hello expected (Some (Text (hello_frame wc))) = Some (w, profile, loc)"
    and "client_config.cfg_pod_name wc \<noteq> []" and "cfg_pod_namespace wc \<noteq> []"
    and "reachable init_sys sys_step s0" and "\<not> hhas (liveness (sp s0)) w"
    and "sys_step s0 (RegisterEv w profile loc c now) s" and "run sys_step s es t" and "\<And>u. DropWorker w u \<notin> set es"
    and "hget (inflight (sp t)) rid = Some e" and "pe_worker e = w"
    and "cfg_probe cfg = Some (cluster_probe api)" and "lets_be W w rid"
  shows "\<exists>row. hget (handles (fst (handle_worker_drop cfg W k w (sp t)))) rid = Some row \<and>
    (hr_status row, hr_cause row) =
      (if \<exists>i<15. positive (api (client_config.cfg_pod_name wc) (cfg_pod_namespace wc))
         (if cfg_container_name wc = [] then cfg_worker_id wc else cfg_container_name wc) i
       then (Oomkilled, Some OomContainer) else (Error, Some WorkerDied))"
proof -
  have w: "w = WorkerId (cfg_worker_id wc)" and loc: "loc = location wc"
    using assms(1) by (auto simp: accept_hello_def hello_frame_def split: if_splits)
  have "located w loc (sp s)"
    using assms(5,6) by (auto simp: sys_step_def register_worker_def located_def split: if_splits)
  from located_run [OF assms(7) this assms(8)] have l: "located w loc (sp t)" .
  have "reachable init_sys sys_step t" by (rule run_reachable [OF assms(7) reach_step [OF assms(4,6)]])
  note core = sys_coreD(1) [OF ps.inv_reachable [OF this]]
  obtain row where row: "hget (handles (sp t)) rid = Some row" "hr_status row = Running"
    by (rule requests_okD [OF pool_coreD(2) [OF core] assms(9)])
  let ?p1 = "w_yield W k (snd (drop_inflight w (sp t)))"
  let ?d = "fst (drop_worker (w_clock W k) w ?p1)" and ?p2 = "snd (drop_worker (w_clock W k) w ?p1)"
  let ?pending = "fst (drop_inflight w (sp t))"
  obtain st cause where v: "drop_outcome cfg w (dp_location ?d) = (st, cause)" by fastforce
  have mem: "(rid, e) \<in> set ?pending" using assms(9,10) by (simp add: drop_inflight_def hget_in_set)
  have "map_option lv_location (hget (liveness ?p1) w) = Some loc"
    using assms(12) l by (simp add: lets_be_def located_def)
  then have dp: "dp_location ?d = loc" by (auto simp: drop_worker_def Let_def)
  have v2: "drop_outcome cfg w (location wc) = (st, cause)" using v by (simp only: dp loc)
  have verdict: "(st, Some cause) = (if \<exists>i<15. positive (api (client_config.cfg_pod_name wc) (cfg_pod_namespace wc))
      (if cfg_container_name wc = [] then cfg_worker_id wc else cfg_container_name wc) i
    then (Oomkilled, Some OomContainer) else (Error, Some WorkerDied))"
    using v2 assms(2,3,11) by (auto simp: w drop_outcome_def location_def worker_location_def cluster_probe_def
      was_oom_killed_iff Let_def split: if_splits)
  then have st: "st \<noteq> Running" by (auto split: if_splits)
  have "hget (handles (snd (drop_inflight w (sp t)))) rid = Some row" using row by (simp add: drop_inflight_def)
  then obtain r where r: "hget (handles ?p1) rid = Some r" "outcome_of r = outcome_of row"
    using assms(12) unfolding lets_be_def by blast
  then have r2: "hget (handles ?p2) rid = Some r" "hr_status r = Running" using row
    by (simp_all add: drop_worker_def Let_def outcome_of_def)
  have "rid \<in> set (map fst ?pending)" using mem by force
  with finish_rows_verdict [OF assms(12) st r2(1), of "map fst ?pending" cause "Suc k"] r2(2) obtain row'
    where "hget (handles (fst (finish_rows (dropped_row st cause) W (Suc k) (map fst ?pending) ?p2))) rid = Some row'"
      "hr_status row' = st" "hr_cause row' = Some cause" by blast
  moreover have "fst (handle_worker_drop cfg W k w (sp t)) =
      fst (finish_rows (dropped_row st cause) W (Suc k) (map fst ?pending) ?p2)"
    using v mem by (auto simp: handle_worker_drop_def case_prod_unfold Let_def)
  ultimately show ?thesis using verdict by auto
qed

definition demo_api :: "string \<Rightarrow> string \<Rightarrow> nat \<Rightarrow> string + kube_pod" where
  "demo_api pn ns i = (if i = 0 then Inl ''timeout'' else Inr \<lparr>kp_status = Some \<lparr>pst_containers = Some
     [\<lparr>cst_name = ''w9'', cst_last = Some \<lparr>cst_terminated = Some \<lparr>term_reason = Some ''OOMKilled''\<rparr>\<rparr>\<rparr>]\<rparr>\<rparr>)"

text \<open>A worker that knows its pod runs a command without a session when it is lost.\<close>

definition demo_lost :: "event list" where
  "demo_lost = [ExecTake, ExecRegister \<lparr>we_id = WorkerId ''w9'', we_profile = ''root'', we_sink = 9\<rparr> demo_c 2 3, ExecSend demo_c Sent]"

theorem probe_asks_own_container_witness:
  "\<exists>(t :: sys) row. hget (handles (fst (handle_worker_drop (demo_config\<lparr>cfg_probe := Some (cluster_probe demo_api)\<rparr>) still_world 0
     (WorkerId ''w9'') (sp t)))) demo_c = Some row \<and> hr_status row = Oomkilled \<and> hr_cause row = Some OomContainer"
proof -
  let ?r = "RegisterEv (WorkerId ''w9'') ''root'' (location demo_worker) 9 1"
  let ?s = "the (run_events [?r] empty_sys)" and ?t = "the (run_events (?r # demo_lost) empty_sys)"
  have h: "accept_hello None (Some (Text (hello_frame demo_worker))) = Some (WorkerId ''w9'', ''root'', location demo_worker)"
    by code_simp
  have names: "client_config.cfg_pod_name demo_worker \<noteq> []" "cfg_pod_namespace demo_worker \<noteq> []" by (simp_all add: demo_worker_def)
  have r0: "reachable init_sys sys_step empty_sys" by (rule reach_init) (simp add: init_sys_def empty_sys_def)
  have new: "\<not> hhas (liveness (sp empty_sys)) (WorkerId ''w9'')" by code_simp
  have ok: "apply_event ?r empty_sys \<noteq> None" "run_events demo_lost ?s \<noteq> None" by code_simp+
  then obtain s1 where s1: "apply_event ?r empty_sys = Some s1" by blast
  then have s: "?s = s1" and t: "?t = the (run_events demo_lost s1)" by simp_all
  have step: "sys_step empty_sys ?r s1" using s1 by (simp add: sys_step_def)
  have run: "run sys_step s1 demo_lost ?t"
    using ok(2) [unfolded s] unfolding t run_events_run [symmetric] by (rule option.collapse [symmetric])
  have quiet: "DropWorker (WorkerId ''w9'') u \<notin> set demo_lost" for u by (simp add: demo_lost_def)
  have "case hget (inflight (sp ?t)) demo_c of None \<Rightarrow> False | Some e \<Rightarrow> pe_worker e = WorkerId ''w9''" by code_simp
  then obtain e where e: "hget (inflight (sp ?t)) demo_c = Some e" "pe_worker e = WorkerId ''w9''" by (auto split: option.splits)
  have probe: "cfg_probe (demo_config\<lparr>cfg_probe := Some (cluster_probe demo_api)\<rparr>) = Some (cluster_probe demo_api)" by simp
  have still: "lets_be still_world (WorkerId ''w9'') demo_c" by (simp add: lets_be_def still_world_def)
  have "positive (demo_api ''worker-pod'' ''jobs'') ''w9'' 1" by (simp add: positive_def demo_api_def oom_killed_def)
  then have "\<exists>i<15. positive (demo_api (client_config.cfg_pod_name demo_worker) (cfg_pod_namespace demo_worker))
      (if cfg_container_name demo_worker = [] then cfg_worker_id demo_worker else cfg_container_name demo_worker) i"
    by (intro exI [of _ 1]) (simp add: demo_worker_def)
  from probe_asks_own_container [OF h names r0 new step run quiet e probe still, of 0, unfolded if_P [OF this]]
  obtain row where "hget (handles (fst (handle_worker_drop (demo_config\<lparr>cfg_probe := Some (cluster_probe demo_api)\<rparr>)
      still_world 0 (WorkerId ''w9'') (sp ?t)))) demo_c = Some row" "hr_status row = Oomkilled" "hr_cause row = Some OomContainer"
    by (elim exE conjE) (simp only: prod.inject)
  then show ?thesis by blast
qed

end
