(* ===== verification/RustClient.thy ===== *)
theory RustClient
  imports HttpApi RustText
begin

text \<open>
  The client library \<open>clients/shiitake-rs/src/client.rs\<close>: the request each method makes and what it makes
  of the response, and the composition with the router of the server.  The transport (reqwest) is an
  argument that answers a request with a response or an error; so is the reader of JSON bodies.
\<close>

section \<open>Client and transport\<close>

record client =
  cl_base :: string
  cl_token :: "string option"

datatype client_error = TransportErr string | AllBusy | StatusErr nat string

record read_chunk =
  rc_bytes :: bytes
  rc_total :: "nat option"

datatype client_body = NoBody | CreateBody create_session_request | RunBody session_command_request

record client_request =
  cq_method :: http_method
  cq_url :: string
  cq_bearer :: "string option"
  cq_body :: client_body
  cq_range :: "string option"

text \<open>Of a response: the status, the \<open>Content-Range\<close> header when it is text, and its body, read as text
  or as bytes.\<close>

record http_response =
  hp_status :: nat
  hp_content_range :: "string option"
  hp_text :: "string + string"
  hp_bytes :: "string + bytes"

type_synonym transport = "client_request \<Rightarrow> string + http_response"
type_synonym 'a decoder = "http_response \<Rightarrow> string + 'a"

text \<open>\<open>Client::new\<close>.\<close>

definition new_client :: "string \<Rightarrow> string option \<Rightarrow> client" where
  "new_client url token = \<lparr>cl_base = rev (dropWhile (\<lambda>c. c = CHR ''/'') (rev url)), cl_token = token\<rparr>"

definition client_url :: "client \<Rightarrow> string \<Rightarrow> string" where
  "client_url cl p = cl_base cl @ ''/api/v1'' @ p"

definition plain_request :: "client \<Rightarrow> http_method \<Rightarrow> string \<Rightarrow> client_request" where
  "plain_request cl m p = \<lparr>cq_method = m, cq_url = client_url cl p, cq_bearer = None, cq_body = NoBody, cq_range = None\<rparr>"

definition auth :: "client \<Rightarrow> client_request \<Rightarrow> client_request" where
  "auth cl rq = (case cl_token cl of Some t \<Rightarrow> rq\<lparr>cq_bearer := Some t\<rparr> | None \<Rightarrow> rq)"

definition error_for_status :: "http_response \<Rightarrow> client_error + http_response" where
  "error_for_status resp =
     (if 200 \<le> hp_status resp \<and> hp_status resp < 300 then Inr resp
      else Inl (StatusErr (hp_status resp) (case hp_text resp of Inr t \<Rightarrow> t | Inl _ \<Rightarrow> [])))"

text \<open>\<open>send().await?\<close>, \<open>error_for_status(resp).await?.json().await?\<close>.\<close>

definition read_json :: "'a decoder \<Rightarrow> http_response \<Rightarrow> client_error + 'a" where
  "read_json dec resp =
     (case error_for_status resp of
       Inl e \<Rightarrow> Inl e
     | Inr r \<Rightarrow> (case dec r of Inl e \<Rightarrow> Inl (TransportErr e) | Inr x \<Rightarrow> Inr x))"

definition call :: "transport \<Rightarrow> client_request \<Rightarrow> (http_response \<Rightarrow> client_error + 'a) \<Rightarrow> client_error + 'a" where
  "call send rq k = (case send rq of Inl e \<Rightarrow> Inl (TransportErr e) | Inr resp \<Rightarrow> k resp)"

section \<open>Requests\<close>

fun stream_str :: "capture_stream \<Rightarrow> string" where
  "stream_str OutStream = ''stdout''"
| "stream_str ErrStream = ''stderr''"

definition session_url :: "session_id \<Rightarrow> string" where
  "session_url sid = ''/sessions/'' @ sid_str sid"

definition commands_url :: "session_id \<Rightarrow> string" where
  "commands_url sid = session_url sid @ ''/commands''"

definition command_url :: "session_id \<Rightarrow> string \<Rightarrow> string" where
  "command_url sid h = commands_url sid @ ''/'' @ h"

definition profiles_request :: "client \<Rightarrow> client_request" where
  "profiles_request cl = auth cl (plain_request cl GET ''/profiles'')"

definition create_request :: "client \<Rightarrow> string \<Rightarrow> string option \<Rightarrow> env_map \<Rightarrow> drop_to option \<Rightarrow> client_request" where
  "create_request cl profile workdir en ident = auth cl ((plain_request cl POST ''/sessions'')\<lparr>cq_body := CreateBody
     \<lparr>req_profile = profile, req_workdir = workdir, req_env = en, req_drop_to = ident, req_cols = 80, req_rows = 24\<rparr>\<rparr>)"

definition session_status_request :: "client \<Rightarrow> session_id \<Rightarrow> client_request" where
  "session_status_request cl sid = auth cl (plain_request cl GET (session_url sid))"

definition release_request :: "client \<Rightarrow> session_id \<Rightarrow> client_request" where
  "release_request cl sid = auth cl (plain_request cl DELETE (session_url sid))"

definition submit_request :: "client \<Rightarrow> session_id \<Rightarrow> string \<Rightarrow> command_mode \<Rightarrow> client_request" where
  "submit_request cl sid cmd mode = auth cl ((plain_request cl POST (commands_url sid))\<lparr>cq_body := RunBody
     \<lparr>req_command = cmd, req_mode = mode\<rparr>\<rparr>)"

definition command_status_request :: "client \<Rightarrow> session_id \<Rightarrow> string \<Rightarrow> client_request" where
  "command_status_request cl sid h = auth cl (plain_request cl GET (command_url sid h))"

definition list_request :: "client \<Rightarrow> session_id \<Rightarrow> client_request" where
  "list_request cl sid = auth cl (plain_request cl GET (commands_url sid))"

definition kill_request :: "client \<Rightarrow> session_id \<Rightarrow> string \<Rightarrow> client_request" where
  "kill_request cl sid h = auth cl (plain_request cl DELETE (command_url sid h))"

definition read_request :: "client \<Rightarrow> session_id \<Rightarrow> string \<Rightarrow> capture_stream \<Rightarrow> string option \<Rightarrow> client_request" where
  "read_request cl sid h which rng =
     (auth cl (plain_request cl GET (command_url sid h @ ''/'' @ stream_str which)))\<lparr>cq_range := rng\<rparr>"

section \<open>Calls\<close>

definition client_profiles :: "transport \<Rightarrow> profile_response list decoder \<Rightarrow> client \<Rightarrow> client_error + profile_response list" where
  "client_profiles send dec cl = call send (profiles_request cl) (read_json dec)"

definition client_create_session :: "transport \<Rightarrow> session_response decoder \<Rightarrow> client \<Rightarrow> string \<Rightarrow> string option \<Rightarrow>
    env_map \<Rightarrow> drop_to option \<Rightarrow> client_error + session_response" where
  "client_create_session send dec cl profile workdir en ident =
     call send (create_request cl profile workdir en ident) (\<lambda>resp.
       if hp_status resp = 429 then Inl AllBusy else read_json dec resp)"

definition client_session_status :: "transport \<Rightarrow> session_response decoder \<Rightarrow> client \<Rightarrow> session_id \<Rightarrow>
    client_error + session_response" where
  "client_session_status send dec cl sid = call send (session_status_request cl sid) (read_json dec)"

definition client_release_session :: "transport \<Rightarrow> session_response decoder \<Rightarrow> client \<Rightarrow> session_id \<Rightarrow>
    client_error + session_response" where
  "client_release_session send dec cl sid = call send (release_request cl sid) (read_json dec)"

definition client_submit :: "transport \<Rightarrow> spawn_response decoder \<Rightarrow> client \<Rightarrow> session_id \<Rightarrow> string \<Rightarrow> command_mode \<Rightarrow>
    client_error + spawn_response" where
  "client_submit send dec cl sid cmd mode = call send (submit_request cl sid cmd mode) (read_json dec)"

definition client_command_status :: "transport \<Rightarrow> status_response decoder \<Rightarrow> client \<Rightarrow> session_id \<Rightarrow> string \<Rightarrow>
    client_error + status_response" where
  "client_command_status send dec cl sid h = call send (command_status_request cl sid h) (read_json dec)"

definition client_list_commands :: "transport \<Rightarrow> status_response list decoder \<Rightarrow> client \<Rightarrow> session_id \<Rightarrow>
    client_error + status_response list" where
  "client_list_commands send dec cl sid = call send (list_request cl sid) (read_json dec)"

definition client_kill_command :: "transport \<Rightarrow> handle_snapshot_json decoder \<Rightarrow> client \<Rightarrow> session_id \<Rightarrow> string \<Rightarrow>
    client_error + handle_snapshot_json" where
  "client_kill_command send dec cl sid h = call send (kill_request cl sid h) (read_json dec)"

definition parse_total :: "string \<Rightarrow> nat option" where
  "parse_total value = parse_u64 (trim (last (split_char CHR ''/'' value)))"

definition client_read_command :: "transport \<Rightarrow> client \<Rightarrow> session_id \<Rightarrow> string \<Rightarrow> capture_stream \<Rightarrow> string option \<Rightarrow>
    client_error + read_chunk" where
  "client_read_command send cl sid h which rng =
     call send (read_request cl sid h which rng) (\<lambda>resp.
       let tot = Option.bind (hp_content_range resp) parse_total
       in if hp_status resp = 416 then Inr \<lparr>rc_bytes = [], rc_total = tot\<rparr>
          else case error_for_status resp of
            Inl e \<Rightarrow> Inl e
          | Inr r \<Rightarrow> (case hp_bytes r of Inl e \<Rightarrow> Inl (TransportErr e) | Inr bs \<Rightarrow> Inr \<lparr>rc_bytes = bs, rc_total = tot\<rparr>))"

definition client_health :: "transport \<Rightarrow> health_response decoder \<Rightarrow> client \<Rightarrow> client_error + health_response" where
  "client_health send dec cl = call send (plain_request cl GET ''/health'') (read_json dec)"

definition client_ready :: "transport \<Rightarrow> ready_response decoder \<Rightarrow> client \<Rightarrow> client_error + ready_response" where
  "client_ready send dec cl = call send (plain_request cl GET ''/ready'') (\<lambda>resp.
     if hp_status resp = status_SERVICE_UNAVAILABLE
     then (case dec resp of Inl e \<Rightarrow> Inl (TransportErr e) | Inr x \<Rightarrow> Inr x)
     else read_json dec resp)"

text \<open>The methods of a \<open>Session\<close> are those of its client on the id of its details.\<close>

record lease =
  le_client :: client
  le_details :: session_response

definition open_lease :: "transport \<Rightarrow> session_response decoder \<Rightarrow> client \<Rightarrow> string \<Rightarrow> string option \<Rightarrow>
    env_map \<Rightarrow> drop_to option \<Rightarrow> client_error + lease" where
  "open_lease send dec cl profile workdir en ident =
     (case client_create_session send dec cl profile workdir en ident of
       Inl e \<Rightarrow> Inl e | Inr d \<Rightarrow> Inr \<lparr>le_client = cl, le_details = d\<rparr>)"

definition lease_commands :: "transport \<Rightarrow> status_response list decoder \<Rightarrow> lease \<Rightarrow> client_error + status_response list" where
  "lease_commands send dec l = client_list_commands send dec (le_client l) (resp_session_id (le_details l))"

definition lease_submit :: "transport \<Rightarrow> spawn_response decoder \<Rightarrow> lease \<Rightarrow> string \<Rightarrow> command_mode \<Rightarrow>
    client_error + spawn_response" where
  "lease_submit send dec l cmd mode = client_submit send dec (le_client l) (resp_session_id (le_details l)) cmd mode"

definition lease_status :: "transport \<Rightarrow> status_response decoder \<Rightarrow> lease \<Rightarrow> string \<Rightarrow> client_error + status_response" where
  "lease_status send dec l h = client_command_status send dec (le_client l) (resp_session_id (le_details l)) h"

definition lease_kill :: "transport \<Rightarrow> handle_snapshot_json decoder \<Rightarrow> lease \<Rightarrow> string \<Rightarrow> client_error + handle_snapshot_json" where
  "lease_kill send dec l h = client_kill_command send dec (le_client l) (resp_session_id (le_details l)) h"

definition lease_read :: "transport \<Rightarrow> lease \<Rightarrow> string \<Rightarrow> capture_stream \<Rightarrow> string option \<Rightarrow> client_error + read_chunk" where
  "lease_read send l h which rng = client_read_command send (le_client l) (resp_session_id (le_details l)) h which rng"

definition lease_release :: "transport \<Rightarrow> session_response decoder \<Rightarrow> lease \<Rightarrow> client_error + session_response" where
  "lease_release send dec l = client_release_session send dec (le_client l) (resp_session_id (le_details l))"

section \<open>Sizes\<close>

text \<open>
  The size of a captured stream reaches the client: whatever precedes the last slash of a
  \<open>Content-Range\<close> header, a range or the star of an unsatisfiable one, the client reads back exactly the
  64-bit size that was printed behind it.
\<close>

theorem stream_size_round_trip:
  "parse_total (before @ CHR ''/'' # show_nat (unat (n :: 64 word))) = Some (unat n)"
proof -
  have "CHR ''/'' \<notin> set (show_nat (unat n))" using show_nat_chars [of "CHR ''/''"] by force
  moreover have "unat n < 2 ^ 64" using unsigned_less [of n] by simp
  ultimately show ?thesis
    by (simp add: parse_total_def split_char_append split_char_none trim_show_nat parse_u64_show_nat)
qed

section \<open>Reaching the server\<close>

text \<open>Between the request and the handlers are reqwest, the network and axum, which are arguments: the segments below
  \<open>/api/v1\<close> that the router matches a URL against, parsed and decoded, the header made of a token, and the body as it
  is read, or the status with which it is refused.\<close>

record http_wire =
  hw_path :: "string \<Rightarrow> string list"
  hw_bearer :: "string \<Rightarrow> string"
  hw_create :: "create_session_request \<Rightarrow> nat + create_session_request"
  hw_run :: "session_command_request \<Rightarrow> nat + session_command_request"

definition received :: "http_wire \<Rightarrow> client_request \<Rightarrow> http_request" where
  "received h rq = \<lparr>rq_method = cq_method rq, rq_path = hw_path h (cq_url rq),
     rq_authorization = map_option (hw_bearer h) (cq_bearer rq),
     rq_create = (case cq_body rq of CreateBody b \<Rightarrow> hw_create h b | _ \<Rightarrow> Inl 415),
     rq_run = (case cq_body rq of RunBody b \<Rightarrow> hw_run h b | _ \<Rightarrow> Inl 415),
     rq_upgrade = Some 426\<rparr>"

text \<open>A segment that a URL carries as it is: unreserved characters only, and no dot segment.  Others are cut off,
  decoded or resolved on the way (\<open>a?b\<close>, \<open>%41\<close>, \<open>..\<close>).  Ids that the server minted are segments of this kind.\<close>

definition unreserved :: "char \<Rightarrow> bool" where
  "unreserved c \<longleftrightarrow> is_ascii_alphanumeric c \<or> c \<in> {CHR ''-'', CHR ''.'', CHR ''_'', CHR ''~''}"

definition segment :: "string \<Rightarrow> bool" where
  "segment s \<longleftrightarrow> s \<notin> {[], ''.'', ''..''} \<and> list_all unreserved s"

lemma segment_no_slash: "segment s \<Longrightarrow> s \<noteq> [] \<and> CHR ''/'' \<notin> set s"
  by (auto simp: segment_def unreserved_def is_ascii_alphanumeric_def list_all_iff)

lemma public_id_segment: "is_ascii_alphanumeric kind \<Longrightarrow> segment (new_public_id kind uuid)"
proof -
  assume kind: "is_ascii_alphanumeric kind"
  have "\<forall>c \<in> set ALPHABET. unreserved c" by code_simp
  then have "list_all unreserved (new_public_id kind uuid)"
    using digit_char kind by (fastforce simp: new_public_id_def encode_public_id_def list_all_iff unreserved_def)
  moreover have "hd (new_public_id kind uuid) = kind" "new_public_id kind uuid \<noteq> []" by (simp_all add: new_public_id_def encode_public_id_def)
  moreover have "kind \<noteq> CHR ''.''" using kind by (auto simp: is_ascii_alphanumeric_def)
  ultimately show "segment (new_public_id kind uuid)" by (auto simp: segment_def)
qed

text \<open>What is relied on: a URL made of plain segments is matched against exactly these, and a token is sent in a header
  of the scheme \<open>Bearer\<close>.\<close>

definition url_of :: "string \<Rightarrow> string list \<Rightarrow> string" where
  "url_of base segs = base @ ''/api/v1'' @ concat (map (Cons CHR ''/'') segs)"

definition faithful :: "http_wire \<Rightarrow> string \<Rightarrow> bool" where
  "faithful h base \<longleftrightarrow> (\<forall>segs. segs \<noteq> [] \<longrightarrow> list_all segment segs \<longrightarrow> hw_path h (url_of base segs) = segs) \<and>
     (\<forall>t. hw_bearer h t = ''Bearer '' @ t)"

definition create_body :: "string \<Rightarrow> string option \<Rightarrow> env_map \<Rightarrow> drop_to option \<Rightarrow> create_session_request" where
  "create_body profile workdir en ident = \<lparr>req_profile = profile, req_workdir = workdir, req_env = en,
     req_drop_to = ident, req_cols = 80, req_rows = 24\<rparr>"

lemmas request_defs = profiles_request_def create_request_def session_status_request_def release_request_def
  submit_request_def command_status_request_def list_request_def kill_request_def read_request_def auth_def plain_request_def

lemma client_paths:
  assumes "faithful w (cl_base cl)" and "segment (sid_str sid)" and "segment h"
  shows "hw_path w (client_url cl ''/profiles'') = [''profiles'']"
    and "hw_path w (client_url cl ''/sessions'') = [''sessions'']"
    and "hw_path w (client_url cl (session_url sid)) = [''sessions'', sid_str sid]"
    and "hw_path w (client_url cl (commands_url sid)) = [''sessions'', sid_str sid, ''commands'']"
    and "hw_path w (client_url cl (command_url sid h)) = [''sessions'', sid_str sid, ''commands'', h]"
    and "hw_path w (client_url cl (command_url sid h @ ''/'' @ stream_str which))
      = [''sessions'', sid_str sid, ''commands'', h, stream_str which]"
proof -
  have words: "segment ''profiles''" "segment ''sessions''" "segment ''commands''" "segment (stream_str which)" for which
    by (code_simp, code_simp, code_simp) (cases which, simp_all only: stream_str.simps, code_simp+)
  have path: "hw_path w p = segs" if "p = url_of (cl_base cl) segs" "segs \<noteq> []" "list_all segment segs" for p segs
    using assms(1) that by (simp add: faithful_def)
  note url = url_of_def client_url_def session_url_def commands_url_def command_url_def
  show "hw_path w (client_url cl ''/profiles'') = [''profiles'']" by (rule path) (simp_all add: url words)
  show "hw_path w (client_url cl ''/sessions'') = [''sessions'']" by (rule path) (simp_all add: url words)
  show "hw_path w (client_url cl (session_url sid)) = [''sessions'', sid_str sid]"
    by (rule path) (simp_all add: url words assms)
  show "hw_path w (client_url cl (commands_url sid)) = [''sessions'', sid_str sid, ''commands'']"
    by (rule path) (simp_all add: url words assms)
  show "hw_path w (client_url cl (command_url sid h)) = [''sessions'', sid_str sid, ''commands'', h]"
    by (rule path) (simp_all add: url words assms)
  show "hw_path w (client_url cl (command_url sid h @ ''/'' @ stream_str which))
      = [''sessions'', sid_str sid, ''commands'', h, stream_str which]"
    by (rule path) (simp_all add: url words assms)
qed

text \<open>The server's answer to a request of the client.\<close>

definition answer :: "(string \<Rightarrow> string option \<Rightarrow> bool) \<Rightarrow> app_state \<Rightarrow> http_world \<Rightarrow> pool \<Rightarrow> http_wire \<Rightarrow> client_request \<Rightarrow>
    (nat \<times> body) \<times> pool \<times> effect list" where
  "answer bearer_ok st W p h rq = handle_request bearer_ok st W (received h rq) p"

lemma answer_route:
  assumes "bearer_ok (as_auth_token st) (rq_authorization (received h rq))"
    and "resource_of (hw_path h (cq_url rq)) = Some r" and "allowed (cq_method rq) r"
  shows "answer bearer_ok st W p h rq = serve_resource st W (received h rq) r p"
  using assms by (simp add: answer_def handle_request_def received_def)

text \<open>
  C39: Client and server agree on every endpoint: a request of the client with the server's token, for a session id and
  a handle that a URL carries as they are (unreserved characters and no dot segment, as in every id the server mints),
  and with a body that arrives as it was sent, passes the bearer check and reaches exactly the handler meant, with
  exactly the ids and the body given.  That URLs of such segments and the header of the token arrive as documented is
  the hypothesis on the HTTP libraries.
\<close>

theorem client_reaches_handlers:
  assumes "bearer_ok (as_auth_token st) (Some (''Bearer '' @ as_auth_token st))"
    and "cl_token cl = Some (as_auth_token st)" and "faithful w (cl_base cl)"
    and "segment (sid_str sid)" and "segment h"
    and "hw_create w (create_body profile workdir en ident) = Inr (create_body profile workdir en ident)"
    and "hw_run w \<lparr>req_command = cmd, req_mode = mode\<rparr> = Inr \<lparr>req_command = cmd, req_mode = mode\<rparr>"
  shows "answer bearer_ok st W p w (profiles_request cl) = ((status_OK, ProfilesBody (profiles p)), p, []) \<and>
    answer bearer_ok st W p w (create_request cl profile workdir en ident)
      = (let (x, q, fx) = create_handler st W (create_body profile workdir en ident) p in (reply status_CREATED SessionBody x, q, fx)) \<and>
    answer bearer_ok st W p w (session_status_request cl sid)
      = (let (x, q) = status_handler W sid p in (reply status_OK SessionBody x, q, [])) \<and>
    answer bearer_ok st W p w (release_request cl sid)
      = (let (x, q, fx) = close_handler W sid p in (reply status_OK SessionBody x, q, fx)) \<and>
    answer bearer_ok st W p w (submit_request cl sid cmd mode)
      = (let (x, q, fx) = run_handler st W sid \<lparr>req_command = cmd, req_mode = mode\<rparr> p in (reply status_ACCEPTED SpawnBody x, q, fx)) \<and>
    answer bearer_ok st W p w (list_request cl sid)
      = (let (x, q) = list_handler W sid p in (reply status_OK StatusesBody x, q, [])) \<and>
    answer bearer_ok st W p w (command_status_request cl sid h)
      = (let (x, q) = command_status_handler W sid (ExecId h) p in (reply status_OK StatusBody x, q, [])) \<and>
    answer bearer_ok st W p w (kill_request cl sid h)
      = (let (x, q, fx) = cancel_handler W sid (ExecId h) p in (reply status_OK HandleBody x, q, fx)) \<and>
    answer bearer_ok st W p w (read_request cl sid h which rng)
      = (let (x, q) = stream_handler st W sid (ExecId h) which p in (reply (stream_code W x) StreamBody x, q, []))"
proof -
  note paths = client_paths [OF assms(3-5)]
  have ne: "sid_str sid \<noteq> []" "h \<noteq> []" using segment_no_slash assms(4,5) by blast+
  have id: "SessionId (sid_str sid) = sid" by (cases sid) simp
  have auth: "bearer_ok (as_auth_token st) (rq_authorization (received w rq))" if "cq_bearer rq = cl_token cl" for rq
    using that assms(1-3) by (simp add: received_def faithful_def)
  note defs = answer_route [where bearer_ok = bearer_ok, OF auth] request_defs paths ne id assms(2) allowed_def is_get_def
    serve_resource_def received_def
  note bodies = assms(6) [unfolded create_body_def] assms(7)
  note stream = paths(6) [where which = OutStream, simplified stream_str.simps append.simps]
    paths(6) [where which = ErrStream, simplified stream_str.simps append.simps]
  show ?thesis by (intro conjI; cases which; simp add: defs stream create_body_def bodies)
qed

text \<open>An instance: a wire that cuts the URL at its slashes.\<close>

definition plain_wire :: "string \<Rightarrow> http_wire" where
  "plain_wire base = \<lparr>hw_path = (\<lambda>url. split_char CHR ''/'' (drop (length (base @ ''/api/v1/'')) url)),
     hw_bearer = (@) ''Bearer '', hw_create = Inr, hw_run = Inr\<rparr>"

lemma split_segments: "segs \<noteq> [] \<Longrightarrow> list_all segment segs \<Longrightarrow> split_char CHR ''/'' (tl (concat (map (Cons CHR ''/'') segs))) = segs"
proof (induction segs)
  case (Cons x segs)
  then show ?case using segment_no_slash [of x]
    by (cases segs) (simp_all add: split_char_append split_char_none)
qed simp

lemma plain_wire_faithful: "faithful (plain_wire base) base"
proof -
  have "drop (Suc (length (base @ ''/api/v1''))) (url_of base segs) = tl (concat (map (Cons CHR ''/'') segs))" for segs
    by (simp add: url_of_def drop_Suc)
  then show ?thesis by (simp add: faithful_def plain_wire_def split_segments)
qed

definition demo_client_lib :: client where
  "demo_client_lib = new_client ''http://host/'' (Some ''secret'')"

theorem client_reaches_handlers_witness:
  "answer exact_bearer demo_app demo_http (sp (demo demo_run)) (plain_wire ''http://host'') (kill_request demo_client_lib (SessionId ''s'') ''c'')
     = (let (x, q, fx) = cancel_handler demo_http (SessionId ''s'') (ExecId ''c'') (sp (demo demo_run))
        in (reply status_OK HandleBody x, q, fx))"
proof -
  have b: "exact_bearer (as_auth_token demo_app) (Some (''Bearer '' @ as_auth_token demo_app))"
    and t: "cl_token demo_client_lib = Some (as_auth_token demo_app)" and base: "cl_base demo_client_lib = ''http://host''"
    by (simp_all add: exact_bearer_def demo_client_lib_def new_client_def demo_app_def)
  have s: "segment (sid_str (SessionId ''s''))" "segment ''c''" by code_simp+
  have body: "hw_create (plain_wire ''http://host'') b = Inr b" "hw_run (plain_wire ''http://host'') r = Inr r" for b r
    by (simp_all add: plain_wire_def)
  have f: "faithful (plain_wire ''http://host'') (cl_base demo_client_lib)" unfolding base by (rule plain_wire_faithful)
  from client_reaches_handlers [where bearer_ok = exact_bearer and st = demo_app and cl = demo_client_lib, OF b t f s body,
      of demo_http "sp (demo demo_run)"] show ?thesis by blast
qed

text \<open>
  A client is told that all workers are busy exactly when they are: a creation answered by the server
  fails with \<open>NoIdleWorker\<close> if and only if the request is valid and the pool has no idle worker of the
  profile; no other failure of a creation is taken for it.
\<close>

theorem all_busy_exact:
  assumes "bearer_ok (as_auth_token st) (Some (''Bearer '' @ as_auth_token st))" and "cl_token cl = Some (as_auth_token st)"
    and "faithful w (cl_base cl)" and "hw_create w (create_body profile workdir en ident) = Inr (create_body profile workdir en ident)"
    and "send (create_request cl profile workdir en ident) = Inr resp"
    and "hp_status resp = fst (fst (answer bearer_ok st W p w (create_request cl profile workdir en ident)))"
  shows "client_create_session send dec cl profile workdir en ident = Inl AllBusy \<longleftrightarrow>
    validate_session_request (create_body profile workdir en ident) = Inr () \<and>
    fst (create_session (as_config st) (ht_pool W) (ht_chan W) profile
      (open_frame_of st (ht_uuid W) (create_body profile workdir en ident)) p) = Inl Busy"
proof -
  let ?b = "create_body profile workdir en ident"
  have rp: "req_profile ?b = profile" by (simp add: create_body_def)
  have s: "segment (sid_str (SessionId ''s''))" by code_simp
  have url: "resource_of (hw_path w (client_url cl ''/sessions'')) = Some SessionsPath"
    using client_paths(2) [OF assms(3) s s] by simp
  have "answer bearer_ok st W p w (create_request cl profile workdir en ident)
      = (let (x, q, fx) = create_handler st W ?b p in (reply status_CREATED SessionBody x, q, fx))"
    by (subst answer_route [where r = SessionsPath])
      (use assms(1-4) url in \<open>simp_all add: request_defs received_def faithful_def allowed_def serve_resource_def create_body_def\<close>)
  moreover have "fst (reply status_CREATED SessionBody (fst (create_handler st W ?b p))) = status_TOO_MANY_REQUESTS \<longleftrightarrow>
     validate_session_request ?b = Inr () \<and>
     fst (create_session (as_config st) (ht_pool W) (ht_chan W) profile (open_frame_of st (ht_uuid W) ?b) p) = Inl Busy"
    by (auto simp: create_handler_def reply_def map_error_def validate_session_request_def BAD_REQUEST_def rp
      split: sum.splits prod.splits session_error.splits if_splits)
  moreover have "client_create_session send dec cl profile workdir en ident = Inl AllBusy \<longleftrightarrow> hp_status resp = 429"
    using assms(5) by (auto simp: client_create_session_def call_def read_json_def error_for_status_def split: sum.splits)
  ultimately show ?thesis using assms(6) by (simp add: Let_def split_beta)
qed

definition demo_transport :: transport where
  "demo_transport rq = Inr \<lparr>hp_status = fst (fst (answer exact_bearer demo_app demo_http new_pool (plain_wire ''http://host'') rq)),
     hp_content_range = None, hp_text = Inr [], hp_bytes = Inr []\<rparr>"

theorem all_busy_exact_witness:
  "client_create_session demo_transport (\<lambda>_. Inl ''no JSON'') demo_client_lib ''default'' None [] None \<noteq> Inl AllBusy"
proof -
  let ?rq = "create_request demo_client_lib ''default'' None [] None"
  have b: "exact_bearer (as_auth_token demo_app) (Some (''Bearer '' @ as_auth_token demo_app))"
    and t: "cl_token demo_client_lib = Some (as_auth_token demo_app)"
    by (simp_all add: exact_bearer_def demo_client_lib_def new_client_def demo_app_def)
  have f: "faithful (plain_wire ''http://host'') (cl_base demo_client_lib)"
    using plain_wire_faithful by (simp add: demo_client_lib_def new_client_def)
  have c: "hw_create (plain_wire ''http://host'') (create_body ''default'' None [] None) = Inr (create_body ''default'' None [] None)"
    by (simp add: plain_wire_def)
  have r: "demo_transport ?rq = Inr \<lparr>hp_status = fst (fst (answer exact_bearer demo_app demo_http new_pool (plain_wire ''http://host'') ?rq)),
     hp_content_range = None, hp_text = Inr [], hp_bytes = Inr []\<rparr>" by (simp add: demo_transport_def)
  have "fst (create_session (as_config demo_app) (ht_pool demo_http) (ht_chan demo_http) ''default''
      (open_frame_of demo_app (ht_uuid demo_http) (create_body ''default'' None [] None)) new_pool) = Inl UnknownProfile"
    by (simp add: create_session_def create_reserve_def new_pool_def)
  with all_busy_exact [where send = demo_transport and bearer_ok = exact_bearer and st = demo_app and cl = demo_client_lib
      and dec = "\<lambda>_. Inl ''no JSON''", OF b t f c r] show ?thesis by simp
qed

end
