(* ===== verification/WorkerJobs.thy ===== *)
theory WorkerJobs
  imports WorkerSession
begin

text \<open>
  The tasks a session host starts beside its shell, in \<open>shiitake-worker/src/client.rs\<close>: \<open>tail_capture\<close>, which
  follows a growing output file, \<open>run_session_job\<close>, which runs a parallel command between two tails, and
  \<open>prepare_stateful_job\<close>, which sets up the files of a stateful one.
\<close>

section \<open>Following a file\<close>

datatype tail_state = TailOpening | TailReading | TailOver

text \<open>An attempt to open with the check after a failure, or a read: bytes with whether the event could be
  sent, the end of the file with the check after it, or an error.  A check sees whether the job is over or
  has dropped the channel.\<close>

datatype tail_input = TailOpen bool bool | TailRead bytes bool | TailEof bool | TailFailed

definition tail_turn :: "exec_id \<Rightarrow> output_stream \<Rightarrow> tail_state \<Rightarrow> tail_input \<Rightarrow> tail_state \<times> session_event list" where
  "tail_turn rid which s i =
     (case s of
       TailOpening \<Rightarrow>
         (case i of
           TailOpen opened over \<Rightarrow> (if opened then TailReading else if over then TailOver else TailOpening, [])
         | _ \<Rightarrow> (s, []))
     | TailReading \<Rightarrow>
         (case i of
           TailEof over \<Rightarrow> (if over then TailOver else TailReading, [])
         | TailRead bs sent \<Rightarrow> (if sent then (TailReading, [EvOutput rid which bs]) else (TailOver, []))
         | TailFailed \<Rightarrow> (TailOver, [])
         | _ \<Rightarrow> (s, []))
     | TailOver \<Rightarrow> (s, []))"

definition tail_capture :: "exec_id \<Rightarrow> output_stream \<Rightarrow> tail_input list \<Rightarrow> tail_state \<times> session_event list" where
  "tail_capture rid which is = drive (\<lambda>s. s \<noteq> TailOver) (tail_turn rid which) is TailOpening"

section \<open>A parallel command\<close>

datatype job_step = JobSent session_event | JobPurged exec_id

text \<open>The two tails send on one channel, in any order.\<close>

fun interleave :: "bool list \<Rightarrow> 'a list \<Rightarrow> 'a list \<Rightarrow> 'a list" where
  "interleave (True # cs) (x # xs) ys = x # interleave cs xs ys"
| "interleave (False # cs) xs (y # ys) = y # interleave cs xs ys"
| "interleave _ xs ys = xs @ ys"

text \<open>The outcome of \<open>exec::run\<close> is an argument; the result waits for both tails.\<close>

definition run_session_job :: "execute_frame \<Rightarrow> string + result_frame \<Rightarrow> bool list \<Rightarrow>
    tail_state \<times> session_event list \<Rightarrow> tail_state \<times> session_event list \<Rightarrow> job_step list" where
  "run_session_job e outcome cs out err =
     (let rid = request_id e;
          r = (case outcome of Inr r \<Rightarrow> r | Inl msg \<Rightarrow> errored rid (''worker error: '' @ msg))
      in map JobSent (interleave cs (snd out) (snd err))
         @ (if fst out = TailOver \<and> fst err = TailOver
            then [JobSent (EvResult (r\<lparr>res_usage := default_usage\<rparr>)), JobPurged rid] else []))"

section \<open>A stateful command\<close>

text \<open>The two tails run beside the watcher.  On a result the tails are told that the command is over and are waited
  for; on an abort, or when the session has gone, they are cut off and the local files removed.\<close>

definition run_stateful_job :: "execute_frame \<Rightarrow> watch_round list \<Rightarrow> bool list \<Rightarrow> bool list \<Rightarrow>
    tail_state \<times> session_event list \<Rightarrow> tail_state \<times> session_event list \<Rightarrow> job_step list" where
  "run_stateful_job e rounds cs ds out err =
     (let rid = request_id e;
          (s, evs) = watch_stateful_job rid rounds;
          interrupts = filter (\<lambda>ev. ev = EvInterrupt) evs;
          verdict = filter (\<lambda>ev. ev \<noteq> EvInterrupt) evs
      in map JobSent (interleave ds interrupts (interleave cs (snd out) (snd err))) @
         (if wj_live s then []
          else case verdict of
            EvResult r # _ \<Rightarrow> if fst out = TailOver \<and> fst err = TailOver then [JobSent (EvResult r)] else []
          | EvAbort x # _ \<Rightarrow> [JobPurged rid, JobSent (EvAbort x)]
          | _ \<Rightarrow> [JobPurged rid]))"

section \<open>Setting up a stateful command\<close>

datatype job_op =
    MakeJobDir path
  | WriteScript path string
  | CreateStream path
  | GiveTo path "32 word" "32 word"

definition give_to_session_user :: "execute_frame \<Rightarrow> path \<Rightarrow> job_op list" where
  "give_to_session_user e p = (case exec_drop_to e of None \<Rightarrow> [] | Some d \<Rightarrow> [GiveTo p (uid d) (gid d)])"

text \<open>An absolute path as text.\<close>

definition path_text :: "path \<Rightarrow> string" where
  "path_text p = concat (map (\<lambda>c. CHR ''/'' # c) p)"

definition job_file :: "path \<Rightarrow> exec_id \<Rightarrow> string \<Rightarrow> path" where
  "job_file root rid name = path_join (handle_dir root rid) name"

definition job_files :: "path \<Rightarrow> exec_id \<Rightarrow> job_paths" where
  "job_files root rid = \<lparr>jp_cwd = path_text (job_file root rid ''cwd''), jp_env = path_text (job_file root rid ''env''),
     jp_status = path_text (job_file root rid ''status''), jp_script = path_text (job_file root rid ''command.sh''),
     jp_stdout = path_text (stream_path root rid OutStream), jp_stderr = path_text (stream_path root rid ErrStream)\<rparr>"

definition setup_ops :: "path \<Rightarrow> execute_frame \<Rightarrow> job_op list" where
  "setup_ops root e =
     (let rid = request_id e; give = give_to_session_user e; dir = handle_dir root rid;
          script = job_file root rid ''command.sh'';
          out = stream_path root rid OutStream; err = stream_path root rid ErrStream
      in [MakeJobDir dir] @ give dir @ [WriteScript script (command e)] @ give script
         @ [CreateStream out] @ give out @ [CreateStream err] @ give err)"

text \<open>The operations up to the first that fails.\<close>

fun until_failure :: "(job_op \<Rightarrow> string option) \<Rightarrow> job_op list \<Rightarrow> string option \<times> job_op list" where
  "until_failure fails [] = (None, [])"
| "until_failure fails (x # xs) =
     (case fails x of
       Some e \<Rightarrow> (Some e, [x])
     | None \<Rightarrow> (let (r, ys) = until_failure fails xs in (r, x # ys)))"

definition prepare_stateful_job :: "(job_op \<Rightarrow> string option) \<Rightarrow> path \<Rightarrow> execute_frame \<Rightarrow> string \<Rightarrow>
    (string + string \<times> bytes) \<times> job_op list" where
  "prepare_stateful_job fails root e nonce =
     (case until_failure fails (setup_ops root e) of
       (Some msg, ops) \<Rightarrow> (Inl msg, ops)
     | (None, ops) \<Rightarrow> (Inr (stateful_line (job_files root (request_id e)) nonce, completion_marker nonce), ops))"

section \<open>Output\<close>

text \<open>What the tail of a file sees.  \<open>content t\<close> is the file at time \<open>t\<close>, \<open>over t\<close> whether a check at that
  time sees the job over; an entry of the schedule is the time of an open or a read, the time of the check
  that follows it, and how much a read returns at most.  A read of a file returns at least a byte unless it
  is at the end.\<close>

fun tail_inputs :: "(time \<Rightarrow> bytes option) \<Rightarrow> (time \<Rightarrow> bool) \<Rightarrow> (time \<times> time \<times> nat) list \<Rightarrow> bool \<Rightarrow> nat \<Rightarrow> tail_input list" where
  "tail_inputs content over [] opened pos = []"
| "tail_inputs content over ((t, u, n) # sched) opened pos =
     (if opened then
        let bs = take (max 1 (min n 32768)) (drop pos (the (content t)))
        in (if bs = [] then TailEof (over u) else TailRead bs True)
           # tail_inputs content over sched True (pos + length bs)
      else TailOpen (content t \<noteq> None) (over u) # tail_inputs content over sched (content t \<noteq> None) pos)"

text \<open>A file only appears and grows.\<close>

definition growing :: "(time \<Rightarrow> bytes option) \<Rightarrow> bool" where
  "growing content \<longleftrightarrow> (\<forall>t u bs. t \<le> u \<longrightarrow> content t = Some bs \<longrightarrow> (\<exists>more. content u = Some (bs @ more)))"

lemma growingD: "growing content \<Longrightarrow> t \<le> u \<Longrightarrow> content t = Some bs \<Longrightarrow> \<exists>more. content u = Some (bs @ more)"
  by (simp add: growing_def)

definition text_at :: "(time \<Rightarrow> bytes option) \<Rightarrow> time \<Rightarrow> bytes" where
  "text_at content t = (case content t of None \<Rightarrow> [] | Some bs \<Rightarrow> bs)"

definition stream_of :: "exec_id \<Rightarrow> output_stream \<Rightarrow> session_event list \<Rightarrow> bytes" where
  "stream_of rid which evs = concat (map (\<lambda>e. case e of EvOutput r w bs \<Rightarrow> if r = rid \<and> w = which then bs else [] | _ \<Rightarrow> []) evs)"

lemma stream_of_simps [simp]:
  "stream_of rid which [] = []"
  "stream_of rid which (e # evs) = (case e of EvOutput r w bs \<Rightarrow> if r = rid \<and> w = which then bs else [] | _ \<Rightarrow> []) @ stream_of rid which evs"
  "stream_of rid which (as @ bs) = stream_of rid which as @ stream_of rid which bs"
  by (simp_all add: stream_of_def)

lemma tail_turn_simps:
  "tail_turn rid which TailOpening (TailOpen opened over) = (if opened then TailReading else if over then TailOver else TailOpening, [])"
  "tail_turn rid which TailReading (TailEof over) = (if over then TailOver else TailReading, [])"
  "tail_turn rid which TailReading (TailRead bs True) = (TailReading, [EvOutput rid which bs])"
  by (simp_all add: tail_turn_def)

lemma tail_over [simp]: "drive (\<lambda>s. s \<noteq> TailOver) turn is TailOver = (TailOver, [])"
  by (cases "is") simp_all

lemma tail_reading:
  assumes "growing content" and "\<And>t. t0 \<le> t \<Longrightarrow> \<exists>r. content t = Some (d @ r)"
    and "sorted (map fst sched)" and "\<And>x. x \<in> set sched \<Longrightarrow> t0 \<le> fst x"
    and "drive (\<lambda>s. s \<noteq> TailOver) (tail_turn rid which) (tail_inputs content over sched True (length d)) TailReading = (s, evs)"
    and "s = TailOver"
  shows "\<exists>(t, u, n) \<in> set sched. over u \<and> d @ stream_of rid which evs = text_at content t"
  using assms(2-)
proof (induction sched arbitrary: t0 d evs)
  case Nil
  then show ?case by simp
next
  case (Cons x sched)
  obtain t u n where x: "x = (t, u, n)" by (cases x)
  have t: "t0 \<le> t" using Cons.prems(3) [of x] by (simp add: x)
  then obtain r where r: "content t = Some (d @ r)" using Cons.prems(1) by blast
  have later: "t \<le> fst y" if "y \<in> set sched" for y using Cons.prems(2) that by (auto simp: x)
  let ?bs = "take (max 1 (min n 32768)) r"
  have grown: "\<exists>q. content v = Some ((d @ ?bs) @ q)" if "t \<le> v" for v
  proof -
    from growingD [OF assms(1) that r] obtain more where "content v = Some ((d @ r) @ more)" ..
    moreover have "r = ?bs @ drop (max 1 (min n 32768)) r" by simp
    ultimately have "content v = Some ((d @ ?bs) @ drop (max 1 (min n 32768)) r @ more)" by (metis append.assoc)
    then show ?thesis by (rule exI)
  qed
  have sched: "sorted (map fst sched)" using Cons.prems(2) by simp
  show ?case
  proof (cases "r = []")
    case True
    show ?thesis
    proof (cases "over u")
      case True
      have "evs = []" using Cons.prems(4) \<open>r = []\<close> True by (simp add: x r tail_turn_simps)
      then show ?thesis using True \<open>r = []\<close> by (auto simp: x r text_at_def)
    next
      case False
      have "drive (\<lambda>s. s \<noteq> TailOver) (tail_turn rid which) (tail_inputs content over sched True (length d)) TailReading = (s, evs)"
        using Cons.prems(4) \<open>r = []\<close> False by (simp add: x r tail_turn_simps)
      from Cons.IH [OF _ sched _ this Cons.prems(5), of t] grown later \<open>r = []\<close>
      obtain z where "z \<in> set sched" "case z of (t, u, n) \<Rightarrow> over u \<and> d @ stream_of rid which evs = text_at content t"
        by auto
      then show ?thesis by auto
    qed
  next
    case False
    then have ne: "?bs \<noteq> []" by (simp add: max_def)
    obtain evs1 where evs: "evs = EvOutput rid which ?bs # evs1" and
      "drive (\<lambda>s. s \<noteq> TailOver) (tail_turn rid which) (tail_inputs content over sched True (length (d @ ?bs))) TailReading = (s, evs1)"
      using Cons.prems(4) ne by (auto simp: x r tail_turn_simps Let_def split_beta)
    from Cons.IH [OF grown sched later this(2) Cons.prems(5)]
    obtain z where "z \<in> set sched"
      "case z of (t, u, n) \<Rightarrow> over u \<and> (d @ ?bs) @ stream_of rid which evs1 = text_at content t" by auto
    then show ?thesis by (auto simp: evs)
  qed
qed

lemma tail_opening:
  assumes "growing content" and "sorted (map fst sched)"
    and "drive (\<lambda>s. s \<noteq> TailOver) (tail_turn rid which) (tail_inputs content over sched False 0) TailOpening = (s, evs)"
    and "s = TailOver"
  shows "\<exists>(t, u, n) \<in> set sched. over u \<and> stream_of rid which evs = text_at content t"
  using assms(2-)
proof (induction sched arbitrary: evs)
  case Nil
  then show ?case by simp
next
  case (Cons x sched)
  obtain t u n where x: "x = (t, u, n)" by (cases x)
  show ?case
  proof (cases "content t")
    case None
    show ?thesis
    proof (cases "over u")
      case True
      then show ?thesis using Cons.prems(2) None by (cases "tail_inputs content over sched False 0") (auto simp: x tail_turn_simps text_at_def)
    next
      case False
      with Cons.prems None have "drive (\<lambda>s. s \<noteq> TailOver) (tail_turn rid which) (tail_inputs content over sched False 0) TailOpening = (s, evs)"
        by (simp add: x tail_turn_simps)
      from Cons.IH [OF _ this Cons.prems(3)] Cons.prems(1) show ?thesis by auto
    qed
  next
    case (Some b)
    have grown: "\<exists>r. content v = Some ([] @ r)" if "t \<le> v" for v
      using growingD [OF assms(1) that Some] by auto
    have "drive (\<lambda>s. s \<noteq> TailOver) (tail_turn rid which) (tail_inputs content over sched True (length ([] :: bytes))) TailReading = (s, evs)"
      using Cons.prems(2) Some by (simp add: x tail_turn_simps)
    from tail_reading [OF assms(1) grown _ _ this Cons.prems(3), of t] Cons.prems(1) show ?thesis
      by (auto simp: x)
  qed
qed

lemma interleave_left: "\<forall>y \<in> set ys. f y = [] \<Longrightarrow> concat (map f (interleave cs xs ys)) = concat (map f xs)"
  by (induction cs xs ys rule: interleave.induct) simp_all

lemma interleave_right: "\<forall>x \<in> set xs. f x = [] \<Longrightarrow> concat (map f (interleave cs xs ys)) = concat (map f ys)"
  by (induction cs xs ys rule: interleave.induct) simp_all

lemma set_interleave: "set (interleave cs xs ys) = set xs \<union> set ys"
  by (induction cs xs ys rule: interleave.induct) auto

lemma tail_turn_events: "e \<in> set (snd (tail_turn rid which s i)) \<Longrightarrow> \<exists>bs. e = EvOutput rid which bs"
  by (cases s; cases i) (auto simp: tail_turn_def split: if_splits)

lemma tail_events:
  assumes "e \<in> set (snd (tail_capture rid which is))"
  obtains bs where "e = EvOutput rid which bs"
proof -
  from drive_effect [OF assms [unfolded tail_capture_def]] obtain i s where "e \<in> set (snd (tail_turn rid which s i))"
    by blast
  from tail_turn_events [OF this] that show thesis by blast
qed

text \<open>Both streams, whole as of a read that saw the command over, among the events of the two tails.\<close>

lemma tails_whole:
  assumes "growing file_out" and "growing file_err" and "sorted (map fst sched_out)" and "sorted (map fst sched_err)"
    and "out = tail_capture rid Stdout (tail_inputs file_out over sched_out False 0)"
    and "err = tail_capture rid Stderr (tail_inputs file_err over sched_err False 0)"
    and "fst out = TailOver" and "fst err = TailOver" and "evs = interleave cs (snd out) (snd err)"
  shows "(\<exists>(t, u, n) \<in> set sched_out. over u \<and> stream_of rid Stdout evs = text_at file_out t) \<and>
    (\<exists>(t, u, n) \<in> set sched_err. over u \<and> stream_of rid Stderr evs = text_at file_err t) \<and>
    (\<forall>ev \<in> set evs. \<exists>w bs. ev = EvOutput rid w bs)"
proof (intro conjI)
  have silent_err: "\<forall>y \<in> set (snd err). (case y of EvOutput q w bs \<Rightarrow> if q = rid \<and> w = Stdout then bs else [] | _ \<Rightarrow> []) = []"
    by (auto simp: assms(6) elim!: tail_events)
  have silent_out: "\<forall>y \<in> set (snd out). (case y of EvOutput q w bs \<Rightarrow> if q = rid \<and> w = Stderr then bs else [] | _ \<Rightarrow> []) = []"
    by (auto simp: assms(5) elim!: tail_events)
  have "stream_of rid Stdout evs = stream_of rid Stdout (snd out)"
    unfolding stream_of_def assms(9) by (rule interleave_left [OF silent_err])
  with tail_opening [OF assms(1,3) prod.collapse [symmetric, of out, unfolded assms(5) tail_capture_def]] assms(5,7)
  show "\<exists>(t, u, n) \<in> set sched_out. over u \<and> stream_of rid Stdout evs = text_at file_out t" by (simp add: tail_capture_def)
  have "stream_of rid Stderr evs = stream_of rid Stderr (snd err)"
    unfolding stream_of_def assms(9) by (rule interleave_right [OF silent_out])
  with tail_opening [OF assms(2,4) prod.collapse [symmetric, of err, unfolded assms(6) tail_capture_def]] assms(6,8)
  show "\<exists>(t, u, n) \<in> set sched_err. over u \<and> stream_of rid Stderr evs = text_at file_err t" by (simp add: tail_capture_def)
  show "\<forall>ev \<in> set evs. \<exists>w bs. ev = EvOutput rid w bs"
    using set_interleave [of cs "snd out" "snd err"] by (auto simp: assms(5,6,9) elim: tail_events)
qed

text \<open>
  The result of a parallel command comes after its output: when a job sends its result, that is its
  last event, sent once and without resource readings, only the removal of the local files follows, and
  for each of the two streams what was sent before it is, whole, in order and unmixed, the file as it was
  at a read whose check saw the command over.
\<close>

theorem job_output_before_result:
  assumes "growing file_out" and "growing file_err" and "sorted (map fst sched_out)" and "sorted (map fst sched_err)"
    and "steps = run_session_job e outcome cs
      (tail_capture (request_id e) Stdout (tail_inputs file_out over sched_out False 0))
      (tail_capture (request_id e) Stderr (tail_inputs file_err over sched_err False 0))"
    and "JobSent (EvResult r) \<in> set steps"
  shows "\<exists>evs. steps = map JobSent evs @ [JobSent (EvResult r), JobPurged (request_id e)] \<and>
    EvResult r \<notin> set evs \<and> res_usage r = default_usage \<and>
    (\<exists>(t, u, n) \<in> set sched_out. over u \<and> stream_of (request_id e) Stdout evs = text_at file_out t) \<and>
    (\<exists>(t, u, n) \<in> set sched_err. over u \<and> stream_of (request_id e) Stderr evs = text_at file_err t)"
proof -
  let ?rid = "request_id e"
  let ?out = "tail_capture ?rid Stdout (tail_inputs file_out over sched_out False 0)"
  let ?err = "tail_capture ?rid Stderr (tail_inputs file_err over sched_err False 0)"
  let ?evs = "interleave cs (snd ?out) (snd ?err)"
  have no: "EvResult r \<notin> set ?evs"
    using set_interleave [of cs "snd ?out" "snd ?err"] by (auto elim: tail_events)
  have over: "fst ?out = TailOver" "fst ?err = TailOver"
    using assms(5,6) no by (auto simp: run_session_job_def Let_def split: if_splits)
  have "steps = map JobSent ?evs @ [JobSent (EvResult r), JobPurged ?rid]" "res_usage r = default_usage"
    using assms(5,6) no over by (auto simp: run_session_job_def Let_def)
  with tails_whole [OF assms(1-4) refl refl over refl, of cs] no show ?thesis by (intro exI [of _ ?evs]) blast
qed

text \<open>So does the result of a stateful command.\<close>

lemma stateful_output_before_result:
  assumes "growing file_out" and "growing file_err" and "sorted (map fst sched_out)" and "sorted (map fst sched_err)"
    and "steps = run_stateful_job e rounds cs ds
      (tail_capture (request_id e) Stdout (tail_inputs file_out over sched_out False 0))
      (tail_capture (request_id e) Stderr (tail_inputs file_err over sched_err False 0))"
    and "JobSent (EvResult r) \<in> set steps"
  shows "\<exists>evs. steps = map JobSent evs @ [JobSent (EvResult r)] \<and> EvResult r \<notin> set evs \<and>
    (\<exists>(t, u, n) \<in> set sched_out. over u \<and> stream_of (request_id e) Stdout evs = text_at file_out t) \<and>
    (\<exists>(t, u, n) \<in> set sched_err. over u \<and> stream_of (request_id e) Stderr evs = text_at file_err t)"
proof -
  let ?rid = "request_id e"
  let ?out = "tail_capture ?rid Stdout (tail_inputs file_out over sched_out False 0)"
  let ?err = "tail_capture ?rid Stderr (tail_inputs file_err over sched_err False 0)"
  let ?is = "filter (\<lambda>ev. ev = EvInterrupt) (snd (watch_stateful_job ?rid rounds))"
  let ?tails = "interleave cs (snd ?out) (snd ?err)"
  let ?evs = "interleave ds ?is ?tails"
  have no: "EvResult r \<notin> set ?evs"
    using set_interleave [of cs "snd ?out" "snd ?err"] set_interleave [of ds ?is ?tails] by (auto elim: tail_events)
  have over: "fst ?out = TailOver" "fst ?err = TailOver" and steps: "steps = map JobSent ?evs @ [JobSent (EvResult r)]"
    using assms(5,6) no
    by (auto simp: run_stateful_job_def Let_def split_beta split: if_splits list.splits session_event.splits)
  have "stream_of ?rid w ?evs = stream_of ?rid w ?tails" for w
    unfolding stream_of_def by (rule interleave_right) simp
  with tails_whole [OF assms(1-4) refl refl over refl, of cs] no steps show ?thesis by (intro exI [of _ ?evs]) simp
qed

definition demo_job :: execute_frame where
  "demo_job = demo_cmd ''a''"

definition demo_file :: "time \<Rightarrow> bytes option" where
  "demo_file t = (if t < 2 then Some [] else Some [104])"

definition demo_over :: "time \<Rightarrow> bool" where
  "demo_over t \<longleftrightarrow> 3 \<le> t"

lemma growing_demo: "growing demo_file"
  by (auto simp: growing_def demo_file_def split: if_splits)

theorem job_output_before_result_witness:
  "\<exists>evs. run_session_job demo_job (Inl ''spawn'') [True]
      (tail_capture (request_id demo_job) Stdout (tail_inputs demo_file demo_over [(0, 0, 9), (2, 2, 9), (4, 4, 9)] False 0))
      (tail_capture (request_id demo_job) Stderr (tail_inputs demo_file demo_over [(0, 0, 9), (4, 4, 9), (5, 5, 9)] False 0))
    = map JobSent evs @ [JobSent (EvResult (errored (request_id demo_job) ''worker error: spawn'')), JobPurged (request_id demo_job)]"
  (is "\<exists>evs. ?steps = _ evs")
proof -
  have out: "tail_capture rid w (tail_inputs demo_file demo_over [(0, 0, 9), (2, 2, 9), (4, 4, 9)] False 0)
      = (TailOver, [EvOutput rid w [104]])" for rid w
    by (simp add: tail_capture_def tail_turn_simps demo_file_def demo_over_def Let_def)
  have err: "tail_capture rid w (tail_inputs demo_file demo_over [(0, 0, 9), (4, 4, 9), (5, 5, 9)] False 0)
      = (TailOver, [EvOutput rid w [104]])" for rid w
    by (simp add: tail_capture_def tail_turn_simps demo_file_def demo_over_def Let_def)
  have "JobSent (EvResult (errored (request_id demo_job) ''worker error: spawn'')) \<in> set ?steps"
    unfolding run_session_job_def out err Let_def by (simp add: errored_def)
  note job = this
  have "sorted (map fst [(0 :: time, 0 :: time, 9 :: nat), (2, 2, 9), (4, 4, 9)])"
    "sorted (map fst [(0 :: time, 0 :: time, 9 :: nat), (4, 4, 9), (5, 5, 9)])" by simp_all
  from job_output_before_result [OF growing_demo growing_demo this refl job] show ?thesis
    by (elim exE conjE) (rule exI)
qed

text \<open>The check comes after the read it follows.  What a command writes after a read has found the end of
  the file is lost if the command also ends before the check.\<close>

lemma late_output_lost:
  "growing demo_file \<and>
   tail_capture rid which (tail_inputs demo_file demo_over [(0, 0, 9), (1, 4, 9)] False 0) = (TailOver, []) \<and>
   \<not> demo_over 2 \<and> text_at demo_file 2 = [104]"
  using growing_demo
  by (simp add: tail_capture_def tail_turn_simps demo_file_def demo_over_def text_at_def Let_def)

section \<open>Setup\<close>

lemma until_failure_ok: "until_failure fails xs = (None, ys) \<Longrightarrow> ys = xs \<and> (\<forall>x \<in> set xs. fails x = None)"
  by (induction xs arbitrary: ys) (auto split: option.splits prod.splits)

lemma until_failure_bad:
  "until_failure fails xs = (Some e, ys) \<Longrightarrow> \<exists>zs x rest. ys = zs @ [x] \<and> xs = ys @ rest \<and> fails x = Some e \<and>
     (\<forall>z \<in> set zs. fails z = None)"
proof (induction xs arbitrary: ys)
  case Nil
  then show ?case by simp
next
  case (Cons x xs)
  show ?case
  proof (cases "fails x")
    case None
    with Cons.prems obtain ys1 where "until_failure fails xs = (Some e, ys1)" "ys = x # ys1"
      by (auto split: prod.splits)
    with Cons.IH [of ys1] None show ?thesis by (metis append_Cons set_ConsD)
  next
    case (Some e')
    with Cons.prems show ?thesis by auto
  qed
qed

lemma sanitized_no_escape: "CHR 0x1B \<notin> set (sanitize_id s)"
proof -
  have "\<not> id_char (CHR 0x1B)" by code_simp
  then show ?thesis by (auto simp: sanitize_id_def)
qed

lemma path_text_escape: "CHR 0x1B \<in> set (path_text p) \<longleftrightarrow> (\<exists>c \<in> set p. CHR 0x1B \<in> set c)"
  by (auto simp: path_text_def)

lemma handle_dir_escape: "\<forall>c \<in> set root. CHR 0x1B \<notin> set c \<Longrightarrow> c \<in> set (handle_dir root rid) \<Longrightarrow> CHR 0x1B \<notin> set c"
  using sanitized_no_escape by (auto simp: handle_dir_def path_join_def split: if_splits)

text \<open>
  C19: A stateful command is typed only onto prepared files: if its setup returns a line, every operation of
  the setup succeeded; the directory, the script and both streams exist, each handed to the session's
  user right after it was made when the session has one, the script holds exactly the command; and the
  echo of the line cannot be taken for the marker that completes the command.  A setup that fails stops at
  the first operation that failed.
\<close>

theorem stateful_setup_complete:
  assumes "prepare_stateful_job fails root e nonce = (res, ops)"
  shows "(case res of
      Inl msg \<Rightarrow> \<exists>done x rest. ops = done @ [x] \<and> setup_ops root e = ops @ rest \<and> fails x = Some msg \<and>
        (\<forall>y \<in> set done. fails y = None)
    | Inr (line, mark) \<Rightarrow>
        (\<forall>x \<in> set ops. fails x = None) \<and> WriteScript (job_file root (request_id e) ''command.sh'') (command e) \<in> set ops \<and>
        (\<forall>d p. exec_drop_to e = Some d \<and> p \<in> {handle_dir root (request_id e), job_file root (request_id e) ''command.sh'',
            stream_path root (request_id e) OutStream, stream_path root (request_id e) ErrStream} \<longrightarrow>
          (\<exists>as make bs. ops = as @ [make, GiveTo p (uid d) (gid d)] @ bs \<and>
            make \<in> {MakeJobDir p, WriteScript p (command e), CreateStream p})) \<and>
        ((\<forall>c \<in> set (nonce # root). CHR 0x1B \<notin> set c) \<longrightarrow> find_window mark (as_bytes line) = None))"
proof (cases "until_failure fails (setup_ops root e)")
  case (Pair r ys)
  show ?thesis
  proof (cases r)
    case (Some msg)
    then have "res = Inl msg" "ops = ys" using assms Pair by (simp_all add: prepare_stateful_job_def)
    with until_failure_bad [of fails "setup_ops root e" msg ys] Pair Some show ?thesis by simp
  next
    case None
    then have ops: "ops = setup_ops root e" "\<forall>x \<in> set ops. fails x = None"
      and res: "res = Inr (stateful_line (job_files root (request_id e)) nonce, completion_marker nonce)"
      using assms Pair until_failure_ok [of fails "setup_ops root e" ys] by (simp_all add: prepare_stateful_job_def)
    have script: "WriteScript (job_file root (request_id e) ''command.sh'') (command e) \<in> set ops"
      by (simp add: ops setup_ops_def Let_def)
    have echo: "find_window (completion_marker nonce) (as_bytes (stateful_line (job_files root (request_id e)) nonce)) = None"
      if "\<forall>c \<in> set (nonce # root). CHR 0x1B \<notin> set c"
    proof -
      have clean: "c \<in> set (handle_dir root (request_id e)) \<Longrightarrow> CHR 0x1B \<notin> set c" for c
        using handle_dir_escape [of root c] that by simp
      show ?thesis
        by (rule typed_line_has_no_marker)
          (use clean that in \<open>auto simp: job_files_def path_text_escape job_file_def stream_path_def path_join_def\<close>)
    qed
    have given: "\<exists>as make bs. ops = as @ [make, GiveTo p (uid d) (gid d)] @ bs \<and> make \<in> {MakeJobDir p, WriteScript p (command e), CreateStream p}"
      if "exec_drop_to e = Some d" and p: "p \<in> {handle_dir root (request_id e), job_file root (request_id e) ''command.sh'',
            stream_path root (request_id e) OutStream, stream_path root (request_id e) ErrStream}" for d p
    proof -
      let ?g = "\<lambda>p. GiveTo p (uid d) (gid d)" and ?dir = "handle_dir root (request_id e)"
        and ?script = "job_file root (request_id e) ''command.sh''"
        and ?out = "stream_path root (request_id e) OutStream" and ?err = "stream_path root (request_id e) ErrStream"
      have o: "ops = [MakeJobDir ?dir, ?g ?dir, WriteScript ?script (command e), ?g ?script, CreateStream ?out, ?g ?out,
          CreateStream ?err, ?g ?err]"
        using that(1) by (simp add: ops setup_ops_def give_to_session_user_def Let_def)
      from p consider "p = ?dir" | "p = ?script" | "p = ?out" | "p = ?err" by blast
      then show ?thesis
      proof cases
        case 1
        then show ?thesis by (intro exI [of _ "[]"] exI [of _ "MakeJobDir p"] exI [of _ "drop 2 ops"]) (simp add: o)
      next
        case 2
        then show ?thesis by (intro exI [of _ "take 2 ops"] exI [of _ "WriteScript p (command e)"] exI [of _ "drop 4 ops"]) (simp add: o)
      next
        case 3
        then show ?thesis by (intro exI [of _ "take 4 ops"] exI [of _ "CreateStream p"] exI [of _ "drop 6 ops"]) (simp add: o)
      next
        case 4
        then show ?thesis by (intro exI [of _ "take 6 ops"] exI [of _ "CreateStream p"] exI [of _ "drop 8 ops"]) (simp add: o)
      qed
    qed
    show ?thesis using ops(2) script echo given by (simp add: res)
  qed
qed

theorem stateful_setup_complete_witness:
  "find_window (completion_marker ''n'') (as_bytes (stateful_line (job_files [''capture''] (request_id demo_job)) ''n'')) = None"
proof -
  have ok: "prepare_stateful_job (\<lambda>_. None) [''capture''] demo_job ''n'' =
      (Inr (stateful_line (job_files [''capture''] (request_id demo_job)) ''n'', completion_marker ''n''),
       setup_ops [''capture''] demo_job)"
  proof -
    have "until_failure (\<lambda>_. None) xs = (None, xs)" for xs by (induction xs) simp_all
    then show ?thesis by (simp add: prepare_stateful_job_def)
  qed
  from stateful_setup_complete [OF ok] show ?thesis by simp
qed

end
