(* ===== verification/Account.thy ===== *)
theory Account
  imports RustText
begin

text \<open>
  \<open>shiitake-worker/src/account.rs\<close>: naming the uid a session drops into by a line of the password file,
  and undoing it between sessions.  The file is its text; the answers of the file system are an
  argument.
\<close>

section \<open>The password file\<close>

definition safe_to_name :: "string \<Rightarrow> 32 word \<Rightarrow> bool" where
  "safe_to_name name u \<longleftrightarrow> u \<noteq> 0 \<and> name \<noteq> [] \<and>
     \<not> list_ex (\<lambda>c. c \<in> {CHR '':'', newline, CHR '' '', CHR 0x09}) name"

definition show_u32 :: "32 word \<Rightarrow> string" where
  "show_u32 u = show_nat (unat u)"

definition passwd_entry :: "string \<Rightarrow> 32 word \<Rightarrow> 32 word \<Rightarrow> string \<Rightarrow> string" where
  "passwd_entry name u g home = name @ '':x:'' @ show_u32 u @ '':'' @ show_u32 g @ '':shiitake session:''
     @ home @ '':/bin/bash'' @ [newline]"

text \<open>\<open>fields.next()\<close> and then \<open>fields.nth(1)\<close>.\<close>

definition passwd_has :: "string \<Rightarrow> string \<Rightarrow> 32 word \<Rightarrow> bool" where
  "passwd_has content name u =
     list_ex (\<lambda>line. let fields = split_char (CHR '':'') line
        in hd fields = name \<or> (2 < length fields \<and> fields ! 2 = show_u32 u)) (lines content)"

definition entry_prefix :: "string \<times> 32 word \<Rightarrow> string" where
  "entry_prefix c = (case c of (n, u) \<Rightarrow> n @ '':x:'' @ show_u32 u @ '':'')"

definition passwd_without :: "string \<Rightarrow> (string \<times> 32 word) list \<Rightarrow> string" where
  "passwd_without content remove =
     (let prefixes = map entry_prefix remove;
          kept = concat (map (\<lambda>l. l @ [newline])
            (filter (\<lambda>l. \<not> list_ex (\<lambda>p. starts_with p l) prefixes) (lines content)))
      in if content \<noteq> [] \<and> last content = newline then kept else butlast kept)"

section \<open>Creating and removing accounts\<close>

record created =
  cr_name :: string
  cr_uid :: "32 word"
  cr_home :: "string option"

record accounts =
  ac_passwd :: string
  ac_ledger :: "created list"

text \<open>Trees of the file system, as a walk meets them: a link carries whether it resolves to a
  directory.\<close>

datatype fs_node = FsFile | FsLink bool | FsDir fs_listing
and fs_listing = NoEntry | Entry string fs_node fs_listing

datatype fs_op =
    MakeDirs string
  | ReadDir string
  | ReadEntry string string
  | CopyFile string string
  | Lchown string "32 word" "32 word"
  | LinkStat string
  | SetMode string nat

text \<open>The first error of a walk, with the operations up to it; \<open>and_then\<close> is \<open>?\<close>.\<close>

type_synonym fs_run = "string option \<times> fs_op list"

definition and_then :: "fs_run \<Rightarrow> fs_run \<Rightarrow> fs_run" where
  "and_then a b = (case a of
     (Some e, ops) \<Rightarrow> (Some e, ops)
   | (None, ops) \<Rightarrow> (fst b, ops @ snd b))"

definition attempt :: "(fs_op \<Rightarrow> string option) \<Rightarrow> fs_op \<Rightarrow> fs_run" where
  "attempt fails op = (fails op, [op])"

definition sub_path :: "string \<Rightarrow> string \<Rightarrow> string" where
  "sub_path dir name = dir @ ''/'' @ name"

primrec copy_node :: "(fs_op \<Rightarrow> string option) \<Rightarrow> fs_node \<Rightarrow> string \<Rightarrow> string \<Rightarrow> fs_run"
and copy_tree :: "(fs_op \<Rightarrow> string option) \<Rightarrow> fs_listing \<Rightarrow> string \<Rightarrow> string \<Rightarrow> fs_run" where
  "copy_node fails FsFile src dst = attempt fails (CopyFile src dst)"
| "copy_node fails (FsLink is_dir) src dst = attempt fails (CopyFile src dst)"
| "copy_node fails (FsDir es) src dst =
     and_then (attempt fails (MakeDirs dst)) (and_then (attempt fails (ReadDir src)) (copy_tree fails es src dst))"
| "copy_tree fails NoEntry src dst = (None, [])"
| "copy_tree fails (Entry n node es) src dst =
     and_then (attempt fails (ReadEntry src n))
       (and_then (copy_node fails node (sub_path src n) (sub_path dst n)) (copy_tree fails es src dst))"

primrec chown_tree :: "(fs_op \<Rightarrow> string option) \<Rightarrow> 32 word \<Rightarrow> 32 word \<Rightarrow> fs_node \<Rightarrow> string \<Rightarrow> fs_run"
and chown_entries :: "(fs_op \<Rightarrow> string option) \<Rightarrow> 32 word \<Rightarrow> 32 word \<Rightarrow> fs_listing \<Rightarrow> string \<Rightarrow> fs_run" where
  "chown_tree fails u g FsFile p = attempt fails (Lchown p u g)"
| "chown_tree fails u g (FsLink is_dir) p =
     and_then (attempt fails (Lchown p u g)) (if is_dir then attempt fails (LinkStat p) else (None, []))"
| "chown_tree fails u g (FsDir es) p =
     and_then (attempt fails (Lchown p u g))
       (and_then (attempt fails (LinkStat p))
         (and_then (attempt fails (ReadDir p)) (chown_entries fails u g es p)))"
| "chown_entries fails u g NoEntry p = (None, [])"
| "chown_entries fails u g (Entry n node es) p =
     and_then (attempt fails (ReadEntry p n))
       (and_then (chown_tree fails u g node (sub_path p n)) (chown_entries fails u g es p))"

text \<open>The skeleton directory when there is one, what the home holds when it is handed over, and which
  operations fail.\<close>

record home_world =
  hw_skel :: "fs_listing option"
  hw_home :: fs_node
  hw_fails :: "fs_op \<Rightarrow> string option"

definition provision_home :: "home_world \<Rightarrow> string \<Rightarrow> 32 word \<Rightarrow> 32 word \<Rightarrow> fs_run" where
  "provision_home w home u g =
     and_then (attempt (hw_fails w) (MakeDirs home))
       (and_then (case hw_skel w of
            None \<Rightarrow> (None, [])
          | Some es \<Rightarrow> and_then (attempt (hw_fails w) (ReadDir ''/etc/skel'')) (copy_tree (hw_fails w) es ''/etc/skel'' home))
         (and_then (chown_tree (hw_fails w) u g (hw_home w) home) (attempt (hw_fails w) (SetMode home 488))))"

text \<open>The answers during one call: reading the file, appending to or rewriting it (an error after some
  bytes), provisioning the home.\<close>

record acct_world =
  aw_home_root :: "string option"
  aw_read_error :: "string option"
  aw_write_error :: "(string \<times> nat) option"
  aw_home :: home_world

definition home_root :: "acct_world \<Rightarrow> string" where
  "home_root w = (case aw_home_root w of
     Some r \<Rightarrow> if trim r \<noteq> [] then r else ''/home'' | None \<Rightarrow> ''/home'')"

text \<open>\<open>PathBuf::from(root).join(name)\<close>: an absolute name replaces the root.\<close>

definition home_dir :: "acct_world \<Rightarrow> string \<Rightarrow> string" where
  "home_dir w name =
     (if starts_with ''/'' name then name
      else home_root w @ (if last (home_root w) = CHR ''/'' then [] else ''/'') @ name)"

definition write_text :: "acct_world \<Rightarrow> string \<Rightarrow> string option \<times> string" where
  "write_text w text = (case aw_write_error w of
     None \<Rightarrow> (None, text) | Some (e, n) \<Rightarrow> (Some e, take n text))"

definition ensure :: "acct_world \<Rightarrow> drop_to \<Rightarrow> accounts \<Rightarrow> (string + string option) \<times> accounts" where
  "ensure w d s =
     (case login_name d of
       None \<Rightarrow> (Inr None, s)
     | Some name \<Rightarrow>
         if \<not> safe_to_name name (uid d) then (Inr None, s)
         else
           let home = (if create_home d then Some (home_dir w name) else None)
           in case aw_read_error w of
             Some e \<Rightarrow> (Inl e, s)
           | None \<Rightarrow>
               if passwd_has (ac_passwd s) name (uid d) then (Inr home, s)
               else
                 let entry = passwd_entry name (uid d) (gid d) (case home of None \<Rightarrow> ''/'' | Some h \<Rightarrow> h);
                     (err, written) = write_text w entry;
                     s1 = s\<lparr>ac_passwd := ac_passwd s @ written\<rparr>
                 in case err of
                   Some e \<Rightarrow> (Inl e, s1)
                 | None \<Rightarrow>
                     (Inr home, s1\<lparr>ac_ledger := ac_ledger s @ [\<lparr>cr_name = name, cr_uid = uid d,
                        cr_home = (case home of None \<Rightarrow> None | Some h \<Rightarrow>
                          if fst (provision_home (aw_home w) h (uid d) (gid d)) = None then Some h else None)\<rparr>]\<rparr>))"

definition ledger_pairs :: "created list \<Rightarrow> (string \<times> 32 word) list" where
  "ledger_pairs cs = map (\<lambda>c. (cr_name c, cr_uid c)) cs"

definition remove_passwd_lines :: "acct_world \<Rightarrow> created list \<Rightarrow> string \<Rightarrow> string option \<times> string" where
  "remove_passwd_lines w cs content =
     (case aw_read_error w of
       Some e \<Rightarrow> (Some e, content)
     | None \<Rightarrow> write_text w (passwd_without content (ledger_pairs cs)))"

text \<open>The second component is the trees that are removed.\<close>

definition cleanup :: "acct_world \<Rightarrow> accounts \<Rightarrow> accounts \<times> string list" where
  "cleanup w s =
     (let drained = ac_ledger s; s1 = s\<lparr>ac_ledger := []\<rparr>
      in if drained = [] then (s1, [])
         else (s1\<lparr>ac_passwd := snd (remove_passwd_lines w drained (ac_passwd s))\<rparr>,
               List.map_filter cr_home drained))"

section \<open>Undoing\<close>

lemma show_u32_clean: "c \<in> set (show_u32 u) \<Longrightarrow> c \<noteq> CHR '':'' \<and> c \<noteq> newline \<and> c \<noteq> CHR 0x0D"
  using show_nat_chars [of c "unat u"] by (auto simp: show_u32_def newline_def)

definition plain :: "string \<Rightarrow> bool" where
  "plain s \<longleftrightarrow> newline \<notin> set s \<and> CHR 0x0D \<notin> set s"

lemma plain_append [simp]: "plain (a @ b) \<longleftrightarrow> plain a \<and> plain b"
  by (auto simp: plain_def)

lemma plain_show [simp]: "plain (show_u32 u)"
  using show_u32_clean by (force simp: plain_def)

definition entry_line :: "string \<Rightarrow> 32 word \<Rightarrow> 32 word \<Rightarrow> string \<Rightarrow> string" where
  "entry_line name u g home = name @ '':x:'' @ show_u32 u @ '':'' @ show_u32 g @ '':shiitake session:''
     @ home @ '':/bin/bash''"

lemma entry_one_line:
  assumes "plain name" "plain home"
  shows "passwd_entry name u g home = entry_line name u g home @ [newline]" and "plain (entry_line name u g home)"
    and "lines (passwd_entry name u g home) = [entry_line name u g home]"
proof -
  show e: "passwd_entry name u g home = entry_line name u g home @ [newline]"
    by (simp add: passwd_entry_def entry_line_def)
  have "plain '':x:''" "plain '':''" "plain '':shiitake session:''" "plain '':/bin/bash''"
    by (simp_all add: plain_def newline_def)
  then show pl: "plain (entry_line name u g home)"
    unfolding entry_line_def plain_append using assms plain_show by blast
  then show "lines (passwd_entry name u g home) = [entry_line name u g home]"
    unfolding e by (intro lines_line) (simp_all add: plain_def)
qed

lemma entry_has_prefix: "starts_with (entry_prefix (name, u)) (entry_line name u g home)"
proof -
  have "entry_line name u g home = entry_prefix (name, u) @ (show_u32 g @ '':shiitake session:'' @ home @ '':/bin/bash'')"
    by (simp add: entry_line_def entry_prefix_def)
  then show ?thesis by (simp only: starts_with_append)
qed

text \<open>A line that starts with a prefix of ours has our name as its first field.\<close>

lemma prefix_is_ours:
  assumes "starts_with (entry_prefix (name, u)) l" "CHR '':'' \<notin> set name"
  shows "hd (split_char (CHR '':'') l) = name"
proof -
  have "l = entry_prefix (name, u) @ drop (length (entry_prefix (name, u))) l"
    using assms(1) by (metis append_take_drop_id starts_with_def)
  then obtain r where "l = name @ CHR '':'' # r" by (auto simp: entry_prefix_def)
  then show ?thesis using assms(2) by (simp add: split_char_append split_char_none)
qed

text \<open>What \<open>ensure\<close> appends to a file of the image is exactly what \<open>cleanup\<close> takes away.\<close>

definition entry_of :: "created \<Rightarrow> string \<Rightarrow> bool" where
  "entry_of c t \<longleftrightarrow> (\<exists>g home. t = passwd_entry (cr_name c) (cr_uid c) g home \<and> plain (cr_name c) \<and> plain home)"

definition accounts_ok :: "string \<Rightarrow> accounts \<Rightarrow> bool" where
  "accounts_ok base s \<longleftrightarrow> unix_text base \<and>
     (\<exists>ts. ac_passwd s = base @ concat ts \<and> list_all2 entry_of (ac_ledger s) ts) \<and>
     (\<forall>c \<in> set (ac_ledger s). \<forall>l \<in> set (lines base). \<not> starts_with (entry_prefix (cr_name c, cr_uid c)) l)"

lemma entries_text:
  "list_all2 entry_of cs ts \<Longrightarrow> unix_text (concat ts) \<and>
    (\<forall>l \<in> set (lines (concat ts)). \<exists>c \<in> set cs. starts_with (entry_prefix (cr_name c, cr_uid c)) l)"
proof (induction rule: list_all2_induct)
  case Nil
  then show ?case by (simp add: unix_text_def lines_def)
next
  case (Cons c cs t ts)
  then obtain g home where t: "t = passwd_entry (cr_name c) (cr_uid c) g home"
    and pl: "plain (cr_name c)" "plain home" by (auto simp: entry_of_def)
  note e = entry_one_line [OF pl, of "cr_uid c" g]
  have "unix_text (t @ concat ts)"
    using Cons.IH e(2) by (auto simp: unix_text_def t e(1) plain_def newline_def)
  moreover have "lines (t @ concat ts) = lines t @ lines (concat ts)"
    by (rule lines_append) (simp add: t e(1))
  ultimately show ?case
    using Cons.IH entry_has_prefix by (auto simp: t e(3))
qed

lemma cleanup_ok:
  assumes "accounts_ok base s" "aw_read_error w = None" "aw_write_error w = None"
  shows "ac_passwd (fst (cleanup w s)) = base \<and> ac_ledger (fst (cleanup w s)) = []"
proof (cases "ac_ledger s = []")
  case True
  with assms(1) show ?thesis by (auto simp: accounts_ok_def cleanup_def)
next
  case False
  from assms(1) obtain ts where ts: "ac_passwd s = base @ concat ts" "list_all2 entry_of (ac_ledger s) ts"
    and base: "unix_text base"
    and foreign: "\<And>c l. c \<in> set (ac_ledger s) \<Longrightarrow> l \<in> set (lines base) \<Longrightarrow>
      \<not> starts_with (entry_prefix (cr_name c, cr_uid c)) l"
    by (auto simp: accounts_ok_def)
  let ?p = "\<lambda>l. \<not> list_ex (\<lambda>p. starts_with p l) (map entry_prefix (ledger_pairs (ac_ledger s)))"
  note tail = entries_text [OF ts(2)]
  have "filter ?p (lines base) = lines base"
    using foreign by (auto simp: filter_id_conv list_ex_iff ledger_pairs_def)
  moreover have "filter ?p (lines (concat ts)) = []"
    using tail by (fastforce simp: filter_empty_conv list_ex_iff ledger_pairs_def)
  moreover have "lines (base @ concat ts) = lines base @ lines (concat ts)"
    by (rule lines_append) (use base in \<open>simp add: unix_text_def\<close>)
  ultimately have kept: "concat (map (\<lambda>l. l @ [newline]) (filter ?p (lines (base @ concat ts)))) = base"
    using unix_text_lines [OF base] by simp
  have "base @ concat ts = [] \<or> last (base @ concat ts) = newline"
    using base tail by (auto simp: unix_text_def last_append)
  then have "passwd_without (base @ concat ts) (ledger_pairs (ac_ledger s)) = base"
    using kept by (auto simp: passwd_without_def Let_def)
  with False assms(2,3) ts(1) show ?thesis
    by (simp add: cleanup_def Let_def remove_passwd_lines_def write_text_def)
qed

text \<open>A request that leaves the text of the file well-formed: the file is written in full, and neither the
  name nor the configured root brings in a carriage return or a newline (a newline in the name is
  refused by \<open>safe_to_name\<close>).\<close>

definition request_ok :: "acct_world \<times> drop_to \<Rightarrow> bool" where
  "request_ok x = (case x of (w, d) \<Rightarrow> aw_write_error w = None \<and> plain (home_root w) \<and>
     (case login_name d of None \<Rightarrow> True | Some n \<Rightarrow> CHR 0x0D \<notin> set n))"

lemma ensure_ok:
  assumes ok: "accounts_ok base s" and req: "request_ok (w, d)"
  shows "accounts_ok base (snd (ensure w d s))"
proof (cases "login_name d")
  case None
  with ok show ?thesis by (simp add: ensure_def)
next
  case (Some name)
  show ?thesis
  proof (cases "safe_to_name name (uid d) \<and> aw_read_error w = None \<and> \<not> passwd_has (ac_passwd s) name (uid d)")
    case False
    with ok Some show ?thesis by (auto simp: ensure_def Let_def split: option.splits)
  next
    case True
    have w: "aw_write_error w = None" "plain (home_root w)" "CHR 0x0D \<notin> set name"
      using req Some by (simp_all add: request_ok_def)
    have name: "plain name" "CHR '':'' \<notin> set name"
      using True w(3) by (auto simp: safe_to_name_def list_ex_iff plain_def)
    have home: "plain (home_dir w name)"
      using name(1) w(2) by (auto simp: home_dir_def plain_def newline_def)
    define h where "h = (if create_home d then Some (home_dir w name) else None)"
    define e where "e = passwd_entry name (uid d) (gid d) (case h of None \<Rightarrow> ''/'' | Some h \<Rightarrow> h)"
    define c where "c = \<lparr>cr_name = name, cr_uid = uid d, cr_home = (case h of None \<Rightarrow> None | Some h \<Rightarrow>
      if fst (provision_home (aw_home w) h (uid d) (gid d)) = None then Some h else None)\<rparr>"
    have s1: "snd (ensure w d s) = s\<lparr>ac_passwd := ac_passwd s @ e, ac_ledger := ac_ledger s @ [c]\<rparr>"
      using Some True w(1) by (simp add: ensure_def Let_def write_text_def h_def e_def c_def)
    have "plain (case h of None \<Rightarrow> ''/'' | Some h \<Rightarrow> h)"
      using home by (simp add: plain_def newline_def h_def)
    then have e: "entry_of c e" unfolding entry_of_def e_def using name(1)
      by (intro exI [of _ "gid d"] exI [of _ "case h of None \<Rightarrow> ''/'' | Some h \<Rightarrow> h"]) (simp add: c_def)
    have c: "cr_name c = name" "cr_uid c = uid d" by (simp_all add: c_def)
    from ok obtain ts where ts: "ac_passwd s = base @ concat ts" "list_all2 entry_of (ac_ledger s) ts"
      and base: "unix_text base" by (auto simp: accounts_ok_def)
    have "lines (ac_passwd s) = lines base @ lines (concat ts)"
      unfolding ts(1) by (rule lines_append) (use base in \<open>simp add: unix_text_def\<close>)
    then have "\<not> starts_with (entry_prefix (name, uid d)) l" if "l \<in> set (lines base)" for l
      using True that prefix_is_ours [OF _ name(2)]
      by (auto simp: passwd_has_def list_ex_iff Let_def)
    moreover have "list_all2 entry_of (ac_ledger s @ [c]) (ts @ [e])"
      using ts(2) e by (simp add: list_all2_appendI)
    ultimately show ?thesis
      unfolding s1 accounts_ok_def using ok ts(1) c
      by (auto simp: accounts_ok_def intro!: exI [of _ "ts @ [e]"])
  qed
qed

definition ensure_all :: "(acct_world \<times> drop_to) list \<Rightarrow> accounts \<Rightarrow> accounts" where
  "ensure_all reqs s = fold (\<lambda>(w, d) s. snd (ensure w d s)) reqs s"

lemma ensure_all_ok:
  "accounts_ok base s \<Longrightarrow> list_all request_ok reqs \<Longrightarrow> accounts_ok base (ensure_all reqs s)"
proof (induction reqs arbitrary: s)
  case Nil
  then show ?case by (simp add: ensure_all_def)
next
  case (Cons r reqs)
  obtain w d where r: "r = (w, d)" by (cases r)
  from Cons.prems r have "accounts_ok base (snd (ensure w d s))" by (simp add: ensure_ok)
  from Cons.IH [OF this] Cons.prems(2) r show ?case by (simp add: ensure_all_def)
qed

section \<open>Confinement of a home\<close>

text \<open>The paths an operation changes.\<close>

fun changes :: "fs_op \<Rightarrow> string list" where
  "changes (MakeDirs p) = [p]"
| "changes (CopyFile _ p) = [p]"
| "changes (Lchown p _ _) = [p]"
| "changes (SetMode p _) = [p]"
| "changes _ = []"

definition within :: "string \<Rightarrow> string \<Rightarrow> bool" where
  "within dir p \<longleftrightarrow> p = dir \<or> starts_with (dir @ ''/'') p"

definition confined :: "string \<Rightarrow> fs_run \<Rightarrow> bool" where
  "confined dir r \<longleftrightarrow> list_all (\<lambda>op. list_all (within dir) (changes op)) (snd r)"

lemma within_self [simp]: "within dir dir"
  by (simp add: within_def)

lemma within_sub: "within dir p \<Longrightarrow> within dir (sub_path p n)"
  by (auto simp: within_def sub_path_def starts_with_def)

lemma confined_simps [simp]:
  "confined dir (and_then a b) \<longleftrightarrow> confined dir a \<and> (fst a = None \<longrightarrow> confined dir b)"
  "confined dir (attempt fails op) \<longleftrightarrow> list_all (within dir) (changes op)"
  "confined dir (None, [])"
  by (auto simp: confined_def and_then_def attempt_def split: prod.split option.split)

lemma copy_confined:
  "within dir dst \<Longrightarrow> confined dir (copy_node fails node src dst)"
  "within dir dst \<Longrightarrow> confined dir (copy_tree fails es src dst)"
  by (induction node and es arbitrary: src dst and src dst) (auto simp: within_sub)

lemma chown_confined:
  "within dir p \<Longrightarrow> confined dir (chown_tree fails u g node p)"
  "within dir p \<Longrightarrow> confined dir (chown_entries fails u g es p)"
  by (induction node and es arbitrary: p and p) (auto simp: within_sub)

text \<open>
  Setting up a home changes nothing outside it: whatever the skeleton and the home contain, links
  included, and whichever operation fails, every directory made, file copied, owner or mode changed is
  the home itself or a path below it.
\<close>

theorem home_confined: "confined home (provision_home w home u g)"
  by (cases "hw_skel w") (simp_all add: provision_home_def copy_confined chown_confined)

section \<open>Undoing all accounts\<close>

text \<open>
  C30: The reset undoes the naming of accounts exactly: when the password file of the image ends with a newline and holds
  no carriage return, for every sequence of identities whose login names and home roots hold no carriage return (and
  the roots no newline), and when the password file could be read and written every time, cleaning up after they were
  named leaves the file as the image had it, byte for byte.  (Without the final newline it does not:
  \<open>missing_newline_corrupts_passwd\<close>.)
\<close>

theorem accounts_restored:
  assumes "unix_text base" and "list_all request_ok reqs"
    and "aw_read_error w = None" and "aw_write_error w = None"
  shows "fst (cleanup w (ensure_all reqs \<lparr>ac_passwd = base, ac_ledger = []\<rparr>)) = \<lparr>ac_passwd = base, ac_ledger = []\<rparr>"
proof -
  have "accounts_ok base \<lparr>ac_passwd = base, ac_ledger = []\<rparr>"
    using assms(1) by (auto simp: accounts_ok_def intro: exI [of _ "[]"])
  from cleanup_ok [OF ensure_all_ok [OF this assms(2)] assms(3,4)]
  show ?thesis by (intro accounts.equality) simp_all
qed

definition calm_home :: home_world where
  "calm_home = \<lparr>hw_skel = None, hw_home = FsDir NoEntry, hw_fails = (\<lambda>_. None)\<rparr>"

definition calm_files :: acct_world where
  "calm_files = \<lparr>aw_home_root = None, aw_read_error = None, aw_write_error = None, aw_home = calm_home\<rparr>"

definition drop_alice :: "string \<Rightarrow> drop_to" where
  "drop_alice n = \<lparr>uid = 2000123, gid = 10009, supplementary_gids = [], umask = None, login_name = Some n,
     create_home = True\<rparr>"

theorem accounts_restored_witness:
  "fst (cleanup calm_files (ensure_all [(calm_files, drop_alice ''alice'')]
      \<lparr>ac_passwd = ''root:x:0:0:root:/root:/bin/bash'' @ [newline], ac_ledger = []\<rparr>)) =
     \<lparr>ac_passwd = ''root:x:0:0:root:/root:/bin/bash'' @ [newline], ac_ledger = []\<rparr>"
  by (rule accounts_restored)
    (simp_all add: unix_text_def newline_def request_ok_def calm_files_def drop_alice_def plain_def home_root_def)

text \<open>Without the final newline the entry is glued to the last line of the file, and the clean-up does not
  find it: the account of the session stays, inside the corrupted last line.\<close>

lemma show_alice: "show_u32 2000123 = ''2000123''" "show_u32 10009 = ''10009''"
  by (simp_all add: show_u32_def show_nat.simps char_of_def bit_numeral_rec bit_0)

lemmas alice_simps = ensure_all_def ensure_def drop_alice_def safe_to_name_def calm_files_def home_dir_def
  home_root_def passwd_has_def lines_def strip_ending_def newline_def starts_with_def passwd_entry_def show_alice
  write_text_def cleanup_def remove_passwd_lines_def passwd_without_def ledger_pairs_def entry_prefix_def Let_def
  List.map_filter_simps provision_home_def calm_home_def and_then_def attempt_def

lemma missing_newline_corrupts_passwd:
  "ac_passwd (fst (cleanup calm_files (ensure_all [(calm_files, drop_alice ''alice'')]
      \<lparr>ac_passwd = ''root:x:0:0:root:/root:/bin/bash'', ac_ledger = []\<rparr>))) =
   ''root:x:0:0:root:/root:/bin/bashalice:x:2000123:10009:shiitake session:/home/alice:/bin/bash'' @ [newline]"
  by (simp add: alice_simps)

text \<open>The check of the name does not confine the home: a name with a parent component is accepted, and its
  home, which is created, given to the session's uid and later removed with all its contents, lies
  outside the root of the homes.\<close>

lemma home_escapes_root:
  "fst (ensure calm_files (drop_alice ''../etc'') \<lparr>ac_passwd = [], ac_ledger = []\<rparr>) = Inr (Some ''/home/../etc'') \<and>
   snd (cleanup calm_files (ensure_all [(calm_files, drop_alice ''../etc'')] \<lparr>ac_passwd = [], ac_ledger = []\<rparr>)) =
     [''/home/../etc'']"
  by (simp add: alice_simps)

end
