(* ===== verification/Reset.thy ===== *)
theory Reset
  imports Account CaptureStore
begin

text \<open>
  \<open>shiitake-worker/src/reset.rs\<close>: the reset of the sandbox between two pieces of work.  The process
  sweep, the removal of the SysV IPC objects and the clearing of the scratch directories are functions of
  what the system answers; their results are the result of the reset, their effects a list of actions.
\<close>

section \<open>The process sweep\<close>

datatype reset_action =
    ReapZombies
  | KillPid i32
  | IpcRemove string i32
  | RemoveTree path
  | Unlink path
  | RemoveHome string

text \<open>A listing of the process directory: an error, or its entries, each an error or a name (\<open>None\<close> for a
  name that is not UTF-8).  Reading stops at the first error.\<close>

type_synonym proc_listing = "string + (string + string option) list"

fun collect_pids :: "i32 \<Rightarrow> (string + string option) list \<Rightarrow> string + i32 list" where
  "collect_pids self [] = Inr []"
| "collect_pids self (Inl e # es) = Inl e"
| "collect_pids self (Inr n # es) =
     (case collect_pids self es of
       Inl e \<Rightarrow> Inl e
     | Inr pids \<Rightarrow>
         Inr (case n of None \<Rightarrow> pids
           | Some name \<Rightarrow> (case parse_i32 name of
               None \<Rightarrow> pids | Some p \<Rightarrow> if p = self then pids else p # pids)))"

definition sibling_pids :: "proc_listing \<Rightarrow> i32 \<Rightarrow> string + i32 list" where
  "sibling_pids l self = (case l of Inl e \<Rightarrow> Inl e | Inr es \<Rightarrow> collect_pids self es)"

text \<open>\<open>reap_zombies\<close> over what the non-blocking waits give: the number of children reaped, none while the loop
  goes on.\<close>

datatype wait_result = StillAlive | ChildReaped | NoChildren | WaitFailed

fun reap_zombies :: "wait_result list \<Rightarrow> nat option" where
  "reap_zombies [] = None"
| "reap_zombies (ChildReaped # rs) = map_option Suc (reap_zombies rs)"
| "reap_zombies (_ # rs) = Some 0"

text \<open>With finitely many zombies the loop ends, after it has reaped each of them.\<close>

lemma reap_zombies_all: "r \<noteq> ChildReaped \<Longrightarrow> reap_zombies (replicate n ChildReaped @ r # rs) = Some n"
  by (induction n) (cases r; simp)+

text \<open>A round of the sweep: the listing after reaping, and whether the deadline has passed by then.  The
  results of the kills are not used.\<close>

record sweep_round =
  sw_listing :: proc_listing
  sw_late :: bool

fun sweep :: "i32 \<Rightarrow> nat option \<Rightarrow> sweep_round list \<Rightarrow> (string + nat) option \<times> reset_action list" where
  "sweep self signalled [] = (None, [])"
| "sweep self signalled (r # rs) =
     (case sibling_pids (sw_listing r) self of
       Inl e \<Rightarrow> (Some (Inl e), [ReapZombies])
     | Inr remaining \<Rightarrow>
         (let count = (case signalled of None \<Rightarrow> length remaining | Some n \<Rightarrow> n)
          in if remaining = [] then (Some (Inr count), [ReapZombies])
             else if sw_late r
             then (Some (Inl (show_nat (length remaining) @ '' process(es) still alive after reap deadline'')),
                   [ReapZombies])
             else (let (res, acts) = sweep self (Some count) rs
                   in (res, ReapZombies # map KillPid remaining @ acts))))"

definition kill_all_except_self :: "i32 \<Rightarrow> sweep_round list \<Rightarrow> (string + nat) option \<times> reset_action list" where
  "kill_all_except_self self rounds =
     (if self \<noteq> 1 then (Some (Inl ''not a PID-namespace init; refusing to sweep''), [])
      else sweep self None rounds)"

text \<open>What the log says of a survivor, from its status file.\<close>

definition comm_state_line :: "string \<Rightarrow> string \<times> string \<Rightarrow> string \<times> string" where
  "comm_state_line line cs =
     (case strip_prefix ''Name:'' line of
       Some v \<Rightarrow> (trim v, snd cs)
     | None \<Rightarrow> (case strip_prefix ''State:'' line of
         Some v \<Rightarrow> (fst cs, case split_whitespace v of [] \<Rightarrow> ''?'' | s # _ \<Rightarrow> s)
       | None \<Rightarrow> cs))"

definition proc_comm_state :: "string option \<Rightarrow> string \<times> string" where
  "proc_comm_state status = (case status of
     None \<Rightarrow> (''?'', ''?'')
   | Some content \<Rightarrow> fold comm_state_line (lines content) (''?'', ''?''))"

section \<open>SysV IPC\<close>

definition parse_ipc_ids :: "string \<Rightarrow> i32 list" where
  "parse_ipc_ids content = List.map_filter
     (\<lambda>line. case split_whitespace line of _ # x # _ \<Rightarrow> parse_i32 x | _ \<Rightarrow> None) (drop 1 (lines content))"

definition ipc_ids :: "string + string \<Rightarrow> i32 list" where
  "ipc_ids file = (case file of Inr content \<Rightarrow> parse_ipc_ids content | Inl _ \<Rightarrow> [])"

record ipc_tables =
  ipc_shm :: "string + string"
  ipc_sem :: "string + string"
  ipc_msg :: "string + string"

definition residual :: "ipc_tables \<Rightarrow> string list" where
  "residual t = List.map_filter
     (\<lambda>(kind, file). let n = length (ipc_ids file) in if 0 < n then Some (show_nat n @ '' '' @ kind) else None)
     [(''shm'', ipc_shm t), (''sem'', ipc_sem t), (''msg'', ipc_msg t)]"

fun join :: "string \<Rightarrow> string list \<Rightarrow> string" where
  "join sep [] = []"
| "join sep [s] = s"
| "join sep (s # ss) = s @ sep @ join sep ss"

text \<open>The tables as they are read before and after the removals.\<close>

definition remove_sysv_ipc :: "ipc_tables \<Rightarrow> ipc_tables \<Rightarrow> (string + unit) \<times> reset_action list" where
  "remove_sysv_ipc t after =
     (let acts = map (IpcRemove ''shm'') (ipc_ids (ipc_shm t)) @ map (IpcRemove ''sem'') (ipc_ids (ipc_sem t))
            @ map (IpcRemove ''msg'') (ipc_ids (ipc_msg t))
      in (if residual after = [] then Inr ()
          else Inl (''SysV IPC objects survived removal: '' @ join '', '' (residual after)), acts))"

section \<open>Scratch directories\<close>

text \<open>One entry: a directory is removed as a tree, anything else (a symbolic link, an entry whose type
  cannot be read) is unlinked.\<close>

definition clear_entry :: "(path \<Rightarrow> io_error + unit) \<Rightarrow> (path \<Rightarrow> io_error + unit) \<Rightarrow> dir_item \<Rightarrow>
    io_error option \<times> reset_action list" where
  "clear_entry rm_tree rm_file i =
     (case i of
       Inl e \<Rightarrow> (Some e, [])
     | Inr (p, ft) \<Rightarrow>
         if ft = Inr TDir then (case rm_tree p of Inl e \<Rightarrow> Some e | Inr _ \<Rightarrow> None, [RemoveTree p])
         else (case rm_file p of Inl e \<Rightarrow> Some e | Inr _ \<Rightarrow> None, [Unlink p]))"

definition first_error :: "'e option list \<Rightarrow> 'e option" where
  "first_error es = (case List.map_filter (\<lambda>x. x) es of [] \<Rightarrow> None | e # _ \<Rightarrow> Some e)"

definition clear_dir_contents :: "(path \<Rightarrow> io_error + unit) \<Rightarrow> (path \<Rightarrow> io_error + unit) \<Rightarrow>
    io_error + dir_item list \<Rightarrow> (io_error + unit) \<times> reset_action list" where
  "clear_dir_contents rm_tree rm_file listing =
     (case listing of
       Inl e \<Rightarrow> (if io_kind e = NotFound then Inr () else Inl e, [])
     | Inr items \<Rightarrow>
         (let rs = map (clear_entry rm_tree rm_file) items
          in (case first_error (map fst rs) of None \<Rightarrow> Inr () | Some e \<Rightarrow> Inl e, concat (map snd rs))))"

section \<open>The reset\<close>

record reset_world =
  rw_pid :: i32
  rw_rounds :: "sweep_round list"
  rw_ipc :: ipc_tables
  rw_ipc_after :: ipc_tables
  rw_list :: "path \<Rightarrow> io_error + dir_item list"
  rw_rm_tree :: "path \<Rightarrow> io_error + unit"
  rw_rm_file :: "path \<Rightarrow> io_error + unit"
  rw_accounts :: acct_world

datatype reset_error = SweepFailed string | IpcFailed string | ClearFailed path io_error

definition clear_step :: "reset_world \<Rightarrow> path \<Rightarrow> reset_error option \<times> reset_action list" where
  "clear_step w p = (case clear_dir_contents (rw_rm_tree w) (rw_rm_file w) (rw_list w p) of
     (Inl e, acts) \<Rightarrow> (Some (ClearFailed p e), acts) | (Inr _, acts) \<Rightarrow> (None, acts))"

text \<open>No result means that the rounds given for the sweep end before it does.\<close>

definition reset :: "reset_world \<Rightarrow> path list \<Rightarrow> accounts \<Rightarrow>
    (reset_error + unit) option \<times> accounts \<times> reset_action list" where
  "reset w paths s =
     (let (swept, a1) = (if rw_pid w = 1 then kill_all_except_self (rw_pid w) (rw_rounds w) else (Some (Inr 0), []))
      in case swept of
        None \<Rightarrow> (None, s, a1)
      | Some r \<Rightarrow>
          (let (ipc, a2) = (if rw_pid w = 1 then remove_sysv_ipc (rw_ipc w) (rw_ipc_after w) else (Inr (), []));
               cleared = map (clear_step w) paths;
               (s1, trees) = cleanup (rw_accounts w) s;
               errs = (case r of Inl e \<Rightarrow> Some (SweepFailed e) | Inr _ \<Rightarrow> None)
                 # (case ipc of Inl e \<Rightarrow> Some (IpcFailed e) | Inr _ \<Rightarrow> None) # map fst cleared
           in (Some (case first_error errs of Some e \<Rightarrow> Inl e | None \<Rightarrow> Inr ()), s1,
               a1 @ a2 @ concat (map snd cleared) @ map RemoveHome trees)))"

section \<open>What a successful reset means\<close>

lemma first_error_None: "first_error es = None \<longleftrightarrow> set es \<subseteq> {None}"
proof (induction es)
  case Nil
  then show ?case by (simp add: first_error_def List.map_filter_simps)
next
  case (Cons x es)
  then show ?case by (cases x) (simp_all add: first_error_def List.map_filter_simps split: list.splits)
qed

lemma sweep_Inr:
  "sweep self sig rs = (Some (Inr n), acts) \<Longrightarrow> \<exists>r \<in> set rs. sibling_pids (sw_listing r) self = Inr []"
  by (induction self sig rs arbitrary: n acts rule: sweep.induct)
    (auto simp: Let_def split: sum.splits if_splits prod.splits)

lemma collect_pids_self: "collect_pids self es = Inr pids \<Longrightarrow> self \<notin> set pids"
  by (induction self es arbitrary: pids rule: collect_pids.induct)
    (auto split: sum.splits option.splits if_splits)

lemma sibling_pids_self: "sibling_pids l self = Inr pids \<Longrightarrow> self \<notin> set pids"
  by (auto simp: sibling_pids_def collect_pids_self split: sum.splits)

lemma sweep_kills: "KillPid p \<in> set (snd (sweep self sig rs)) \<Longrightarrow> p \<noteq> self"
  by (induction self sig rs rule: sweep.induct)
    (auto simp: Let_def split_beta dest: sibling_pids_self split: sum.splits if_splits)

lemma sweep_returns: "\<exists>r \<in> set rs. sw_late r \<Longrightarrow> fst (sweep self sig rs) \<noteq> None"
proof (induction rs arbitrary: sig)
  case Nil
  then show ?case by simp
next
  case (Cons r rs)
  show ?case
  proof (cases "sw_late r")
    case True
    then show ?thesis by (simp add: Let_def split: sum.split)
  next
    case False
    with Cons.prems have "\<exists>r \<in> set rs. sw_late r" by simp
    with False Cons.IH show ?thesis by (simp add: Let_def split_beta split: sum.split)
  qed
qed

text \<open>\<open>remove_sysv_ipc\<close> succeeds exactly when no table shows an object afterwards.\<close>

definition no_objects :: "ipc_tables \<Rightarrow> bool" where
  "no_objects t \<longleftrightarrow> ipc_ids (ipc_shm t) = [] \<and> ipc_ids (ipc_sem t) = [] \<and> ipc_ids (ipc_msg t) = []"

lemma residual_Nil: "residual t = [] \<longleftrightarrow> no_objects t"
  by (auto simp: residual_def no_objects_def List.map_filter_simps Let_def split: if_splits)

lemma remove_sysv_ipc_Inr: "fst (remove_sysv_ipc t u) = Inr () \<longleftrightarrow> no_objects u"
  by (simp add: remove_sysv_ipc_def Let_def residual_Nil)

text \<open>A scratch directory after a successful clear: it did not exist, or every entry was read and removed,
  a directory as a tree and everything else by unlinking it.\<close>

definition emptied :: "reset_world \<Rightarrow> path \<Rightarrow> bool" where
  "emptied w p = (case rw_list w p of
     Inl e \<Rightarrow> io_kind e = NotFound
   | Inr items \<Rightarrow> list_all (\<lambda>i. case i of
       Inl _ \<Rightarrow> False
     | Inr (q, ft) \<Rightarrow> if ft = Inr TDir then rw_rm_tree w q = Inr () else rw_rm_file w q = Inr ()) items)"

lemma clear_entry_None:
  "fst (clear_entry rt rf i) = None \<longleftrightarrow> (case i of Inl _ \<Rightarrow> False
     | Inr (q, ft) \<Rightarrow> if ft = Inr TDir then rt q = Inr () else rf q = Inr ())"
  by (auto simp: clear_entry_def split: sum.splits)

lemma clear_step_None: "fst (clear_step w p) = None \<longleftrightarrow> emptied w p"
proof (cases "rw_list w p")
  case (Inl e)
  then show ?thesis by (simp add: clear_step_def clear_dir_contents_def emptied_def)
next
  case (Inr items)
  let ?rs = "map (clear_entry (rw_rm_tree w) (rw_rm_file w)) items"
  have "fst (clear_step w p) = None \<longleftrightarrow> first_error (map fst ?rs) = None"
    using Inr by (simp add: clear_step_def clear_dir_contents_def Let_def split: option.split)
  also have "\<dots> \<longleftrightarrow> list_all (\<lambda>i. fst (clear_entry (rw_rm_tree w) (rw_rm_file w) i) = None) items"
    by (auto simp: first_error_None list_all_iff)
  finally show ?thesis using Inr by (simp add: emptied_def clear_entry_None)
qed

text \<open>The parts of a reset that ended.\<close>

lemma reset_parts:
  assumes "reset w paths s = (Some res, s1, acts)"
  obtains r a1 ipc a2 where
    "(if rw_pid w = 1 then kill_all_except_self (rw_pid w) (rw_rounds w) else (Some (Inr 0), [])) = (Some r, a1)"
    "(if rw_pid w = 1 then remove_sysv_ipc (rw_ipc w) (rw_ipc_after w) else (Inr (), [])) = (ipc, a2)"
    "res = Inr () \<longleftrightarrow> \<not> isl r \<and> \<not> isl ipc \<and> list_all (emptied w) paths"
    "s1 = fst (cleanup (rw_accounts w) s)"
    "acts = a1 @ a2 @ concat (map (snd \<circ> clear_step w) paths) @ map RemoveHome (snd (cleanup (rw_accounts w) s))"
proof -
  obtain swept a1 where sw: "(if rw_pid w = 1 then kill_all_except_self (rw_pid w) (rw_rounds w)
      else (Some (Inr 0), [])) = (swept, a1)" by fastforce
  with assms obtain r where r: "swept = Some r"
    by (cases swept) (auto simp: reset_def Let_def)
  obtain ipc a2 where ipc: "(if rw_pid w = 1 then remove_sysv_ipc (rw_ipc w) (rw_ipc_after w)
      else (Inr (), [])) = (ipc, a2)" by fastforce
  let ?errs = "(case r of Inl e \<Rightarrow> Some (SweepFailed e) | Inr _ \<Rightarrow> None)
      # (case ipc of Inl e \<Rightarrow> Some (IpcFailed e) | Inr _ \<Rightarrow> None) # map fst (map (clear_step w) paths)"
  have eq: "res = (case first_error ?errs of Some e \<Rightarrow> Inl e | None \<Rightarrow> Inr ())"
    "s1 = fst (cleanup (rw_accounts w) s)"
    "acts = a1 @ a2 @ concat (map (snd \<circ> clear_step w) paths) @ map RemoveHome (snd (cleanup (rw_accounts w) s))"
    using assms sw ipc r by (simp_all add: reset_def Let_def split_beta comp_def)
  have "res = Inr () \<longleftrightarrow> first_error ?errs = None" by (simp add: eq(1) split: option.split)
  also have "\<dots> \<longleftrightarrow> \<not> isl r \<and> \<not> isl ipc \<and> list_all (emptied w) paths"
    by (auto simp: first_error_None list_all_iff simp flip: clear_step_None split: sum.splits)
  finally show thesis by (rule that [OF sw [unfolded r] ipc _ eq(2,3)])
qed

text \<open>
  The sweep can hit nothing but the sandbox: a reset signals processes and removes IPC objects only as
  the init of its process namespace, process number 1, and it never signals itself.
\<close>

theorem reset_kills_only_siblings:
  assumes "reset w paths s = (Some res, s1, acts)" and "KillPid p \<in> set acts \<or> IpcRemove kind i \<in> set acts"
  shows "rw_pid w = 1 \<and> KillPid 1 \<notin> set acts"
proof -
  from assms(1) obtain r a1 ipc a2 where
    k: "(if rw_pid w = 1 then kill_all_except_self (rw_pid w) (rw_rounds w) else (Some (Inr 0), [])) = (Some r, a1)"
    and i: "(if rw_pid w = 1 then remove_sysv_ipc (rw_ipc w) (rw_ipc_after w) else (Inr (), [])) = (ipc, a2)"
    and acts: "acts = a1 @ a2 @ concat (map (snd \<circ> clear_step w) paths) @ map RemoveHome (snd (cleanup (rw_accounts w) s))"
    by (rule reset_parts) simp
  have entry: "x \<in> set (snd (clear_entry f g it)) \<Longrightarrow> (\<exists>q. x = RemoveTree q \<or> x = Unlink q)" for x f g it
    by (auto simp: clear_entry_def split: sum.splits if_splits)
  have clear: "\<exists>q. x = RemoveTree q \<or> x = Unlink q" if "x \<in> set (snd (clear_step w q))" for x q
    using that entry
    by (fastforce simp: clear_step_def clear_dir_contents_def Let_def split: sum.splits option.splits)
  have rest: "KillPid q \<in> set acts \<longleftrightarrow> KillPid q \<in> set a1 \<or> KillPid q \<in> set a2"
    "IpcRemove kd q \<in> set acts \<longleftrightarrow> IpcRemove kd q \<in> set a1 \<or> IpcRemove kd q \<in> set a2" for q kd
    using clear by (fastforce simp: acts)+
  have pid: "rw_pid w = 1" using assms(2) k i rest by (auto split: if_splits)
  have "KillPid 1 \<notin> set a1"
    using k pid sweep_kills [of 1 1 None "rw_rounds w"] by (auto simp: kill_all_except_self_def)
  moreover have "KillPid 1 \<notin> set a2"
    using i pid by (auto simp: remove_sysv_ipc_def Let_def)
  ultimately show ?thesis using rest pid by blast
qed

text \<open>
  C29: What a reset that reports success has done: as the init of its namespace, process number 1, it has seen a listing
  with no process but itself, and those of the three IPC tables that it could read after the removals held no object
  (one that cannot be read counts as empty: \<open>unreadable_ipc_table_passes\<close>); under any other process number it has
  signalled no process and removed no IPC object; and everywhere it has emptied every configured directory, removing
  each entry and following no symbolic link, and the accounts of the session are forgotten.
\<close>

theorem reset_ok_means_clean:
  assumes "reset w paths s = (Some (Inr ()), s1, acts)"
  shows "(rw_pid w = 1 \<longrightarrow> (\<exists>r \<in> set (rw_rounds w). sibling_pids (sw_listing r) 1 = Inr []) \<and>
      no_objects (rw_ipc_after w)) \<and>
    (rw_pid w \<noteq> 1 \<longrightarrow> (\<forall>p. KillPid p \<notin> set acts) \<and> (\<forall>kind i. IpcRemove kind i \<notin> set acts)) \<and>
    list_all (emptied w) paths \<and> ac_ledger s1 = []"
proof -
  from assms obtain r a1 ipc a2 where
    k: "(if rw_pid w = 1 then kill_all_except_self (rw_pid w) (rw_rounds w) else (Some (Inr 0), [])) = (Some r, a1)"
    and i: "(if rw_pid w = 1 then remove_sysv_ipc (rw_ipc w) (rw_ipc_after w) else (Inr (), [])) = (ipc, a2)"
    and ok: "\<not> isl r" "\<not> isl ipc" "list_all (emptied w) paths"
    and s1: "s1 = fst (cleanup (rw_accounts w) s)"
    by (rule reset_parts) simp
  have "\<exists>x \<in> set (rw_rounds w). sibling_pids (sw_listing x) 1 = Inr []" if "rw_pid w = 1"
    using k ok(1) that by (cases r) (auto simp: kill_all_except_self_def dest: sweep_Inr)
  moreover have "no_objects (rw_ipc_after w)" if "rw_pid w = 1"
    using i ok(2) that remove_sysv_ipc_Inr [of "rw_ipc w" "rw_ipc_after w"] by (cases ipc) auto
  moreover have "(\<forall>p. KillPid p \<notin> set acts) \<and> (\<forall>kind i. IpcRemove kind i \<notin> set acts)" if "rw_pid w \<noteq> 1"
    using reset_kills_only_siblings [OF assms] that by blast
  ultimately show ?thesis using ok(3) s1 by (simp add: cleanup_def Let_def)
qed

definition demo_listing :: "string list \<Rightarrow> proc_listing" where
  "demo_listing names = Inr (map (\<lambda>n. Inr (Some n)) names)"

definition demo_tables :: ipc_tables where
  "demo_tables = \<lparr>ipc_shm = Inr (''key shmid'' @ [newline] @ ''0 3 600'' @ [newline]), ipc_sem = Inr ''key semid'',
     ipc_msg = Inr []\<rparr>"

definition demo_reset :: reset_world where
  "demo_reset = \<lparr>rw_pid = 1,
     rw_rounds = [\<lparr>sw_listing = demo_listing [''1'', ''7'', ''self'', ''42''], sw_late = False\<rparr>,
       \<lparr>sw_listing = demo_listing [''self'', ''1''], sw_late = True\<rparr>],
     rw_ipc = demo_tables, rw_ipc_after = demo_tables\<lparr>ipc_shm := Inr ''key shmid''\<rparr>,
     rw_list = (\<lambda>p. Inr [Inr (p @ [''a''], Inr TDir), Inr (p @ [''l''], Inr TSymlink)]),
     rw_rm_tree = (\<lambda>p. Inr ()), rw_rm_file = (\<lambda>p. Inr ()), rw_accounts = calm_files\<rparr>"

lemma demo_reset_run:
  "reset demo_reset [[''tmp'']] \<lparr>ac_passwd = [], ac_ledger = []\<rparr> =
    (Some (Inr ()), \<lparr>ac_passwd = [], ac_ledger = []\<rparr>,
     [ReapZombies, KillPid 7, KillPid 42, ReapZombies, IpcRemove ''shm'' 3,
      RemoveTree [''tmp'', ''a''], Unlink [''tmp'', ''l'']])"
  by code_simp

theorem reset_ok_means_clean_witness:
  "no_objects (demo_tables\<lparr>ipc_shm := Inr ''key shmid''\<rparr>) \<and> list_all (emptied demo_reset) [[''tmp'']]"
  using reset_ok_means_clean [OF demo_reset_run] by (simp add: demo_reset_def)

theorem reset_kills_only_siblings_witness:
  "rw_pid demo_reset = 1 \<and> KillPid 1 \<notin> set [ReapZombies, KillPid 7, KillPid 42, ReapZombies,
     IpcRemove ''shm'' 3, RemoveTree [''tmp'', ''a''], Unlink [''tmp'', ''l'']]"
  by (rule reset_kills_only_siblings [OF demo_reset_run, where p = 7]) simp

text \<open>
  A reset always ends: the sweep returns by the first round after its deadline at the latest, whatever
  processes survive, and then every later step runs although an earlier one failed, so that the IPC
  objects, every configured directory and the accounts are treated in every reset.
\<close>

theorem reset_ends_and_runs_all:
  assumes "\<exists>r \<in> set (rw_rounds w). sw_late r"
  shows "\<exists>res s1 acts. reset w paths s = (Some res, s1, acts) \<and> ac_ledger s1 = [] \<and>
    (\<forall>p \<in> set paths. set (snd (clear_step w p)) \<subseteq> set acts) \<and>
    (rw_pid w = 1 \<longrightarrow> set (snd (remove_sysv_ipc (rw_ipc w) (rw_ipc_after w))) \<subseteq> set acts)"
proof -
  have "fst (reset w paths s) \<noteq> None"
    using sweep_returns [OF assms, of 1 None] by (auto simp: reset_def kill_all_except_self_def Let_def split_beta
        split: option.splits)
  then obtain res s1 acts where r: "reset w paths s = (Some res, s1, acts)"
    by (cases "reset w paths s") auto
  then obtain x a1 ipc a2 where
    i: "(if rw_pid w = 1 then remove_sysv_ipc (rw_ipc w) (rw_ipc_after w) else (Inr (), [])) = (ipc, a2)"
    and s1: "s1 = fst (cleanup (rw_accounts w) s)"
    and acts: "acts = a1 @ a2 @ concat (map (snd \<circ> clear_step w) paths) @ map RemoveHome (snd (cleanup (rw_accounts w) s))"
    by (rule reset_parts) simp
  have "rw_pid w = 1 \<Longrightarrow> a2 = snd (remove_sysv_ipc (rw_ipc w) (rw_ipc_after w))" using i by (simp add: prod_eq_iff)
  then show ?thesis using r s1 by (auto simp: acts cleanup_def Let_def)
qed

theorem reset_ends_and_runs_all_witness:
  "\<exists>res s1 acts. reset demo_reset [[''tmp'']] \<lparr>ac_passwd = [], ac_ledger = []\<rparr> = (Some res, s1, acts)
     \<and> ac_ledger s1 = []"
proof -
  have "\<exists>r \<in> set (rw_rounds demo_reset). sw_late r" by (simp add: demo_reset_def)
  from reset_ends_and_runs_all [OF this] show ?thesis by blast
qed

text \<open>A table that cannot be read counts as empty, before and after: the reset then removes nothing and
  reports that the removal was verified.\<close>

lemma unreadable_ipc_table_passes:
  "remove_sysv_ipc \<lparr>ipc_shm = Inl ''EACCES'', ipc_sem = Inl ''EACCES'', ipc_msg = Inl ''EACCES''\<rparr>
     \<lparr>ipc_shm = Inl ''EACCES'', ipc_sem = Inl ''EACCES'', ipc_msg = Inl ''EACCES''\<rparr> = (Inr (), [])"
  by code_simp

end
