(* ===== verification/Exec.thy ===== *)
theory Exec
  imports Account CaptureStore
begin

text \<open>
  \<open>shiitake-worker/src/exec.rs\<close>, \<open>cgroup.rs\<close> and the process side of \<open>pty.rs\<close>: what a child does
  between fork and exec, how a command is waited for and cancelled, the readings of the control group,
  and the shell of a terminal.  The answers of the kernel are arguments.
\<close>

section \<open>Control-group readings\<close>

text \<open>A file is its text, or \<open>None\<close> when it cannot be read.\<close>

definition parse_field :: "string \<Rightarrow> nat option" where
  "parse_field raw = parse_u64 raw"

definition read_memory_peak :: "string option \<Rightarrow> nat option" where
  "read_memory_peak file = (case file of None \<Rightarrow> None | Some raw \<Rightarrow> parse_field (trim raw))"

definition read_limit_from :: "string option \<Rightarrow> nat option" where
  "read_limit_from file = (case file of
     None \<Rightarrow> None
   | Some raw \<Rightarrow>
       if trim raw = ''max'' then None
       else (case parse_field (trim raw) of None \<Rightarrow> None | Some v \<Rightarrow> if v = 0 then None else Some v))"

definition read_memory_limit :: "string option \<Rightarrow> string option \<Rightarrow> nat option" where
  "read_memory_limit v2 v1 = (case read_limit_from v2 of Some v \<Rightarrow> Some v | None \<Rightarrow> read_limit_from v1)"

fun field_of_lines :: "string list \<Rightarrow> string \<Rightarrow> nat option" where
  "field_of_lines [] key = None"
| "field_of_lines (l # ls) key =
     (case strip_prefix key l of
       None \<Rightarrow> field_of_lines ls key
     | Some rest \<Rightarrow> (case strip_prefix '' '' rest of
         None \<Rightarrow> field_of_lines ls key
       | Some v \<Rightarrow> parse_field (trim v)))"

definition field_from :: "string \<Rightarrow> string \<Rightarrow> nat option" where
  "field_from content key = field_of_lines (lines content) key"

record cpu_times =
  user_usec :: nat
  system_usec :: nat

definition read_cpu_times_from :: "string option \<Rightarrow> cpu_times option" where
  "read_cpu_times_from file = (case file of
     None \<Rightarrow> None
   | Some content \<Rightarrow> (case field_from content ''user_usec'' of
       None \<Rightarrow> None
     | Some u \<Rightarrow> (case field_from content ''system_usec'' of
         None \<Rightarrow> None | Some v \<Rightarrow> Some \<lparr>user_usec = u, system_usec = v\<rparr>)))"

text \<open>CPU times are kept in microseconds; the code converts the difference to seconds.\<close>

definition usage :: "cpu_times option \<Rightarrow> cpu_times option \<Rightarrow> nat option \<Rightarrow> nat option \<Rightarrow> resource_usage" where
  "usage before after peak limit =
     (let (u, v) = (case (before, after) of
           (Some b, Some a) \<Rightarrow> (Some (user_usec a - user_usec b), Some (system_usec a - system_usec b))
         | _ \<Rightarrow> (None, None))
      in \<lparr>memory_peak_bytes = map_option word_of_nat peak, memory_limit_bytes = map_option word_of_nat limit,
          cpu_user_seconds = u, cpu_system_seconds = v\<rparr>)"

section \<open>Between fork and exec\<close>

datatype child_step =
    DefaultSignal nat
  | ClearSignalMask
  | SetSid
  | ControllingTerminal
  | SetGid "32 word"
  | SetGroups "32 word list"
  | SetUid "32 word"
  | SetUmask "32 word"
  | ExecProgram

text \<open>\<open>Signal::iterator\<close> without \<open>SIGKILL\<close> and \<open>SIGSTOP\<close>, by number.\<close>

definition reset_signal_state :: "child_step list" where
  "reset_signal_state = map DefaultSignal (filter (\<lambda>n. n \<noteq> 9 \<and> n \<noteq> 19) [1..<32]) @ [ClearSignalMask]"

definition apply_drop_to :: "drop_to \<Rightarrow> child_step list" where
  "apply_drop_to d = [SetGid (gid d), SetGroups (supplementary_gids d), SetUid (uid d)]
     @ (case umask d of None \<Rightarrow> [] | Some m \<Rightarrow> [SetUmask m])"

definition exec_steps :: "drop_to option \<Rightarrow> child_step list" where
  "exec_steps dr = reset_signal_state @ [SetSid] @ (case dr of None \<Rightarrow> [] | Some d \<Rightarrow> apply_drop_to d)"

definition pty_steps :: "drop_to option \<Rightarrow> child_step list" where
  "pty_steps dr = reset_signal_state @ [SetSid, ControllingTerminal]
     @ (case dr of None \<Rightarrow> [] | Some d \<Rightarrow> apply_drop_to d)"

text \<open>The credentials of a process, and a kernel: what each step does to them.  A step that fails ends
  the child before the program is started.\<close>

record creds =
  cred_uid :: "32 word"
  cred_gid :: "32 word"
  cred_groups :: "32 word list"
  cred_umask :: "32 word"

type_synonym kernel = "child_step \<Rightarrow> creds \<Rightarrow> string + creds"

fun run_child :: "kernel \<Rightarrow> child_step list \<Rightarrow> creds \<Rightarrow> (string + creds) \<times> child_step list" where
  "run_child sys [] c = (Inr c, [ExecProgram])"
| "run_child sys (x # xs) c =
     (case sys x c of
       Inl e \<Rightarrow> (Inl e, [x])
     | Inr c1 \<Rightarrow> (let (r, trace) = run_child sys xs c1 in (r, x # trace)))"

section \<open>Waiting and cancelling\<close>

datatype exit_state = Exited "i32 option" "i32 option"

text \<open>The first event of the \<open>select!\<close>: the cancel flag was set, its sender is gone (or it was set to
  false), or the child ended.  \<open>reaped\<close> is what waiting for the child gives.\<close>

datatype wait_event = CancelFlagSet | CancelFlagGone | ChildEnded

datatype signal_action = TermGroup | GraceSleep | KillGroup | AppendMarker string

definition wait_with_signals :: "wait_event \<Rightarrow> exit_state option \<Rightarrow>
    (bool \<times> exit_state option) \<times> signal_action list" where
  "wait_with_signals ev reaped = (case ev of
     CancelFlagSet \<Rightarrow> ((True, reaped), [TermGroup, GraceSleep, KillGroup])
   | CancelFlagGone \<Rightarrow> ((False, reaped), [])
   | ChildEnded \<Rightarrow> ((False, reaped), []))"

text \<open>What \<open>exec::run\<close> meets.\<close>

record exec_world =
  ex_cpu_before :: "string option"
  ex_cpu_after :: "string option"
  ex_peak :: "string option"
  ex_limit_v2 :: "string option"
  ex_limit_v1 :: "string option"
  ex_mkdir :: "string option"
  ex_stdout :: "string option"
  ex_stderr :: "string option"
  ex_accounts :: acct_world
  ex_kernel :: kernel
  ex_creds :: creds
  ex_exec :: "string option"
  ex_event :: wait_event
  ex_reaped :: "exit_state option"

definition cancel_marker :: string where
  "cancel_marker = [newline] @ ''Command cancelled by server'' @ [newline]"

text \<open>\<open>exec::run\<close>: the result with the accounts after it, what the child did, and the signals.\<close>

definition run_exec :: "exec_world \<Rightarrow> execute_frame \<Rightarrow> accounts \<Rightarrow>
    (string + result_frame) \<times> accounts \<times> child_step list \<times> signal_action list" where
  "run_exec w e s =
     (case ex_mkdir w of Some err \<Rightarrow> (Inl (''create capture dir: '' @ err), s, [], [])
      | None \<Rightarrow>
     (case ex_stdout w of Some err \<Rightarrow> (Inl (''create stdout capture file: '' @ err), s, [], [])
      | None \<Rightarrow>
     (case ex_stderr w of Some err \<Rightarrow> (Inl (''create stderr capture file: '' @ err), s, [], [])
      | None \<Rightarrow>
     (let (named, s1) = (case exec_drop_to e of None \<Rightarrow> (Inr None, s) | Some d \<Rightarrow> ensure (ex_accounts w) d s)
      in case named of
        Inl err \<Rightarrow> (Inl (''ensure named account: '' @ err), s1, [], [])
      | Inr _ \<Rightarrow>
         (case run_child (ex_kernel w) (exec_steps (exec_drop_to e)) (ex_creds w) of
           (Inl err, trace) \<Rightarrow> (Inl (''spawn bash -c: '' @ err), s1, trace, [])
         | (Inr _, trace) \<Rightarrow>
            (case ex_exec w of
              Some err \<Rightarrow> (Inl (''spawn bash -c: '' @ err), s1, trace, [])
            | None \<Rightarrow>
               (let ((cancelled, status), sigs) = wait_with_signals (ex_event w) (ex_reaped w);
                    (code, signal) = (case status of
                       Some (Exited c g) \<Rightarrow> (c, g) | None \<Rightarrow> (None, Some 9))
                in (Inr \<lparr>res_request_id = request_id e, res_exit_code = code, res_exit_signal = signal,
                     res_cancelled = cancelled,
                     res_usage = usage (read_cpu_times_from (ex_cpu_before w)) (read_cpu_times_from (ex_cpu_after w))
                        (read_memory_peak (ex_peak w)) (read_memory_limit (ex_limit_v2 w) (ex_limit_v1 w)),
                     res_error = None\<rparr>,
                    s1, trace, sigs @ (if cancelled then [AppendMarker cancel_marker] else [])))))))))"

section \<open>The shell of a terminal\<close>

definition default_shell :: "string option \<Rightarrow> string list" where
  "default_shell var = (case var of
     Some s \<Rightarrow> if trim s \<noteq> [] then split_whitespace s else [''bash'', ''-i'']
   | None \<Rightarrow> [''bash'', ''-i''])"

definition pty_argv :: "string option \<Rightarrow> pty_open_frame \<Rightarrow> string list" where
  "pty_argv var fr = (if pty_command fr = [] then default_shell var else pty_command fr)"

text \<open>The environment of the shell: \<open>TERM\<close> over the caller's, and \<open>HOME\<close> over both when a home was set up.\<close>

definition pty_vars :: "pty_open_frame \<Rightarrow> string option \<Rightarrow> env_map" where
  "pty_vars fr home =
     (let vars = hput ''TERM'' ''xterm-256color'' (pty_env fr)
      in case home of None \<Rightarrow> vars | Some h \<Rightarrow> hput ''HOME'' h vars)"

record pty_world =
  pw_shell :: "string option"
  pw_open :: "string option"
  pw_dup :: "string option"
  pw_accounts :: acct_world
  pw_kernel :: kernel
  pw_creds :: creds
  pw_exec :: "string option"
  pw_register :: "string option"

text \<open>\<open>PtySession::spawn\<close>: the argument vector and environment of the shell, or the error.\<close>

definition spawn_pty :: "pty_world \<Rightarrow> pty_open_frame \<Rightarrow> accounts \<Rightarrow>
    (string + string list \<times> env_map) \<times> accounts \<times> child_step list" where
  "spawn_pty w fr s =
     (case pw_open w of Some err \<Rightarrow> (Inl (''openpty: '' @ err), s, [])
      | None \<Rightarrow>
     (case pw_dup w of Some err \<Rightarrow> (Inl err, s, [])
      | None \<Rightarrow>
     (let (named, s1) = (case pty_drop_to fr of None \<Rightarrow> (Inr None, s) | Some d \<Rightarrow> ensure (pw_accounts w) d s)
      in case named of
        Inl err \<Rightarrow> (Inl (''ensure named account: '' @ err), s1, [])
      | Inr home \<Rightarrow>
         (case run_child (pw_kernel w) (pty_steps (pty_drop_to fr)) (pw_creds w) of
           (Inl err, trace) \<Rightarrow> (Inl (''spawn shell on pty: '' @ err), s1, trace)
         | (Inr _, trace) \<Rightarrow>
            (case pw_exec w of
              Some err \<Rightarrow> (Inl (''spawn shell on pty: '' @ err), s1, trace)
            | None \<Rightarrow>
               (case pw_register w of
                 Some err \<Rightarrow> (Inl err, s1, trace)
               | None \<Rightarrow> (Inr (pty_argv (pw_shell w) fr, pty_vars fr home), s1, trace)))))))"

text \<open>\<open>write_input\<close>: the writes the kernel performs, given its answer to each.\<close>

datatype write_answer = Wrote nat | WouldBlock | WriteFailed string

fun write_input :: "bytes \<Rightarrow> write_answer list \<Rightarrow> (string + unit) option \<times> bytes list" where
  "write_input [] as = (Some (Inr ()), [])"
| "write_input (b # bs) [] = (None, [])"
| "write_input (b # bs) (a # as) =
     (case a of
       WouldBlock \<Rightarrow> write_input (b # bs) as
     | WriteFailed e \<Rightarrow> (Some (Inl e), [])
     | Wrote n \<Rightarrow>
         (let (r, ws) = write_input (drop n (b # bs)) as in (r, take n (b # bs) # ws)))"

text \<open>\<open>read_output\<close>: the first answer that is not "would block".\<close>

fun read_output :: "(string + bytes) option list \<Rightarrow> (string + bytes) option" where
  "read_output [] = None"
| "read_output (None # as) = read_output as"
| "read_output (Some r # as) = Some r"

datatype hangup_action = HangupGroup | AwaitExit | KillChild

definition shutdown_pty :: "bool \<Rightarrow> bool \<Rightarrow> hangup_action list" where
  "shutdown_pty has_pid exits_in_time =
     (if has_pid then [HangupGroup] else []) @ [AwaitExit] @ (if exits_in_time then [] else [KillChild])"

section \<open>Properties\<close>

lemma run_child_all:
  "run_child sys xs c = (Inr c1, trace) \<Longrightarrow> trace = xs @ [ExecProgram]"
  by (induction xs arbitrary: c c1 trace) (auto split: sum.splits prod.splits)

lemma run_child_fail:
  "run_child sys xs c = (Inl e, trace) \<Longrightarrow> ExecProgram \<notin> set xs \<Longrightarrow> ExecProgram \<notin> set trace"
  by (induction xs arbitrary: c e trace) (auto split: sum.splits prod.splits)

lemma run_child_append:
  "fst (run_child sys (xs @ ys) c) =
     (case fst (run_child sys xs c) of Inl e \<Rightarrow> Inl e | Inr c1 \<Rightarrow> fst (run_child sys ys c1))"
  by (induction xs arbitrary: c) (auto simp: split_beta split: sum.split)

lemma no_exec_in_steps: "ExecProgram \<notin> set (exec_steps dr)"
  by (auto simp: exec_steps_def reset_signal_state_def apply_drop_to_def split: option.splits)

text \<open>A chain of answers in which every step succeeds, each from the credentials the one before it left.\<close>

definition all_succeed :: "kernel \<Rightarrow> child_step list \<Rightarrow> creds list \<Rightarrow> bool" where
  "all_succeed sys xs cs \<longleftrightarrow> length cs = Suc (length xs) \<and>
     (\<forall>i < length xs. sys (xs ! i) (cs ! i) = Inr (cs ! Suc i))"

lemma run_child_chain:
  "run_child sys xs c = (Inr c1, trace) \<Longrightarrow> \<exists>cs. all_succeed sys xs cs \<and> hd cs = c \<and> last cs = c1"
proof (induction xs arbitrary: c trace)
  case Nil
  then show ?case by (intro exI [of _ "[c]"]) (simp add: all_succeed_def)
next
  case (Cons x xs)
  then obtain c2 tr where x: "sys x c = Inr c2" and r: "run_child sys xs c2 = (Inr c1, tr)"
    by (auto split: sum.splits prod.splits)
  from Cons.IH [OF r] obtain cs where cs: "all_succeed sys xs cs" "hd cs = c2" "last cs = c1" by blast
  then have ne: "cs \<noteq> []" by (auto simp: all_succeed_def)
  with cs x have "all_succeed sys (x # xs) (c # cs)"
    by (auto simp: all_succeed_def nth_Cons hd_conv_nth split: nat.split)
  with cs ne show ?case by (intro exI [of _ "c # cs"]) simp
qed

text \<open>
  C31: A command never runs with part of its identity: whatever the kernel answers, the program of a
  command is started only after every step before it has succeeded, in the order signals, session, group,
  supplementary groups, user, mask, each from the credentials that the one before it left; if it was not
  started the command fails with an error.
\<close>

theorem exec_only_after_drop:
  assumes "run_exec w e s = (r, s1, trace, sigs)"
    and steps: "steps = reset_signal_state @ [SetSid] @ (case exec_drop_to e of None \<Rightarrow> []
      | Some d \<Rightarrow> [SetGid (gid d), SetGroups (supplementary_gids d), SetUid (uid d)]
          @ (case umask d of None \<Rightarrow> [] | Some m \<Rightarrow> [SetUmask m]))"
  shows "if ExecProgram \<in> set trace
    then trace = steps @ [ExecProgram] \<and> (\<exists>cs. hd cs = ex_creds w \<and> length cs = Suc (length steps) \<and>
      (\<forall>i < length steps. ex_kernel w (steps ! i) (cs ! i) = Inr (cs ! Suc i)))
    else \<exists>err. r = Inl err"
proof -
  have st: "steps = exec_steps (exec_drop_to e)"
    unfolding steps by (simp add: exec_steps_def apply_drop_to_def split: option.split)
  obtain rc tr where c: "run_child (ex_kernel w) steps (ex_creds w) = (rc, tr)" by fastforce
  have t: "(trace = [] \<and> (\<exists>err. r = Inl err)) \<or> (trace = tr \<and> (\<forall>err. rc = Inl err \<longrightarrow> (\<exists>err. r = Inl err)))"
    using assms(1) c [unfolded st]
    by (auto simp: run_exec_def Let_def split: option.splits sum.splits prod.splits)
  show ?thesis
  proof (cases rc)
    case (Inl err)
    with run_child_fail [OF c [unfolded Inl]] no_exec_in_steps t show ?thesis by (auto simp: st)
  next
    case (Inr c1)
    note ok = c [unfolded Inr]
    have tr: "tr = steps @ [ExecProgram]" by (rule run_child_all [OF ok])
    from run_child_chain [OF ok] obtain cs where "all_succeed (ex_kernel w) steps cs" "hd cs = ex_creds w" by blast
    then have "\<exists>cs. hd cs = ex_creds w \<and> length cs = Suc (length steps) \<and>
      (\<forall>i < length steps. ex_kernel w (steps ! i) (cs ! i) = Inr (cs ! Suc i))"
      unfolding all_succeed_def by blast
    with t tr show ?thesis by (elim disjE conjE) (simp_all del: ex_simps)
  qed
qed

text \<open>A kernel that does what the manual pages say about a privileged process, and refuses everybody else: no id is
  all ones, there are at most 65536 supplementary groups, and a mask keeps its permission bits.\<close>

definition privileged :: "creds \<Rightarrow> creds \<Rightarrow> string + creds" where
  "privileged c c1 = (if cred_uid c = 0 then Inr c1 else Inl ''EPERM'')"

fun strict_kernel :: kernel where
  "strict_kernel (SetGid g) c = (if g = - 1 then Inl ''EINVAL'' else privileged c (c\<lparr>cred_gid := g\<rparr>))"
| "strict_kernel (SetGroups gs) c =
     (if 65536 < int (length gs) then Inl ''EINVAL'' else privileged c (c\<lparr>cred_groups := gs\<rparr>))"
| "strict_kernel (SetUid u) c = (if u = - 1 then Inl ''EINVAL'' else privileged c (c\<lparr>cred_uid := u\<rparr>))"
| "strict_kernel (SetUmask m) c = Inr (c\<lparr>cred_umask := m AND 0x1FF\<rparr>)"
| "strict_kernel _ c = Inr c"

definition demo_exec :: exec_world where
  "demo_exec = \<lparr>ex_cpu_before = None, ex_cpu_after = None, ex_peak = None, ex_limit_v2 = None, ex_limit_v1 = None,
     ex_mkdir = None, ex_stdout = None, ex_stderr = None, ex_accounts = calm_files, ex_kernel = strict_kernel,
     ex_creds = \<lparr>cred_uid = 0, cred_gid = 0, cred_groups = [], cred_umask = 18\<rparr>, ex_exec = None,
     ex_event = ChildEnded, ex_reaped = Some (Exited (Some 0) None)\<rparr>"

definition demo_frame :: execute_frame where
  "demo_frame = \<lparr>request_id = ExecId ''c'', command = ''true'', working_dir = ''/'', env = [],
     exec_drop_to = Some \<lparr>uid = 7, gid = 8, supplementary_gids = [9], umask = Some 63, login_name = None,
       create_home = False\<rparr>\<rparr>"

theorem exec_only_after_drop_witness:
  "\<exists>cs. hd cs = ex_creds demo_exec \<and> length cs = Suc (length (exec_steps (exec_drop_to demo_frame)))"
proof -
  let ?r = "run_exec demo_exec demo_frame \<lparr>ac_passwd = [], ac_ledger = []\<rparr>"
  have t: "?r = (fst ?r, fst (snd ?r), fst (snd (snd ?r)), snd (snd (snd ?r)))" by simp
  have e: "ExecProgram \<in> set (fst (snd (snd ?r)))" by code_simp
  have st: "exec_steps (exec_drop_to demo_frame) = reset_signal_state @ [SetSid] @ (case exec_drop_to demo_frame of None \<Rightarrow> []
      | Some d \<Rightarrow> [SetGid (gid d), SetGroups (supplementary_gids d), SetUid (uid d)]
          @ (case umask d of None \<Rightarrow> [] | Some m \<Rightarrow> [SetUmask m]))"
    by (simp add: exec_steps_def apply_drop_to_def split: option.split)
  from exec_only_after_drop [OF t st] e show ?thesis by auto
qed

text \<open>
  C32: The drop of privileges is complete, and its order is one that works: on any kernel that accepts the
  requested group, supplementary groups and user from a process with uid 0, and perhaps from nobody else, the
  steps started as root succeed and leave exactly the requested user, group and supplementary groups, and the
  permission bits of the requested mask.
\<close>

theorem drop_is_complete:
  assumes root: "cred_uid c = 0"
    and gid: "\<And>c. cred_uid c = 0 \<Longrightarrow> sys (SetGid (gid d)) c = Inr (c\<lparr>cred_gid := gid d\<rparr>)"
    and groups: "\<And>c. cred_uid c = 0 \<Longrightarrow>
      sys (SetGroups (supplementary_gids d)) c = Inr (c\<lparr>cred_groups := supplementary_gids d\<rparr>)"
    and uid: "\<And>c. cred_uid c = 0 \<Longrightarrow> sys (SetUid (uid d)) c = Inr (c\<lparr>cred_uid := uid d\<rparr>)"
    and mask: "\<And>c m. sys (SetUmask m) c = Inr (c\<lparr>cred_umask := m AND 0x1FF\<rparr>)"
    and signals: "\<And>c n. sys (DefaultSignal n) c = Inr c" "\<And>c. sys ClearSignalMask c = Inr c"
      "\<And>c. sys SetSid c = Inr c"
  shows "fst (run_child sys (exec_steps (Some d)) c) = Inr \<lparr>cred_uid = uid d, cred_gid = gid d,
    cred_groups = supplementary_gids d, cred_umask = (case umask d of None \<Rightarrow> cred_umask c | Some m \<Rightarrow> m AND 0x1FF)\<rparr>"
proof -
  have sig: "fst (run_child sys reset_signal_state c) = Inr c"
  proof -
    have "fst (run_child sys (map DefaultSignal ns @ [ClearSignalMask]) c) = Inr c" for ns
      by (induction ns) (simp_all add: signals split_beta)
    then show ?thesis unfolding reset_signal_state_def .
  qed
  have "fst (run_child sys (apply_drop_to d) c) = Inr \<lparr>cred_uid = uid d, cred_gid = gid d,
    cred_groups = supplementary_gids d, cred_umask = (case umask d of None \<Rightarrow> cred_umask c | Some m \<Rightarrow> m AND 0x1FF)\<rparr>"
    using root by (cases "umask d") (simp_all add: apply_drop_to_def gid groups uid mask split_beta)
  then show ?thesis
    unfolding exec_steps_def by (simp add: run_child_append sig signals split_beta)
qed

theorem drop_is_complete_witness:
  "fst (run_child strict_kernel (exec_steps (exec_drop_to demo_frame)) (ex_creds demo_exec)) =
     Inr \<lparr>cred_uid = 7, cred_gid = 8, cred_groups = [9], cred_umask = 63\<rparr>"
proof -
  let ?d = "the (exec_drop_to demo_frame)" and ?c = "ex_creds demo_exec"
  have c: "cred_uid ?c = 0" by (simp add: demo_exec_def)
  have ids: "uid ?d \<noteq> - 1" "gid ?d \<noteq> - 1" "int (length (supplementary_gids ?d)) \<le> 65536"
    by (simp_all add: demo_frame_def)
  have "fst (run_child strict_kernel (exec_steps (Some ?d)) ?c) = Inr \<lparr>cred_uid = uid ?d, cred_gid = gid ?d,
      cred_groups = supplementary_gids ?d,
      cred_umask = (case umask ?d of None \<Rightarrow> cred_umask ?c | Some m \<Rightarrow> m AND 0x1FF)\<rparr>"
    by (rule drop_is_complete [OF c]) (use ids in \<open>simp_all add: privileged_def\<close>)
  then show ?thesis by (simp add: demo_frame_def)
qed

text \<open>
  Keystrokes reach the terminal whole and in order: when \<open>write_input\<close> returns without an error, the
  pieces it wrote, through whatever short writes, make up exactly the input; and at any moment they are a
  prefix of it.
\<close>

theorem write_input_whole:
  "\<exists>rest. data = concat (snd (write_input data as)) @ rest \<and>
     (fst (write_input data as) = Some (Inr ()) \<longrightarrow> rest = [])"
proof (induction data as rule: write_input.induct)
  case (1 as)
  then show ?case by simp
next
  case (2 b bs)
  then show ?case by simp
next
  case (3 b bs a as)
  show ?case
  proof (cases a)
    case (Wrote n)
    from 3(1) [OF Wrote] obtain rest where
      r: "drop n (b # bs) = concat (snd (write_input (drop n (b # bs)) as)) @ rest"
      "fst (write_input (drop n (b # bs)) as) = Some (Inr ()) \<longrightarrow> rest = []" by blast
    have w: "write_input (b # bs) (a # as) =
        (fst (write_input (drop n (b # bs)) as), take n (b # bs) # snd (write_input (drop n (b # bs)) as))"
      using Wrote by (simp only: write_input.simps write_answer.case Let_def split_beta)
    have "b # bs = take n (b # bs) @ drop n (b # bs)" by (simp only: append_take_drop_id)
    also have "\<dots> = concat (snd (write_input (b # bs) (a # as))) @ rest"
      unfolding w by (subst r(1)) (simp only: snd_conv concat.simps append.assoc)
    finally show ?thesis using r(2) unfolding w by auto
  next
    case WouldBlock
    with 3(2) show ?thesis by simp
  next
    case (WriteFailed e)
    then show ?thesis by simp
  qed
qed

theorem write_input_whole_witness:
  "concat (snd (write_input [1, 2, 3] [Wrote 2, WouldBlock, Wrote 1])) = [1, 2, 3]"
proof -
  have "fst (write_input [1, 2, 3] [Wrote 2, WouldBlock, Wrote 1]) = Some (Inr ())" by simp
  with write_input_whole [of "[1, 2, 3]" "[Wrote 2, WouldBlock, Wrote 1]"] show ?thesis by auto
qed

end
