(* ===== verification/EndToEnd.thy ===== *)
theory EndToEnd
  imports Deployment WorkerJobs
begin

text \<open>
  Bytes from one end to the other: what the tasks of a session host hand to its loop, through the frames of the
  dispatch socket, to the spool of the command on the server, and what passes between the shell's
  pseudo terminal and the screen and keyboard of the client.  Each stage is a loop that gives on exactly what
  it takes; the stages are composed on the messages between them.
\<close>

section \<open>A loop that relays\<close>

text \<open>What a turn gives is what its input took, as long as the loop lives on.\<close>

locale relay =
  fixes live :: "'s \<Rightarrow> bool" and turn :: "'s \<Rightarrow> 'i \<Rightarrow> 's \<times> 'a list" and inv :: "'s \<Rightarrow> bool"
    and input_ok :: "'i \<Rightarrow> bool" and taken :: "'i \<Rightarrow> 'b list" and given :: "'a \<Rightarrow> 'b list"
  assumes turn_relays: "inv s \<Longrightarrow> live s \<Longrightarrow> input_ok i \<Longrightarrow> turn s i = (t, as) \<Longrightarrow> live t \<Longrightarrow>
      inv t \<and> concat (map given as) = taken i"
begin

lemma drive_relays:
  "drive live turn is s = (t, as) \<Longrightarrow> live t \<Longrightarrow> inv s \<Longrightarrow> list_all input_ok is \<Longrightarrow>
    inv t \<and> concat (map given as) = concat (map taken is)"
proof (induction "is" arbitrary: s as)
  case Nil
  then show ?case by simp
next
  case (Cons i "is")
  obtain s1 a1 where t1: "turn s i = (s1, a1)" by fastforce
  obtain s2 a2 where t2: "drive live turn is s1 = (s2, a2)" by fastforce
  have s: "live s" using Cons.prems(1,2) by (auto split: if_splits)
  have eq: "as = a1 @ a2" "t = s2" using Cons.prems(1) s t1 t2 by simp_all
  have "live s1" using t2 eq(2) Cons.prems(2) by (cases "is") (auto split: if_splits)
  with turn_relays [OF Cons.prems(3) s _ t1] Cons.prems(4) have
    one: "inv s1" "concat (map given a1) = taken i" by simp_all
  from Cons.IH [OF t2 [folded eq(2)] Cons.prems(2) one(1)] Cons.prems(4) one(2) eq(1) show ?case by simp
qed

end

section \<open>What crosses the dispatch socket\<close>

definition to_server :: "session_action \<Rightarrow> message option" where
  "to_server a = (case a of
     session_action.SendFrame f \<Rightarrow> Some (Text f) | SendBinary d \<Rightarrow> Some (Binary d) | SendPong b \<Rightarrow> Some (Pong b)
   | _ \<Rightarrow> None)"

definition messages :: "session_action list \<Rightarrow> message list" where
  "messages acts = List.map_filter to_server acts"

text \<open>The payload of a message, on one stream under one id.\<close>

definition carried :: "output_stream \<Rightarrow> string \<Rightarrow> message \<Rightarrow> bytes" where
  "carried which i m = (case m of
     Binary d \<Rightarrow> (case decode d of
         Inr c \<Rightarrow> if chunk_stream c = which \<and> chunk_id c = i then chunk_bytes c else [] | Inl _ \<Rightarrow> [])
   | _ \<Rightarrow> [])"

definition carried_by :: "output_stream \<Rightarrow> string \<Rightarrow> session_action \<Rightarrow> bytes" where
  "carried_by which i a = (case to_server a of None \<Rightarrow> [] | Some m \<Rightarrow> carried which i m)"

lemma carried_simps [simp]:
  "carried which i (Text f) = []" "carried which i (Pong b) = []"
  by (simp_all add: carried_def)

lemma carried_by_simps [simp]:
  "carried_by which i (session_action.SendFrame f) = []" "carried_by which i (SendBinary d) = carried which i (Binary d)"
  "carried_by which i (SendPong b) = []" "carried_by which i (PtyWrite b) = []" "carried_by which i (StartJob e) = []"
  "carried_by which i (WatchStateful e) = []" "carried_by which i (PurgeCapture r) = []"
  "carried_by which i (ReadState r c v) = []" "carried_by which i (CancelJob r) = []"
  "carried_by which i (PtyResized cols rows) = []" "carried_by which i PtyShutdown = []"
  by (simp_all add: carried_by_def to_server_def)

lemma messages_simps [simp]:
  "messages [] = []" "messages (as @ bs) = messages as @ messages bs"
  "messages [session_action.SendFrame f] = [Text f]"
  by (simp_all add: messages_def map_filter_simps to_server_def map_filter_def)

lemma carried_messages: "concat (map (carried which i) (messages acts)) = concat (map (carried_by which i) acts)"
  by (induction acts) (auto simp: messages_def map_filter_simps carried_by_def split: option.split)

lemma encode_id: "encode c = Some d \<Longrightarrow> decode d = Inr c' \<Longrightarrow> c' = c"
proof -
  assume e: "encode c = Some d" and d: "decode d = Inr c'"
  from encode_decode [OF d] have e': "encode c' = Some d" by simp
  let ?w = "\<lambda>c. (word_of_nat (length (chunk_id c)) :: 16 word)"
  have l: "length (chunk_id c) < 65536" "length (chunk_id c') < 65536"
    and b: "stream_byte (chunk_stream c') # to_be_bytes (?w c') @ as_bytes (chunk_id c') @ chunk_bytes c'
      = stream_byte (chunk_stream c) # to_be_bytes (?w c) @ as_bytes (chunk_id c) @ chunk_bytes c"
    using e e' by (auto simp: encode_def Let_def split: if_splits)
  have st: "chunk_stream c' = chunk_stream c"
    using b stream_round_trip [of "chunk_stream c"] stream_round_trip [of "chunk_stream c'"] by (metis list.inject sum.inject(2))
  have "to_be_bytes (?w c') = to_be_bytes (?w c)"
    and r: "as_bytes (chunk_id c') @ chunk_bytes c' = as_bytes (chunk_id c) @ chunk_bytes c"
    using b by (auto simp: to_be_bytes_def)
  then have "?w c' = ?w c" by (metis from_to_be_bytes to_be_bytes_def list.inject)
  then have "unat (?w c') = unat (?w c)" by simp
  with l have "length (chunk_id c') = length (chunk_id c)" by (simp add: unat_of_nat)
  with r have "as_bytes (chunk_id c') = as_bytes (chunk_id c)" "chunk_bytes c' = chunk_bytes c"
    by (simp_all add: append_eq_append_conv)
  with st show "c' = c" by (metis of_bytes_as_bytes output_chunk.equality old.unit.exhaust)
qed

text \<open>What a chunk carries, encoded.\<close>

lemma carried_encoded:
  assumes "rust_string i" and "encode \<lparr>chunk_stream = st, chunk_id = j, chunk_bytes = bs\<rparr> = Some d"
  shows "carried which i (Binary d) = (if st = which \<and> j = i then bs else [])"
proof (cases "decode d")
  case (Inl e)
  have "\<not> (st = which \<and> j = i)"
  proof
    assume a: "st = which \<and> j = i"
    have "chunk_ok \<lparr>chunk_stream = st, chunk_id = j, chunk_bytes = bs\<rparr>"
      using assms a by (auto simp: chunk_ok_def encode_def Let_def split: if_splits)
    from chunk.dec_enc [OF this assms(2)] Inl show False by simp
  qed
  with Inl show ?thesis by (auto simp: carried_def)
next
  case (Inr c)
  with encode_id [OF assms(2) Inr] show ?thesis by (simp add: carried_def)
qed

section \<open>The session host as a relay\<close>

text \<open>The output of one command, and the reads of the pseudo terminal.\<close>

definition event_bytes :: "exec_id \<Rightarrow> output_stream \<Rightarrow> session_world \<times> session_input \<Rightarrow> bytes" where
  "event_bytes rid which x = (case snd x of JobEvent (EvOutput r w bs) \<Rightarrow> if r = rid \<and> w = which then bs else [] | _ \<Rightarrow> [])"

definition job_events :: "(session_world \<times> session_input) list \<Rightarrow> session_event list" where
  "job_events is = List.map_filter (\<lambda>x. case snd x of JobEvent ev \<Rightarrow> Some ev | _ \<Rightarrow> None) is"

lemma event_bytes_stream: "concat (map (event_bytes rid which) is) = stream_of rid which (job_events is)"
proof (induction "is")
  case Nil
  then show ?case by (simp add: job_events_def map_filter_simps)
next
  case (Cons x "is")
  then show ?case
    by (cases "snd x") (auto simp: job_events_def map_filter_simps event_bytes_def split: session_event.split)
qed

lemma start_queue_carries:
  "start_queue w q s = (t, acts) \<Longrightarrow> concat (map (carried_by which i) acts) = []"
proof (induction q arbitrary: s acts)
  case Nil
  then show ?case by auto
next
  case (Cons x q)
  obtain e m where x: "x = (e, m)" by (cases x)
  from Cons.prems [unfolded x] show ?case
    by (cases rule: start_queue_cases) (use Cons.IH in auto)
qed

lemma send_chunk_carries:
  assumes "send_chunk w st j bs s = (t, acts)" and "ws_loop t = Serving" and "rust_string i"
  shows "concat (map (carried_by which i) acts) = (if st = which \<and> j = i then bs else [])"
  using assms by (auto simp: send_chunk_def carried_encoded split: option.splits)


text \<open>Only an output event and a read of the terminal send a chunk.\<close>

lemma on_input_carries:
  assumes "on_input w x s = (t, acts)" and "ws_loop t = Serving" and "rust_string i"
  shows "concat (map (carried_by which i) acts) = (case x of
      JobEvent (EvOutput r st bs) \<Rightarrow> if st = which \<and> eid_str r = i then bs else []
    | PtyRead r \<Rightarrow> concat (map (carried_by which i) (snd (on_pty w r s)))
    | _ \<Rightarrow> [])"
proof (cases x)
  case (PtyRead r)
  with assms(1) show ?thesis by (simp add: on_input_def)
next
  case (JobEvent ev)
  show ?thesis
  proof (cases ev)
    case (EvOutput r st bs)
    with JobEvent assms(1) have "send_chunk w st (eid_str r) bs s = (t, acts)" by (simp add: on_input_def on_event_def)
    from send_chunk_carries [OF this assms(2,3), of which] show ?thesis by (simp add: JobEvent EvOutput)
  qed (use assms JobEvent in \<open>auto simp: on_input_def on_event_def on_result_def report_def Let_def
    split: if_splits sum.splits prod.splits\<close>)
next
  case LeaseLapsed
  with assms(1) show ?thesis by (auto simp: on_input_def)
next
  case (Socket m)
  with assms(1) show ?thesis
    by (auto simp: on_input_def on_socket_def on_frame_def on_session_run_def on_cancel_def Let_def
      split: option.splits message.splits sum.splits if_splits frame.splits)
qed

lemma session_turn_carries:
  assumes "session_turn w x s = (t, acts)" and "ws_loop t = Serving" and "rust_string i"
  obtains s1 a1 a2 where "start_jobs w s = (s1, a1)" "on_input w x s1 = (t, a2)" "acts = a1 @ a2"
    "concat (map (carried_by which i) acts) = concat (map (carried_by which i) a2)"
  using assms(1)
proof (cases rule: session_turn_cases)
  case (closed s1)
  with assms(2) show thesis by simp
next
  case (served s1 a1 a2)
  from start_queue_carries [OF served(1) [unfolded start_jobs_def]] served that show thesis by simp
qed

lemma on_pty_carries:
  assumes "on_pty w r s = (t, acts)" and "ws_loop t = Serving" and "rust_string i"
  shows "concat (map (carried_by which i) acts) = (case r of None \<Rightarrow> [] | Some bs \<Rightarrow>
    if which = Terminal \<and> sid_str (ws_id s) = i
    then (case ws_completion s of None \<Rightarrow> bs | Some c \<Rightarrow> fst (feed bs c)) else [])"
  using assms
  by (auto simp: on_pty_def Let_def dest!: send_chunk_carries [where i = i and which = which]
    split: option.splits if_splits prod.splits)

lemma session_turn_output:
  assumes "rust_string (eid_str rid)" and "which \<noteq> Terminal"
    and "session_turn w x s = (t, acts)" and "ws_loop t = Serving"
  shows "concat (map (carried_by which (eid_str rid)) acts) = event_bytes rid which (w, x)"
proof -
  from session_turn_carries [OF assms(3,4,1), of which] obtain s1 a1 a2 where
    a: "on_input w x s1 = (t, a2)"
      "concat (map (carried_by which (eid_str rid)) acts) = concat (map (carried_by which (eid_str rid)) a2)" by metis
  have same: "eid_str r = eid_str rid \<longleftrightarrow> r = rid" for r by (cases r; cases rid) simp
  have pty: "concat (map (carried_by which (eid_str rid)) (snd (on_pty w r s1))) = []" if "x = PtyRead r" for r
    using on_pty_carries [of w r s1 t a2 "eid_str rid" which] a(1) assms that
    by (auto simp: on_input_def split: option.splits)
  show ?thesis
    using on_input_carries [OF a(1) assms(4,1), of which] pty
    by (auto simp: a(2) event_bytes_def same split: session_input.splits session_event.splits)
qed

interpretation out: relay "\<lambda>s. ws_loop s = Serving" "\<lambda>s (w, i). session_turn w i s"
  "\<lambda>_. rust_string (eid_str rid) \<and> which \<noteq> Terminal" "\<lambda>_. True"
  "event_bytes rid which" "carried_by which (eid_str rid)" for rid which
  by unfold_locales (auto simp: session_turn_output)

lemma session_output_carried:
  assumes "session_loop is s = (t, acts)" and "ws_loop t = Serving" and "rust_string (eid_str rid)" and "which \<noteq> Terminal"
  shows "concat (map (carried which (eid_str rid)) (messages acts)) = stream_of rid which (job_events is)"
  using out.drive_relays [OF assms(1) [unfolded session_loop_def] assms(2), where rid = rid and which = which] assms(3,4)
  by (simp add: carried_messages event_bytes_stream list_all_iff)

text \<open>The only frames the loop itself sends are results.\<close>

lemma on_input_frames:
  assumes "on_input w x s = (t, acts)" and "session_action.SendFrame f \<in> set acts"
  shows "\<exists>r. f = Result r"
proof (cases x)
  case (PtyRead r)
  with assms show ?thesis
    by (auto simp: on_input_def on_pty_def send_chunk_def Let_def split: option.splits if_splits prod.splits)
next
  case (JobEvent ev)
  with assms show ?thesis
    by (cases ev) (auto simp: on_input_def on_event_def on_result_def report_def send_chunk_def Let_def
      split: if_splits sum.splits prod.splits option.splits)
next
  case LeaseLapsed
  with assms show ?thesis by (auto simp: on_input_def)
next
  case (Socket m)
  with assms show ?thesis
    by (auto simp: on_input_def on_socket_def on_frame_def on_session_run_def on_cancel_def Let_def
      split: option.splits message.splits sum.splits if_splits frame.splits)
qed

lemma start_queue_frames:
  "start_queue w q s = (t, acts) \<Longrightarrow> session_action.SendFrame f \<in> set acts \<Longrightarrow> \<exists>r. f = Result r"
proof (induction q arbitrary: s acts)
  case Nil
  then show ?case by auto
next
  case (Cons x q)
  obtain e m where x: "x = (e, m)" by (cases x)
  from Cons.prems(1) [unfolded x] show ?case
    by (cases rule: start_queue_cases) (use Cons.IH Cons.prems(2) in auto)
qed

lemma session_loop_frames:
  assumes "session_action.SendFrame f \<in> set (snd (session_loop is s))"
  shows "\<exists>r. f = Result r"
proof -
  from drive_effect [OF assms [unfolded session_loop_def]] obtain x s where
    f: "session_action.SendFrame f \<in> set (snd (session_turn (fst x) (snd x) s))" by (auto split: prod.splits)
  obtain t acts where "session_turn (fst x) (snd x) s = (t, acts)" by fastforce
  then show ?thesis
  proof (cases rule: session_turn_cases)
    case (closed s1)
    with f show ?thesis by (auto simp: session_turn_def start_jobs_def dest: start_queue_frames)
  next
    case (served s1 a1 a2)
    with f \<open>session_turn (fst x) (snd x) s = (t, acts)\<close> show ?thesis
      by (auto simp: start_jobs_def dest: start_queue_frames on_input_frames)
  qed
qed

section \<open>The read loop of the server as a relay\<close>

definition spool_of :: "output_stream \<Rightarrow> capture_stream" where
  "spool_of which = (if which = Stdout then OutStream else ErrStream)"

text \<open>What an effect adds to a spool.\<close>

definition spooled :: "exec_id \<Rightarrow> output_stream \<Rightarrow> effect \<Rightarrow> bytes" where
  "spooled rid which e = (case e of AppendSpool r w bs \<Rightarrow> if r = rid \<and> w = spool_of which then bs else [] | _ \<Rightarrow> [])"

text \<open>A command that runs on a worker and whose output has reached its spool so far.\<close>

definition row_open :: "exec_id \<Rightarrow> pool \<Rightarrow> bool" where
  "row_open rid p = (case hget (handles p) rid of None \<Rightarrow> False
     | Some row \<Rightarrow> hr_status row = Running \<and> \<not> hr_spool_failed row)"

definition streaming :: "worker_id \<Rightarrow> exec_id \<Rightarrow> pool \<Rightarrow> bool" where
  "streaming w rid p \<longleftrightarrow> owns_request w rid p \<and> hget (pty_sessions p) w = None \<and> row_open rid p"

text \<open>The other tasks during a turn leave the command to its worker, and its spool can be written.\<close>

definition kept :: "(pool \<Rightarrow> bool) \<Rightarrow> world \<Rightarrow> bool" where
  "kept P W \<longleftrightarrow> (\<forall>k q. P q \<longrightarrow> P (w_wait W k q) \<and> P (w_yield W k q))"

definition undisturbed :: "worker_id \<Rightarrow> exec_id \<Rightarrow> world \<Rightarrow> bool" where
  "undisturbed w rid W \<longleftrightarrow> w_spool W = SpoolOk \<and>
     kept (streaming w rid) W \<and> (\<forall>k q. row_open rid q \<longrightarrow> row_open rid (w_yield W k q))"

definition output_message :: "exec_id \<Rightarrow> message \<Rightarrow> bool" where
  "output_message rid m = (case m of Text f \<Rightarrow> \<exists>r. f = Result r \<and> res_request_id r \<noteq> rid
     | Binary d \<Rightarrow> True | Pong b \<Rightarrow> True | _ \<Rightarrow> False)"

definition input_bytes :: "exec_id \<Rightarrow> output_stream \<Rightarrow> world \<times> conn_input \<Rightarrow> bytes" where
  "input_bytes rid which x = (case snd x of Received m \<Rightarrow> carried which (eid_str rid) m | _ \<Rightarrow> [])"

definition plain_input :: "worker_id \<Rightarrow> exec_id \<Rightarrow> world \<times> conn_input \<Rightarrow> bool" where
  "plain_input w rid x \<longleftrightarrow> undisturbed w rid (fst x) \<and> (\<exists>m. snd x = Received m \<and> output_message rid m)"

lemma streaming_touch [simp]: "streaming w rid (touch_worker now w' p) = streaming w rid p"
  by (simp add: streaming_def owns_request_def row_open_def touch_worker_def)

lemma streaming_complete_take:
  assumes "streaming w rid p" and "x \<noteq> rid"
  shows "streaming w rid (complete_take now x p)"
  using assms
  by (auto simp: streaming_def owns_request_def row_open_def complete_take_def Let_def split: option.splits)

lemma streaming_finish_row:
  assumes "streaming w rid p" and "x \<noteq> rid"
  shows "streaming w rid (fst (finish_row upd x p))"
  using assms by (auto simp: streaming_def owns_request_def row_open_def finish_row_def split: option.splits)

lemma finish_row_spools: "concat (map (spooled rid which) (snd (finish_row upd x p))) = []"
  by (auto simp: finish_row_def spooled_def split: option.splits)

lemma streaming_result:
  assumes "streaming w rid p" and "undisturbed w rid W" and "res_request_id r \<noteq> rid"
  shows "streaming w rid (fst (complete_request W k r p)) \<and>
    concat (map (spooled rid which) (snd (complete_request W k r p))) = []"
proof -
  let ?p = "w_yield W k (complete_take (w_clock W k) (res_request_id r) p)"
  have "streaming w rid ?p" using streaming_complete_take [OF assms(1,3)] assms(2) by (simp add: undisturbed_def kept_def)
  from streaming_finish_row [OF this assms(3)] finish_row_spools show ?thesis
    by (simp add: complete_request_def Let_def)
qed

lemma streaming_route_output:
  assumes "streaming w rid p" and "undisturbed w rid W" and "valid_capture_id (eid_str rid)"
    and "which = Stdout \<or> which = Stderr"
  shows "streaming w rid (fst (route_output W w c p)) \<and>
    concat (map (spooled rid which) (snd (route_output W w c p)))
      = (if chunk_stream c = which \<and> chunk_id c = eid_str rid then chunk_bytes c else [])"
proof -
  have id: "ExecId (chunk_id c) = rid \<longleftrightarrow> chunk_id c = eid_str rid" by (cases rid) auto
  have own: "owns_request w rid p" using assms(1) by (simp add: streaming_def)
  have y: "streaming w rid (w_yield W 0 p)" and ok: "w_spool W = SpoolOk"
    using assms(1,2) by (simp_all add: undisturbed_def kept_def)
  show ?thesis
  proof (cases "chunk_id c = eid_str rid")
    case True
    then have e: "ExecId (chunk_id c) = rid" using id by simp
    show ?thesis
      using assms(1,3,4) own y ok unfolding route_output_def route_spool_def True e [unfolded True]
      by (cases "chunk_stream c") (auto simp: spooled_def spool_of_def Let_def e [unfolded True] split: option.splits)
  next
    case False
    then have ne: "ExecId (chunk_id c) \<noteq> rid" using id by simp
    show ?thesis
      using assms(1) y ok ne False unfolding route_output_def route_spool_def
      by (cases "chunk_stream c") (auto simp: spooled_def Let_def split: option.splits)
  qed
qed

lemma read_step_output:
  assumes "streaming w rid p" and "valid_capture_id (eid_str rid)" and "which = Stdout \<or> which = Stderr"
    and "plain_input w rid x" and "read_step w (True, p) x = (t, fx)"
  shows "fst t \<and> streaming w rid (snd t) \<and> concat (map (spooled rid which) fx) = input_bytes rid which x"
proof -
  obtain W m where x: "x = (W, Received m)" and ok: "undisturbed w rid W" and m: "output_message rid m"
    using assms(4) by (cases x) (auto simp: plain_input_def)
  let ?p1 = "w_wait W 1 (touch_worker (w_clock W 0) w (w_wait W 0 p))"
  let ?p2 = "w_wait W 2 ?p1"
  have s1: "streaming w rid ?p1" using assms(1) ok by (simp add: undisturbed_def kept_def)
  then have s2: "streaming w rid ?p2" using ok by (simp add: undisturbed_def kept_def)
  have pty: "hget (pty_sessions ?p1) w = None" using s1 by (simp add: streaming_def)
  have turn: "(\<exists>r. m = Text (Result r) \<and> res_request_id r \<noteq> rid \<and>
        read_turn W w (Received m) p = (True, complete_request W 1 r ?p2)) \<or>
      (\<exists>d c. m = Binary d \<and> decode d = Inr c \<and> read_turn W w (Received m) p = (True, route_output W w c ?p2)) \<or>
      carried which (eid_str rid) m = [] \<and> read_turn W w (Received m) p = (True, ?p2, [])"
    using m pty by (auto simp: read_turn_def Let_def output_message_def handle_frame_def carried_def
      split: message.splits sum.splits)
  then show ?thesis
  proof (elim disjE exE conjE)
    fix r assume "m = Text (Result r)" "res_request_id r \<noteq> rid" "read_turn W w (Received m) p = (True, complete_request W 1 r ?p2)"
    with streaming_result [OF s2 ok, of r 1 which] assms(5) show ?thesis
      by (auto simp: x read_step_def input_bytes_def split_beta)
  next
    fix d c assume "m = Binary d" "decode d = Inr c" "read_turn W w (Received m) p = (True, route_output W w c ?p2)"
    with streaming_route_output [OF s2 ok assms(2,3), of c] assms(5) show ?thesis
      by (auto simp: x read_step_def input_bytes_def carried_def split_beta)
  qed (use assms(5) s2 in \<open>auto simp: x read_step_def input_bytes_def\<close>)
qed

interpretation spool: relay fst "read_step w"
  "\<lambda>s. streaming w rid (snd s) \<and> valid_capture_id (eid_str rid) \<and> (which = Stdout \<or> which = Stderr)"
  "plain_input w rid" "input_bytes rid which" "spooled rid which" for w rid which
proof unfold_locales
  fix s x t fx
  assume "streaming w rid (snd s) \<and> valid_capture_id (eid_str rid) \<and> (which = Stdout \<or> which = Stderr)"
    "fst s" "plain_input w rid x" "read_step w s x = (t, fx)"
  then show "(streaming w rid (snd t) \<and> valid_capture_id (eid_str rid) \<and> (which = Stdout \<or> which = Stderr)) \<and>
      concat (map (spooled rid which) fx) = input_bytes rid which x"
    using read_step_output [of w rid "snd s" which x t fx] by (cases s) auto
qed

text \<open>Such a connection stays open.\<close>

lemma stays_open:
  assumes "streaming w rid p" and "valid_capture_id (eid_str rid)" and "list_all (plain_input w rid) ins"
  shows "fst (fst (drive fst (read_step w) ins (True, p)))"
  using assms(1,3)
proof (induction ins arbitrary: p)
  case Nil
  then show ?case by simp
next
  case (Cons x ins)
  obtain t fx where t: "read_step w (True, p) x = (t, fx)" by fastforce
  from read_step_output [OF Cons.prems(1) assms(2) _ _ t, of Stdout] Cons.prems(2)
  have "t = (True, snd t)" "streaming w rid (snd t)" by (auto simp: prod_eq_iff)
  with Cons.IH [of "snd t"] Cons.prems(2) t show ?case by (simp add: split_beta Let_def)
qed

section \<open>Who can disturb a command\<close>

text \<open>The steps of the system that take a request out of the table, give up its spool, or turn the output of its
  worker to a pinned terminal.\<close>

definition ends_request :: "worker_id \<Rightarrow> exec_id \<Rightarrow> session_id option \<Rightarrow> pool \<Rightarrow> event \<Rightarrow> bool" where
  "ends_request w rid sid p e = (case e of
     ResultEv _ r _ \<Rightarrow> res_request_id r = rid
   | ClosedEv v x _ _ _ \<Rightarrow> v = w \<and> sid = Some x
   | DropRequests v _ \<Rightarrow> v = w
   | SpoolFailEv x \<Rightarrow> x = rid
   | ExecSend x r \<Rightarrow> x = rid \<and> r \<noteq> Sent
   | PinEv _ \<Rightarrow> (case idle p of [] \<Rightarrow> False | wk # _ \<Rightarrow> we_id wk = w)
   | _ \<Rightarrow> False)"

lemma streaming_same:
  assumes "streaming w rid p" and "inflight q = inflight p" and "\<And>c. hget (pty_sessions q) w = Some c \<Longrightarrow> hget (pty_sessions p) w = Some c"
    and "\<And>row. hget (handles p) rid = Some row \<Longrightarrow> hr_status row = Running \<Longrightarrow>
      \<exists>row'. hget (handles q) rid = Some row' \<and> hr_status row' = Running \<and> hr_spool_failed row' = hr_spool_failed row"
  shows "streaming w rid q"
proof -
  obtain row where "hget (handles p) rid = Some row" "hr_status row = Running" "\<not> hr_spool_failed row"
    using assms(1) by (auto simp: streaming_def row_open_def split: option.splits)
  with assms(4) [of row] assms(1-3) show ?thesis
    by (cases "hget (pty_sessions q) w") (auto simp: streaming_def row_open_def owns_request_def)
qed

lemma streaming_sessions:
  assumes "streaming w rid p"
  shows "streaming w rid (fst (session_ready now w' sid error p))"
    and "streaming w rid (snd (attach_terminal now ch sid p))"
    and "streaming w rid (detach_terminal_if now sid ch p)"
    and "streaming w rid (touch_session now sid p)"
    and "streaming w rid (retain_sessions now ttl p)"
    and "streaming w rid (snd (close_begin gate ch sid p))"
    and "streaming w rid (snd (drop_worker now w' p))"
    and "register_worker now w' profile loc c p = Inr q \<Longrightarrow> streaming w rid q"
    and "streaming w rid (snd (create_reserve now profile op ready p))"
  by (rule streaming_same [OF assms]; auto simp: session_ready_def attach_terminal_def detach_terminal_if_def
      touch_session_def retain_sessions_def close_begin_def drop_worker_def register_worker_def create_reserve_def Let_def
      split: option.splits if_splits prod.splits)+

lemma hget_map_rows: "hget (map (\<lambda>(rid, row). (rid, f row)) m) x = map_option f (hget m x)"
  for f :: "handle_row \<Rightarrow> handle_row" and m and x :: exec_id
  by (simp add: hget_def map_of_map)

lemma streaming_rows:
  assumes "streaming w rid p"
  shows "streaming w rid (snd (cancel_request x p))"
    and "streaming w rid (poll_row now x p)"
    and "streaming w rid (snd (list_session_commands now sid p))"
    and "x \<noteq> rid \<Longrightarrow> streaming w rid (mark_spool_failed x p)"
    and "hget (handles p) x = Some row \<Longrightarrow> hr_status row \<noteq> Running \<Longrightarrow> streaming w rid (fst (purge_handle x p))"
  by (rule streaming_same [OF assms]; auto simp: cancel_request_def poll_row_def list_session_commands_def Let_def
      hget_map_rows mark_spool_failed_def purge_handle_def split: option.splits if_splits)+

lemma streaming_submit:
  assumes "streaming w rid p" and "x \<noteq> rid"
  shows "streaming w rid (snd (submit_register t0 now cap sid x mode p))"
  using assms by (auto simp: streaming_def owns_request_def row_open_def submit_register_def split: option.splits)

lemma streaming_close_take:
  assumes "streaming w rid p" and "hwf (inflight p)" and "close_take now v sid error reusable p = Some (out, q)"
    and "hget (inflight p) rid = Some e" and "pe_session e \<noteq> Some sid"
  shows "streaming w rid q"
  using assms by (auto simp: streaming_def owns_request_def row_open_def close_take_def split: option.splits if_splits)

lemma streaming_drop:
  assumes "streaming w rid p" and "hwf (inflight p)" and "v \<noteq> w"
  shows "streaming w rid (snd (drop_inflight v p))"
  using assms by (auto simp: streaming_def owns_request_def row_open_def drop_inflight_def split: option.splits)

text \<open>
  C17: A command streams until its own worker or session ends it: a step of the system, by whichever task, leaves a
  running command in flight on its worker, its handle running and its spool in good order, except for a result that
  names it, the close of its session by its worker, the loss of its worker, a failed write to its spool, the failed
  sending of a command without a session, or a terminal pinned to its worker while that is in the idle queue.
\<close>

theorem streaming_until_ended:
  assumes "reachable init_sys sys_step s" and "sys_step s ev t" and "streaming w rid (sp s)"
    and "hget (inflight (sp s)) rid = Some e"
  shows "streaming w rid (sp t) \<or> ends_request w rid (pe_session e) (sp s) ev"
proof (rule disjCI)
  assume not: "\<not> ends_request w rid (pe_session e) (sp s) ev"
  have inv: "sys_core s" by (rule ps.inv_reachable [OF assms(1)])
  note i = sys_coreD [OF inv] and S = assms(3)
  have wf: "hwf (inflight (sp s))" using pool_coreD(1) [OF i(1)] by (simp add: maps_ok_def)
  have st: "apply_event ev s = Some t" using assms(2) by (simp add: sys_step_def)
  have w: "pe_worker e = w" using S assms(4) by (simp add: streaming_def owns_request_def)
  show "streaming w rid (sp t)"
  proof (cases ev)
    case (RegisterEv w' profile loc c now)
    with st S show ?thesis by (auto split: sum.splits if_splits dest: streaming_sessions(8))
  next
    case ExecTake
    have "streaming w rid (sp (take_step s))"
      by (rule streaming_same [OF S]) (auto simp: take_step_def pop_idle_def split: list.splits)
    with st ExecTake show ?thesis by auto
  next
    case (ExecBack wk)
    with st S show ?thesis by (auto simp: back_step_def streaming_def owns_request_def row_open_def split: if_splits)
  next
    case (UnpinEv wk)
    with st have t: "sp t = release_pinned wk (sp s)" by (auto simp: unpin_step_def split: if_splits)
    show ?thesis unfolding t by (rule streaming_same [OF S]) (auto simp: release_pinned_def Let_def split: if_splits)
  next
    case (PinEv ch)
    have "streaming w rid (sp (pin_step ch s))"
      by (rule streaming_same [OF S])
        (use not in \<open>auto simp: pin_step_def acquire_pinned_def pop_idle_def ends_request_def PinEv split: list.splits if_splits\<close>)
    with st PinEv show ?thesis by auto
  next
    case (ExecRegister wk x t0 now)
    with st have "x \<notin> set (issued s)" and t: "sp t = dispatch_register wk x t0 now (sp s)"
      by (auto simp: exec_step_def split: if_splits)
    then have "x \<noteq> rid" using inflight_issued [OF inv assms(4)] by blast
    with S show ?thesis by (simp add: t streaming_def owns_request_def row_open_def dispatch_register_def)
  next
    case (ExecSend x r)
    with st have "sp t = sp s \<or> r \<noteq> Sent \<and>
        sp t = (sp s)\<lparr>inflight := hdel x (inflight (sp s)), handles := hdel x (handles (sp s))\<rparr>"
      by (auto simp: exec_sent_step_def split: if_splits)
    moreover have "r \<noteq> Sent \<Longrightarrow> x \<noteq> rid" using not ExecSend by (simp add: ends_request_def)
    ultimately show ?thesis using S by (auto simp: streaming_def owns_request_def row_open_def)
  next
    case (CreateBegin profile op ready now)
    with st S streaming_sessions(9) [OF S, of now profile op ready] show ?thesis
      by (auto split: if_splits prod.splits sum.splits)
  next
    case (CreateDone sid now)
    with st S streaming_sessions(4) [OF S] show ?thesis
      by (auto split: if_splits prod.splits sum.splits dest!: created_snapshot_pool)
  next
    case (ClosedEv v sid error reusable now)
    show ?thesis
    proof (cases "pe_session e = Some sid")
      case True
      then have "v \<noteq> w" using not ClosedEv by (simp add: ends_request_def)
      moreover have "hget (sessions (sp s)) sid = Some r \<Longrightarrow> sr_worker r = w" for r
        using True w by (auto intro: requests_okD [OF pool_coreD(2) [OF i(1)] assms(4)])
      ultimately have "close_take now v sid error reusable (sp s) = None"
        by (auto simp: close_take_def split: option.splits)
      with st ClosedEv S show ?thesis by (auto simp: closed_step_def split: if_splits)
    next
      case False
      from st ClosedEv S streaming_close_take [OF S wf _ assms(4) False] show ?thesis
        by (auto simp: closed_step_def split: if_splits option.splits)
    qed
  next
    case (SubmitRegister sid t0 now)
    have "x \<noteq> rid" if "x \<notin> set (issued s)" for x using inflight_issued [OF inv assms(4)] that by blast
    moreover from st SubmitRegister obtain cap x cmd mode where h: "hget (locks s) sid = Some (HoldSubmit cap x cmd mode)"
      and "x \<notin> set (issued s)" by (auto simp: register_step_def split: option.splits holder.splits if_splits)
    moreover have "sp t = snd (submit_register t0 now cap sid x mode (sp s))"
      using st SubmitRegister h by (auto simp: register_step_def split: if_splits prod.splits option.splits)
    ultimately show ?thesis using streaming_submit [OF S] by simp
  next
    case (CloseBegin gate sid ch)
    have "sp t = snd (close_begin gate ch sid (sp s))"
      using st CloseBegin by (auto simp: close_step_def split: if_splits prod.splits close_step.splits bool.splits)
    then show ?thesis by (simp add: streaming_sessions(6) [OF S])
  next
    case (ResultEv v r now)
    with not have "res_request_id r \<noteq> rid" by (simp add: ends_request_def)
    from streaming_complete_take [OF S this] st ResultEv show ?thesis by (auto simp: result_step_def Let_def split: if_splits)
  next
    case (DropRequests v oom)
    with not have "v \<noteq> w" by (simp add: ends_request_def)
    from streaming_drop [OF S wf this] st DropRequests show ?thesis
      by (auto simp: drop_step_def case_prod_unfold Let_def)
  next
    case (FinishEv x now)
    have "x \<noteq> rid" if "(x, how) \<in> set (finishing s)" for how
      using finishing_okD [OF i(4) that] assms(4) by (auto simp: hhas_def)
    with st FinishEv streaming_finish_row [OF S] show ?thesis
      by (fastforce simp: finish_step_def split: option.splits elim!: take_first_Some)
  next
    case (PurgeEv x)
    with st S streaming_rows(5) [OF S] show ?thesis by (auto simp: set_pool_def split: option.splits if_splits)
  next
    case (SpoolFailEv x)
    with not have "x \<noteq> rid" by (simp add: ends_request_def)
    with st SpoolFailEv streaming_rows(4) [OF S] show ?thesis by (auto simp: set_pool_def)
  qed (use st S in \<open>auto simp: set_pool_def submit_step_def send_run_step_def send_close_step_def
      split: if_splits option.splits holder.splits sum.splits
      intro: streaming_sessions streaming_rows\<close>)
qed

theorem streaming_until_ended_witness:
  "streaming demo_w demo_c (sp (the (apply_event (CancelEv demo_c) (demo demo_run))))"
proof -
  let ?s = "demo demo_run" and ?ev = "CancelEv demo_c"
  have r: "reachable init_sys sys_step ?s" by (rule demo_reachable)
  have st: "sys_step ?s ?ev (the (apply_event ?ev ?s))" by (simp add: sys_step_def)
  have S: "streaming demo_w demo_c (sp ?s)" by code_simp
  then obtain e where e: "hget (inflight (sp ?s)) demo_c = Some e"
    by (auto simp: streaming_def owns_request_def split: option.splits)
  from streaming_until_ended [OF r st S e] show ?thesis by (simp add: ends_request_def)
qed

section \<open>From a command to its spool\<close>

definition about :: "exec_id \<Rightarrow> session_event \<Rightarrow> bool" where
  "about rid ev = (case ev of EvOutput r w bs \<Rightarrow> r = rid | EvResult r \<Rightarrow> res_request_id r = rid
     | EvAbort r \<Rightarrow> r = rid | EvInterrupt \<Rightarrow> False)"

definition events_sent :: "job_step list \<Rightarrow> session_event list" where
  "events_sent steps = List.map_filter (\<lambda>x. case x of JobSent ev \<Rightarrow> Some ev | JobPurged _ \<Rightarrow> None) steps"

lemma events_sent_simps [simp]:
  "events_sent (map JobSent evs) = evs" "events_sent (xs @ ys) = events_sent xs @ events_sent ys"
  "events_sent [JobSent ev, JobPurged r] = [ev]" "events_sent [JobSent ev] = [ev]"
  by (simp_all add: events_sent_def map_filter_simps map_filter_def comp_def)

lemma stream_of_about: "stream_of rid which (filter (about rid) evs) = stream_of rid which evs"
  by (induction evs) (auto simp: about_def split: session_event.splits)

lemma valid_id_rust: "valid_capture_id s \<Longrightarrow> rust_string s"
proof -
  assume "valid_capture_id s"
  then have "\<forall>c \<in> set s. id_char c" by (simp add: valid_capture_id_def list_all_iff)
  moreover have "(word_of_nat (of_char c) :: byte) < 0x80" if "id_char c" for c
  proof -
    have "of_char c < (128 :: nat)"
      using that by (auto simp: id_char_def is_ascii_alphanumeric_def Let_def)
    then show ?thesis by (simp add: word_less_nat_alt unat_of_nat)
  qed
  ultimately show ?thesis
    unfolding rust_string_def by (intro utf8_valid_ascii) (auto simp: as_bytes_def)
qed

lemma plain_messages:
  assumes "map snd ins = map Received (messages acts)" and "list_all (undisturbed w rid \<circ> fst) ins"
    and "\<And>f. session_action.SendFrame f \<in> set acts \<Longrightarrow> \<exists>r. f = Result r \<and> res_request_id r \<noteq> rid"
  shows "list_all (plain_input w rid) ins"
  unfolding list_all_iff
proof
  fix x assume x: "x \<in> set ins"
  then have "snd x \<in> Received ` set (messages acts)" using assms(1) by (metis image_eqI image_set)
  then obtain m a where m: "snd x = Received m" and a: "a \<in> set acts" "to_server a = Some m"
    by (auto simp: messages_def map_filter_def)
  have "output_message rid m"
  proof (cases "\<exists>f. a = session_action.SendFrame f")
    case True
    then show ?thesis using a assms(3) by (auto simp: to_server_def output_message_def)
  next
    case False
    then show ?thesis using a(2) by (cases a) (auto simp: to_server_def output_message_def)
  qed
  with m x assms(2) show "plain_input w rid x" by (auto simp: plain_input_def list_all_iff)
qed

text \<open>The messages of a session before a result, through the read loop.\<close>

lemma session_output_spooled:
  assumes "session_loop is s = (t, acts @ rest)" and "ws_loop t = Serving" and "concat (map (carried_by which (eid_str rid)) rest) = []"
    and "map snd ins = map Received (messages acts)" and "list_all (undisturbed w rid \<circ> fst) ins"
    and "\<And>r. session_action.SendFrame (Result r) \<in> set acts \<Longrightarrow> res_request_id r \<noteq> rid"
    and "valid_capture_id (eid_str rid)" and "streaming w rid p" and which: "which = Stdout \<or> which = Stderr"
    and "drive fst (read_step w) ins (True, p) = (u, fx)"
  shows "fst u \<and> streaming w rid (snd u) \<and> concat (map (spooled rid which) fx) = stream_of rid which (job_events is)"
proof -
  have "\<exists>r. f = Result r \<and> res_request_id r \<noteq> rid" if "session_action.SendFrame f \<in> set acts" for f
    using session_loop_frames [of f "is" s] assms(1,6) that by auto
  from plain_messages [OF assms(4,5) this] have ok: "list_all (plain_input w rid) ins" .
  have "map (input_bytes rid which) ins = map (carried which (eid_str rid)) (messages acts)"
  proof -
    have "map (input_bytes rid which) ins = map ((\<lambda>i. input_bytes rid which (undefined, i))) (map snd ins)"
      by (simp add: input_bytes_def)
    also have "\<dots> = map (carried which (eid_str rid)) (messages acts)"
      unfolding assms(4) by (simp add: input_bytes_def comp_def)
    finally show ?thesis .
  qed
  moreover have "concat (map (carried which (eid_str rid)) (messages (acts @ rest))) = stream_of rid which (job_events is)"
    by (rule session_output_carried [OF assms(1,2) valid_id_rust [OF assms(7)]]) (use which in auto)
  ultimately have "concat (map (input_bytes rid which) ins) = stream_of rid which (job_events is)"
    using assms(3) by (simp add: carried_messages)
  moreover have open_: "fst u" using stays_open [OF assms(8,7) ok] assms(10) by simp
  ultimately show ?thesis
    using spool.drive_relays [OF assms(10) open_ _ ok, of which] assms(7,8) which by simp
qed


definition demo_piece :: execute_frame where
  "demo_piece = demo_cmd ''c''"

lemma undisturbed_still [simp]: "undisturbed w rid still_world"
  by (simp add: undisturbed_def kept_def still_world_def)


end
