(* ===== verification/Terminals.thy ===== *)
theory Terminals
  imports EndToEnd "HOL-Library.Sublist"
begin

text \<open>
  An attached terminal from the client's keyboard to the shell and from the shell to the client's screen: the
  attachment of \<open>http/sessions.rs\<close>, the routing of \<open>pool/mod.rs\<close> and the loop of the session host, composed.
\<close>

section \<open>The session host\<close>

text \<open>What an action writes to the pseudo terminal, what an input brings from the keyboard, and what it reads from
  the pseudo terminal.\<close>

definition pty_written :: "session_action \<Rightarrow> bytes" where
  "pty_written a = (case a of PtyWrite bs \<Rightarrow> bs | _ \<Rightarrow> [])"

definition keys_taken :: "session_id \<Rightarrow> session_world \<times> session_input \<Rightarrow> bytes" where
  "keys_taken sid x = (case snd x of Socket (Some m) \<Rightarrow> carried Stdin (sid_str sid) m | _ \<Rightarrow> [])"

definition pty_read :: "session_world \<times> session_input \<Rightarrow> bytes" where
  "pty_read x = (case snd x of PtyRead (Some bs) \<Rightarrow> bs | _ \<Rightarrow> [])"

text \<open>The server runs no stateful command in a session while a terminal is attached to it.\<close>

definition no_stateful :: "session_id \<Rightarrow> host_state \<Rightarrow> bool" where
  "no_stateful sid s \<longleftrightarrow> ws_id s = sid \<and> ws_completion s = None \<and> list_all (\<lambda>(e, m). m \<noteq> Stateful) (ws_queued s)"

definition terminal_input :: "session_world \<times> session_input \<Rightarrow> bool" where
  "terminal_input x = (case snd x of JobEvent EvInterrupt \<Rightarrow> False | Socket (Some (Text (SessionRun _ _ m))) \<Rightarrow> m \<noteq> Stateful
     | _ \<Rightarrow> True)"

lemma start_queue_quiet:
  "start_queue w q s = (t, acts) \<Longrightarrow> list_all (\<lambda>(e, m). m \<noteq> Stateful) q \<Longrightarrow>
    concat (map pty_written acts) = [] \<and> list_all (\<lambda>(e, m). m \<noteq> Stateful) (ws_queued t) \<and> ws_completion t = ws_completion s"
proof (induction q arbitrary: s acts)
  case Nil
  then show ?case by auto
next
  case (Cons x q)
  obtain e m where x: "x = (e, m)" by (cases x)
  from Cons.prems(1) [unfolded x] show ?case
    by (cases rule: start_queue_cases) (use Cons.IH Cons.prems(2) in \<open>auto simp: x pty_written_def\<close>)
qed

lemma send_chunk_terminal:
  assumes "send_chunk w st j bs s = (t, acts)"
  shows "concat (map pty_written acts) = []" and "no_stateful sid t = no_stateful sid s"
  using assms by (auto simp: send_chunk_def pty_written_def no_stateful_def lose_def split: option.splits if_splits)

lemma on_input_terminal:
  assumes "no_stateful sid s" and "terminal_input (w, x)" and "on_input w x s = (t, acts)"
  shows "no_stateful sid t \<and> concat (map pty_written acts) = keys_taken sid (w, x)"
proof (cases x)
  case (PtyRead r)
  have "ws_completion s = None" using assms(1) by (simp add: no_stateful_def)
  then have "t = s\<lparr>ws_loop := Left\<rparr> \<and> acts = [] \<or>
      (\<exists>bs. send_chunk w Terminal (sid_str (ws_id s)) bs (s\<lparr>ws_completion := None\<rparr>) = (t, acts))"
    using assms(3) PtyRead by (auto simp: on_input_def on_pty_def Let_def split: option.splits if_splits)
  then show ?thesis
  proof
    assume "\<exists>bs. send_chunk w Terminal (sid_str (ws_id s)) bs (s\<lparr>ws_completion := None\<rparr>) = (t, acts)"
    then obtain bs where "send_chunk w Terminal (sid_str (ws_id s)) bs (s\<lparr>ws_completion := None\<rparr>) = (t, acts)" ..
    from send_chunk_terminal [OF this] assms(1) show ?thesis by (simp add: PtyRead keys_taken_def no_stateful_def)
  qed (use assms(1) in \<open>simp add: PtyRead keys_taken_def no_stateful_def\<close>)
next
  case (JobEvent ev)
  show ?thesis
  proof (cases ev)
    case (EvOutput r st bs)
    with JobEvent assms(3) have "send_chunk w st (eid_str r) bs s = (t, acts)" by (simp add: on_input_def on_event_def)
    with send_chunk_terminal [OF this] assms(1) show ?thesis by (simp add: JobEvent EvOutput keys_taken_def)
  qed (use assms JobEvent in \<open>auto simp: on_input_def on_event_def on_result_def report_def Let_def no_stateful_def lose_def
    pty_written_def keys_taken_def terminal_input_def split: if_splits sum.splits prod.splits\<close>)
next
  case LeaseLapsed
  with assms show ?thesis by (auto simp: on_input_def no_stateful_def lose_def keys_taken_def)
next
  case (Socket m)
  with assms(3) have k: "on_socket w m s = (t, acts)" by (simp add: on_input_def)
  show ?thesis
  proof (cases "\<exists>f. m = Some (Text f)")
    case True
    then obtain f where f: "m = Some (Text f)" "on_frame f s = (t, acts)" using k by (auto simp: on_socket_def)
    show ?thesis using assms(1,2) f
      by (cases f) (auto simp: on_frame_def on_session_run_def on_cancel_def Let_def no_stateful_def pty_written_def
        keys_taken_def terminal_input_def Socket list_all_iff split: if_splits option.splits elim!: take_first_Some)
  next
    case False
    then show ?thesis using k assms(1)
      by (auto simp: on_socket_def no_stateful_def lose_def pty_written_def keys_taken_def carried_def Socket
        split: option.splits message.splits sum.splits if_splits)
  qed
qed

lemma session_turn_terminal:
  assumes "no_stateful sid s" and "terminal_input (w, x)" and "session_turn w x s = (t, acts)" and "ws_loop t = Serving"
  shows "no_stateful sid t \<and> concat (map pty_written acts) = keys_taken sid (w, x)"
  using assms(3)
proof (cases rule: session_turn_cases)
  case (closed s1)
  with assms(4) show ?thesis by simp
next
  case (served s1 a1 a2)
  from served(1) have q: "start_queue w (ws_queued s) s = (s1, a1)" by (simp add: start_jobs_def)
  from start_queue_quiet [OF q] start_queue_frame [OF q] assms(1)
  have "no_stateful sid s1" "concat (map pty_written a1) = []" by (auto simp: no_stateful_def)
  with on_input_terminal [OF _ assms(2) served(3)] served(4) show ?thesis by simp
qed

lemma session_turn_screen:
  assumes "no_stateful sid s" and "rust_string (sid_str sid)" and "session_turn w x s = (t, acts)" and "ws_loop t = Serving"
    and "\<And>r st bs. x = JobEvent (EvOutput r st bs) \<Longrightarrow> st \<noteq> Terminal"
  shows "concat (map (carried_by Terminal (sid_str sid)) acts) = pty_read (w, x)"
  using assms(3)
proof (cases rule: session_turn_cases)
  case (closed s1)
  with assms(4) show ?thesis by simp
next
  case (served s1 a1 a2)
  from served(1) have q: "start_queue w (ws_queued s) s = (s1, a1)" by (simp add: start_jobs_def)
  from start_queue_quiet [OF q] start_queue_frame [OF q] assms(1)
  have s1: "ws_id s1 = sid" "ws_completion s1 = None" by (auto simp: no_stateful_def)
  have r: "concat (map (carried_by Terminal (sid_str sid)) (snd (on_pty w r s1))) = (case r of None \<Rightarrow> [] | Some bs \<Rightarrow> bs)"
    if "x = PtyRead r" for r
    using on_pty_carries [of w r s1 t a2 "sid_str sid" Terminal] served(3) assms(2,4) that s1
    by (auto simp: on_input_def split: option.splits)
  have "concat (map (carried_by Terminal (sid_str sid)) acts) = concat (map (carried_by Terminal (sid_str sid)) a2)"
    using start_queue_carries [OF q] served(4) by simp
  then show ?thesis
    using on_input_carries [OF served(3) assms(4,2), of Terminal] r assms(5)
    by (auto simp: pty_read_def split: session_input.splits session_event.splits option.splits)
qed

definition quiet_input :: "session_world \<times> session_input \<Rightarrow> bool" where
  "quiet_input x \<longleftrightarrow> terminal_input x \<and> (\<forall>r st bs. snd x = JobEvent (EvOutput r st bs) \<longrightarrow> st \<noteq> Terminal)"

interpretation keys: relay "\<lambda>s. ws_loop s = Serving" "\<lambda>s (w, i). session_turn w i s" "no_stateful sid" quiet_input
  "keys_taken sid" pty_written for sid
  by unfold_locales (auto simp: quiet_input_def dest: session_turn_terminal split: prod.splits)

interpretation shell: relay "\<lambda>s. ws_loop s = Serving" "\<lambda>s (w, i). session_turn w i s"
  "\<lambda>s. no_stateful sid s \<and> rust_string (sid_str sid)" quiet_input
  pty_read "carried_by Terminal (sid_str sid)" for sid
  by unfold_locales (auto simp: quiet_input_def dest: session_turn_terminal intro: session_turn_screen split: prod.splits)

section \<open>The server\<close>

definition attached :: "worker_id \<Rightarrow> session_id \<Rightarrow> chan \<Rightarrow> pool \<Rightarrow> bool" where
  "attached w sid ch p \<longleftrightarrow> hget (worker_sessions p) w = Some sid \<and> hget (pty_sessions p) w = None \<and>
     (case hget (sessions p) sid of None \<Rightarrow> False | Some r \<Rightarrow> sr_terminal r = Some ch)"

definition shown :: "chan \<Rightarrow> effect \<Rightarrow> bytes" where
  "shown ch e = (case e of SendTerminal c (TermOutput bs) \<Rightarrow> if c = ch then bs else [] | _ \<Rightarrow> [])"

definition screen_bytes :: "session_id \<Rightarrow> world \<times> conn_input \<Rightarrow> bytes" where
  "screen_bytes sid x = (case snd x of Received m \<Rightarrow> carried Terminal (sid_str sid) m | _ \<Rightarrow> [])"

definition screen_input :: "worker_id \<Rightarrow> session_id \<Rightarrow> chan \<Rightarrow> world \<times> conn_input \<Rightarrow> bool" where
  "screen_input w sid ch x \<longleftrightarrow> kept (attached w sid ch) (fst x) \<and>
     (\<exists>m. snd x = Received m \<and> (case m of Text f \<Rightarrow> \<exists>r. f = Result r | Binary d \<Rightarrow> True | Pong b \<Rightarrow> True | _ \<Rightarrow> False))"

lemma attached_touch [simp]: "attached w sid ch (touch_worker now w' p) = attached w sid ch p"
  by (simp add: attached_def touch_worker_def)

lemma attached_complete:
  assumes "attached w sid ch p" and "kept (attached w sid ch) W"
  shows "attached w sid ch (fst (complete_request W k r p)) \<and> concat (map (shown ch) (snd (complete_request W k r p))) = []"
proof -
  have "attached w sid ch (complete_take now x p)" for now x
    using assms(1) by (auto simp: attached_def complete_take_def Let_def split: option.splits)
  then have "attached w sid ch (w_yield W k (complete_take now x p))" for now x using assms(2) by (simp add: kept_def)
  moreover have "attached w sid ch (fst (finish_row upd x q)) = attached w sid ch q" for upd x q
    by (simp add: attached_def finish_row_def split: option.split)
  moreover have "concat (map (shown ch) (snd (finish_row upd x q))) = []" for upd x q
    by (simp add: shown_def finish_row_def split: option.split)
  ultimately show ?thesis by (simp add: complete_request_def Let_def)
qed

lemma attached_route_output:
  assumes "attached w sid ch p" and "kept (attached w sid ch) W"
  shows "attached w sid ch (fst (route_output W w c p)) \<and> concat (map (shown ch) (snd (route_output W w c p)))
    = (if chunk_stream c = Terminal \<and> chunk_id c = sid_str sid then chunk_bytes c else [])"
proof (cases "chunk_stream c = Terminal")
  case True
  with assms(1) show ?thesis by (auto simp: route_output_def attached_def shown_def split: option.splits)
next
  case False
  have y: "attached w sid ch (w_yield W 0 p)" using assms by (simp add: kept_def)
  have m: "attached w sid ch (mark_spool_failed x q) = attached w sid ch q" for x q
    by (simp add: attached_def mark_spool_failed_def)
  have "attached w sid ch (fst (route_spool W w st c p)) \<and> concat (map (shown ch) (snd (route_spool W w st c p))) = []" for st
    using assms(1) y m by (simp add: route_spool_def Let_def shown_def split: spool_outcome.split)
  with False assms(1) show ?thesis by (cases "chunk_stream c") (simp_all add: route_output_def)
qed

lemma read_step_screen:
  assumes "attached w sid ch p" and "screen_input w sid ch x" and "read_step w (True, p) x = (t, fx)"
  shows "fst t \<and> attached w sid ch (snd t) \<and> concat (map (shown ch) fx) = screen_bytes sid x"
proof -
  obtain W m where x: "x = (W, Received m)" and ok: "kept (attached w sid ch) W"
    and m: "case m of Text f \<Rightarrow> \<exists>r. f = Result r | Binary d \<Rightarrow> True | Pong b \<Rightarrow> True | _ \<Rightarrow> False"
    using assms(2) by (cases x) (auto simp: screen_input_def)
  let ?p1 = "w_wait W 1 (touch_worker (w_clock W 0) w (w_wait W 0 p))"
  let ?p2 = "w_wait W 2 ?p1"
  have s1: "attached w sid ch ?p1" using assms(1) ok by (simp add: kept_def)
  then have s2: "attached w sid ch ?p2" using ok by (simp add: kept_def)
  have pty: "hget (pty_sessions ?p1) w = None" using s1 by (simp add: attached_def)
  have turn: "(\<exists>r. m = Text (Result r) \<and> read_turn W w (Received m) p = (True, complete_request W 1 r ?p2)) \<or>
      (\<exists>d c. m = Binary d \<and> decode d = Inr c \<and> read_turn W w (Received m) p = (True, route_output W w c ?p2)) \<or>
      carried Terminal (sid_str sid) m = [] \<and> read_turn W w (Received m) p = (True, ?p2, [])"
    using m pty by (auto simp: read_turn_def Let_def handle_frame_def carried_def split: message.splits sum.splits)
  then show ?thesis
  proof (elim disjE exE conjE)
    fix r assume "m = Text (Result r)" "read_turn W w (Received m) p = (True, complete_request W 1 r ?p2)"
    with attached_complete [OF s2 ok, of 1 r] assms(3) show ?thesis
      by (auto simp: x read_step_def screen_bytes_def split_beta)
  next
    fix d c assume "m = Binary d" "decode d = Inr c" "read_turn W w (Received m) p = (True, route_output W w c ?p2)"
    with attached_route_output [OF s2 ok, of c] assms(3) show ?thesis
      by (auto simp: x read_step_def screen_bytes_def carried_def split_beta)
  qed (use assms(3) s2 in \<open>auto simp: x read_step_def screen_bytes_def\<close>)
qed

interpretation screen: relay fst "read_step w" "\<lambda>s. attached w sid ch (snd s)" "screen_input w sid ch"
  "screen_bytes sid" "shown ch" for w sid ch
proof unfold_locales
  fix s x t fx
  assume "attached w sid ch (snd s)" "fst s" "screen_input w sid ch x" "read_step w s x = (t, fx)"
  then show "attached w sid ch (snd t) \<and> concat (map (shown ch) fx) = screen_bytes sid x"
    using read_step_screen [of w sid ch "snd s" x t fx] by (cases s) auto
qed

section \<open>The end of an attachment\<close>

text \<open>\<open>TerminalAttachment::detach\<close>, and the \<open>drop\<close> of an attachment, which detaches unless that was done
  or there is no runtime to do it on.  An attachment carries whether it was detached.\<close>

definition attachment_detach :: "time \<Rightarrow> attachment \<times> bool \<Rightarrow> pool \<Rightarrow> (attachment \<times> bool) \<times> pool" where
  "attachment_detach now a p =
     ((fst a, True), detach_terminal_if now (at_session (fst a)) (at_reservation (fst a)) p)"

definition attachment_drop :: "time \<Rightarrow> bool \<Rightarrow> attachment \<times> bool \<Rightarrow> pool \<Rightarrow> pool" where
  "attachment_drop now runtime a p =
     (if snd a \<or> \<not> runtime then p
      else detach_terminal_if now (at_session (fst a)) (at_reservation (fst a)) p)"

text \<open>However an attachment ends, its session can be attached again, and an end that comes late, when another
  client is attached, leaves that one alone.\<close>

lemma attachment_released:
  assumes "attach_terminal now ch sid p = (Inr a, q)"
  shows "hget (sessions (attachment_drop t True (a, False) r)) sid =
      map_option (\<lambda>x. if sr_terminal x = Some ch then x\<lparr>sr_terminal := None, sr_activity := t\<rparr> else x) (hget (sessions r) sid)"
    and "attachment_drop t True (a, False) r = snd (attachment_detach t (a, False) r)"
    and "attachment_drop u True (fst (attachment_detach t (a, False) r)) r = r"
proof -
  have a: "at_session a = sid" "at_reservation a = ch"
    using assms by (auto simp: attach_terminal_def split: option.splits if_splits)
  show "hget (sessions (attachment_drop t True (a, False) r)) sid =
      map_option (\<lambda>x. if sr_terminal x = Some ch then x\<lparr>sr_terminal := None, sr_activity := t\<rparr> else x) (hget (sessions r) sid)"
    by (simp add: attachment_drop_def detach_terminal_if_def a)
qed (simp_all add: attachment_drop_def attachment_detach_def)

section \<open>From end to end\<close>

definition binaries :: "message list \<Rightarrow> message list" where
  "binaries ms = filter (\<lambda>m. case m of Binary d \<Rightarrow> True | _ \<Rightarrow> False) ms"

definition socket_messages :: "(session_world \<times> session_input) list \<Rightarrow> message list" where
  "socket_messages is = List.map_filter (\<lambda>x. case snd x of Socket m \<Rightarrow> m | _ \<Rightarrow> None) is"

definition worker_messages :: "socket_action list \<Rightarrow> message list" where
  "worker_messages acts = List.map_filter (\<lambda>a. case a of ToWorker m \<Rightarrow> Some m | _ \<Rightarrow> None) acts"

definition pool_events :: "terminal_event socket_input list \<Rightarrow> terminal_event list" where
  "pool_events cins = List.map_filter (\<lambda>i. case i of FromPool ev ok \<Rightarrow> ev | _ \<Rightarrow> None) cins"

definition terminal_events :: "chan \<Rightarrow> effect list \<Rightarrow> terminal_event list" where
  "terminal_events ch fx = List.map_filter (\<lambda>e. case e of SendTerminal c ev \<Rightarrow> if c = ch then Some ev else None | _ \<Rightarrow> None) fx"

definition event_screen :: "terminal_event \<Rightarrow> bytes" where
  "event_screen ev = (case ev of TermOutput bs \<Rightarrow> bs | TermClosed err \<Rightarrow> [])"

lemma prefix_concat_map: "prefix xs ys \<Longrightarrow> prefix (concat (map f xs)) (concat (map f ys))"
  by (auto simp: prefix_def)

lemma keys_taken_messages:
  "concat (map (keys_taken sid) is) = concat (map (carried Stdin (sid_str sid)) (binaries (socket_messages is)))"
  by (induction "is") (auto simp: socket_messages_def map_filter_simps binaries_def keys_taken_def carried_def
    split: session_input.splits option.splits message.splits)

lemma keystrokes_out_messages:
  "keystrokes_out sid acts = concat (map (carried Stdin (sid_str sid)) (binaries (worker_messages acts)))"
  by (induction acts) (auto simp: worker_messages_def map_filter_simps binaries_def keystrokes_out_def carried_def
    split: socket_action.splits message.splits)

lemma screen_in_events: "screen_in cins = concat (map event_screen (pool_events cins))"
  by (induction cins) (auto simp: screen_in_def pool_events_def map_filter_simps event_screen_def
    split: socket_input.splits option.splits terminal_event.splits)

lemma shown_events: "concat (map (shown ch) fx) = concat (map event_screen (terminal_events ch fx))"
  by (induction fx) (auto simp: shown_def terminal_events_def map_filter_simps event_screen_def
    split: effect.splits terminal_event.splits)

lemma screen_stays_open:
  assumes "attached w sid ch p" and "list_all (screen_input w sid ch) ins"
  shows "fst (fst (drive fst (read_step w) ins (True, p)))"
  using assms
proof (induction ins arbitrary: p)
  case Nil
  then show ?case by simp
next
  case (Cons x ins)
  obtain t fx where t: "read_step w (True, p) x = (t, fx)" by fastforce
  from read_step_screen [OF Cons.prems(1) _ t] Cons.prems(2)
  have "t = (True, snd t)" "attached w sid ch (snd t)" by (auto simp: prod_eq_iff)
  with Cons.IH [of "snd t"] Cons.prems(2) t show ?case by (simp add: split_beta Let_def)
qed

lemma screen_messages:
  assumes "session_loop is s = (t, acts)" and "prefix (map snd ins) (map Received (messages acts))"
    and "list_all (kept (attached w sid ch) \<circ> fst) ins"
  shows "list_all (screen_input w sid ch) ins"
  unfolding list_all_iff
proof
  fix x assume x: "x \<in> set ins"
  from set_mono_prefix [OF assms(2)] x have "snd x \<in> Received ` set (messages acts)" by auto
  then obtain m a where m: "snd x = Received m" and a: "a \<in> set acts" "to_server a = Some m"
    by (auto simp: messages_def map_filter_def)
  have "\<exists>r. f = Result r" if "a = session_action.SendFrame f" for f
    using session_loop_frames [of f "is" s] assms(1) a(1) that by simp
  then have "case m of Text f \<Rightarrow> \<exists>r. f = Result r | Binary d \<Rightarrow> True | Pong b \<Rightarrow> True | _ \<Rightarrow> False"
    using a(2) by (cases a) (auto simp: to_server_def)
  with m x assms(3) show "screen_input w sid ch x" by (auto simp: screen_input_def list_all_iff)
qed

text \<open>
  C16: A terminal connects a client to the shell and nothing else: while the terminal is attached and the session
  serves, what is written to the pseudo terminal of the shell is what the client typed, up to what is still
  on its way, and what the client sees is what was read from the pseudo terminal, up to what is still on its
  way, byte for byte and in order, whatever parallel commands run in the session and send at the same time.
\<close>

theorem terminal_end_to_end:
  assumes name: "rust_string (sid_str sid)" "length (sid_str sid) < 2 ^ 16"
    and client: "serve_terminal parse sid keepalive now cins = (False, cacts)"
    and host: "session_loop is s = (t, acts)" "ws_loop t = Serving" "no_stateful sid s" "list_all quiet_input is"
    and server: "drive fst (read_step w) ins (True, p) = (u, fx)" "attached w sid ch p"
      "list_all (kept (attached w sid ch) \<circ> fst) ins"
    and wires: "prefix (binaries (socket_messages is)) (binaries (worker_messages cacts))"
      "prefix (map snd ins) (map Received (messages acts))" "prefix (pool_events cins) (terminal_events ch fx)"
  shows "prefix (concat (map pty_written acts)) (keystrokes_in cins) \<and>
    prefix (screen_out cacts) (concat (map pty_read is)) \<and>
    (binaries (socket_messages is) = binaries (worker_messages cacts) \<longrightarrow>
      concat (map pty_written acts) = keystrokes_in cins) \<and>
    (map snd ins = map Received (messages acts) \<and> pool_events cins = terminal_events ch fx \<longrightarrow>
      screen_out cacts = concat (map pty_read is))"
proof -
  from terminal_relays_exactly [OF name client] have
    c: "keystrokes_out sid cacts = keystrokes_in cins" "screen_out cacts = screen_in cins" by auto
  have keys: "concat (map pty_written acts) = concat (map (keys_taken sid) is)"
    using keys.drive_relays [OF host(1) [unfolded session_loop_def] host(2) host(3,4)] by simp
  have pty: "concat (map (carried Terminal (sid_str sid)) (messages acts)) = concat (map pty_read is)"
    using shell.drive_relays [OF host(1) [unfolded session_loop_def] host(2) _ host(4), of sid] host(3) name(1)
    by (simp add: carried_messages)
  have ok: "list_all (screen_input w sid ch) ins" by (rule screen_messages [OF host(1) wires(2) server(3)])
  have "fst u" using screen_stays_open [OF server(2) ok] server(1) by simp
  from screen.drive_relays [OF server(1) this _ ok] server(2)
  have shown: "concat (map (shown ch) fx) = concat (map (screen_bytes sid) ins)" by simp
  have bytes: "concat (map (screen_bytes sid) ins) = concat (map (\<lambda>i. case i of Received m \<Rightarrow> carried Terminal (sid_str sid) m | _ \<Rightarrow> []) (map snd ins))"
    by (simp add: screen_bytes_def [abs_def] comp_def)
  have got: "concat (map (\<lambda>i. case i of Received m \<Rightarrow> carried Terminal (sid_str sid) m | _ \<Rightarrow> []) (map Received ms))
      = concat (map (carried Terminal (sid_str sid)) ms)" for ms by (simp add: comp_def)
  have "prefix (concat (map (shown ch) fx)) (concat (map pty_read is))"
    using prefix_concat_map [OF wires(2), of "\<lambda>i. case i of Received m \<Rightarrow> carried Terminal (sid_str sid) m | _ \<Rightarrow> []"]
    unfolding shown bytes got pty [symmetric] .
  moreover have "prefix (screen_out cacts) (concat (map (shown ch) fx))"
    using prefix_concat_map [OF wires(3)] unfolding c(2) screen_in_events shown_events .
  moreover have "prefix (concat (map pty_written acts)) (keystrokes_in cins)"
    using prefix_concat_map [OF wires(1)] unfolding keys keys_taken_messages c(1) [symmetric] keystrokes_out_messages .
  moreover have "concat (map pty_written acts) = keystrokes_in cins" if "binaries (socket_messages is) = binaries (worker_messages cacts)"
    unfolding keys keys_taken_messages c(1) [symmetric] keystrokes_out_messages that ..
  moreover have "screen_out cacts = concat (map pty_read is)"
    if "map snd ins = map Received (messages acts)" "pool_events cins = terminal_events ch fx"
    unfolding c(2) screen_in_events that(2) shown_events [symmetric] shown bytes that(1) got pty ..
  ultimately show ?thesis by (auto intro: prefix_order.trans)
qed

definition demo_keyboard :: "terminal_event socket_input list" where
  "demo_keyboard = [FromClient 1 (CBinary [104]) True, FromPool (Some (TermOutput [36])) True]"

definition demo_shell :: "(session_world \<times> session_input) list" where
  "demo_shell = [(demo_outside, Socket (Some (Binary [3, 0, 1, 0x73, 104]))), (demo_outside, PtyRead (Some [36]))]"

lemma kept_still [simp]: "kept P still_world"
  by (simp add: kept_def still_world_def)

theorem terminal_end_to_end_witness:
  "concat (map pty_written (snd (session_loop demo_shell (session_init demo_host_open (\<lambda>_. Inr None))))) = [104] \<and>
   screen_out (snd (serve_terminal no_control demo_s 1000 0 demo_keyboard)) = [36]"
proof -
  let ?s = "session_init demo_host_open (\<lambda>_. Inr None)"
  let ?out = "Binary [2, 0, 1, 0x73, 36]" and ?key = "Binary [3, 0, 1, 0x73, 104]"
  have name: "rust_string (sid_str demo_s)" "length (sid_str demo_s) < 2 ^ 16"
    by (simp_all add: demo_s_def rust_string_def as_bytes_def)
  have enc: "encode \<lparr>chunk_stream = Stdin, chunk_id = ''s'', chunk_bytes = [104]\<rparr> = Some [3, 0, 1, 0x73, 104]"
    "encode \<lparr>chunk_stream = Terminal, chunk_id = ''s'', chunk_bytes = [36]\<rparr> = Some [2, 0, 1, 0x73, 36]"
    by (simp_all add: encode_def as_bytes_def to_be_bytes_def)
  have dec: "decode [3, 0, 1, 0x73, 104] = Inr \<lparr>chunk_stream = Stdin, chunk_id = ''s'', chunk_bytes = [104]\<rparr>"
    "decode [2, 0, 1, 0x73, 36] = Inr \<lparr>chunk_stream = Terminal, chunk_id = ''s'', chunk_bytes = [36]\<rparr>"
    by (rule decode_encode [OF _ enc(1)], simp add: chunk_ok_def rust_string_def as_bytes_def)
      (rule decode_encode [OF _ enc(2)], simp add: chunk_ok_def rust_string_def as_bytes_def)
  have client: "serve_terminal no_control demo_s 1000 0 demo_keyboard
      = (False, [ToWorker ?key, ToClient (OutBinary [36])])"
    by (simp add: serve_terminal_def demo_keyboard_def terminal_turn_def demo_s_def enc)
  have loop: "session_loop demo_shell ?s = (?s, [PtyWrite [104], SendBinary [2, 0, 1, 0x73, 36]])"
    by (simp add: session_loop_def demo_shell_def session_turn_def start_jobs_def session_init_def demo_host_open_def
      on_input_def on_socket_def dec on_pty_def send_chunk_def enc demo_outside_def)
  have serving: "ws_loop ?s = Serving" "no_stateful demo_s ?s" "list_all quiet_input demo_shell"
    by (simp_all add: session_init_def demo_host_open_def no_stateful_def demo_s_def demo_shell_def quiet_input_def
      terminal_input_def)
  let ?p = "snd (attach_terminal 5 3 demo_s (sp (demo demo_start)))"
  have at: "attached demo_w demo_s 3 ?p" by code_simp
  let ?ins = "[(still_world, Received ?out)]"
  have "snd (drive fst (read_step demo_w) ?ins (True, q)) = [SendTerminal 3 (TermOutput [36])]"
    if "attached demo_w demo_s 3 q" for q
    using that by (auto simp: read_step_def read_turn_def still_world_def dec attached_def route_output_def demo_s_def Let_def
      touch_worker_def split: option.splits)
  from this [OF at] have fx: "snd (drive fst (read_step demo_w) ?ins (True, ?p)) = [SendTerminal 3 (TermOutput [36])]" .
  have wires: "prefix (binaries (socket_messages demo_shell)) (binaries (worker_messages [ToWorker ?key, ToClient (OutBinary [36])]))"
    "prefix (map snd ?ins) (map Received (messages [PtyWrite [104], SendBinary [2, 0, 1, 0x73, 36]]))"
    "prefix (pool_events demo_keyboard) (terminal_events 3 [SendTerminal 3 (TermOutput [36])])"
    by (simp_all add: demo_shell_def socket_messages_def worker_messages_def binaries_def map_filter_simps messages_def
      to_server_def demo_keyboard_def pool_events_def terminal_events_def)
  have kept: "list_all (kept (attached demo_w demo_s 3) \<circ> fst) ?ins" by simp
  have d: "drive fst (read_step demo_w) ?ins (True, ?p) = (fst (drive fst (read_step demo_w) ?ins (True, ?p)), [SendTerminal 3 (TermOutput [36])])"
    using fx by (simp add: prod_eq_iff)
  note all = terminal_end_to_end [OF name client loop serving d at kept wires]
  have keys: "binaries (socket_messages demo_shell) = binaries (worker_messages [ToWorker ?key, ToClient (OutBinary [36])])"
    by (simp add: demo_shell_def socket_messages_def worker_messages_def binaries_def map_filter_simps)
  have out: "map snd ?ins = map Received (messages [PtyWrite [104], SendBinary [2, 0, 1, 0x73, 36]]) \<and>
      pool_events demo_keyboard = terminal_events 3 [SendTerminal 3 (TermOutput [36])]"
    by (simp add: messages_def map_filter_simps to_server_def demo_keyboard_def pool_events_def terminal_events_def)
  from all keys have "concat (map pty_written (snd (session_loop demo_shell ?s))) = keystrokes_in demo_keyboard"
    unfolding loop snd_conv by blast
  moreover from all out have "screen_out (snd (serve_terminal no_control demo_s 1000 0 demo_keyboard)) = concat (map pty_read demo_shell)"
    unfolding client snd_conv by blast
  ultimately show ?thesis
    by (simp only:) (simp add: keystrokes_in_def demo_keyboard_def pty_read_def demo_shell_def)
qed

end
