(* ===== verification/Metrics.thy ===== *)
theory Metrics
  imports PoolProps CaptureStore
begin

text \<open>
  \<open>shiitake-server/src/metrics.rs\<close> and what the pool reports to it: \<open>finalize_telemetry\<close> for a command that
  ended, \<open>report_occupancy\<close>, the refused requests, and the sweeper's sample of the free space.  A counter is
  its sum by label, a histogram the list of its values, a gauge its last value.  The export and the span of a
  command are OpenTelemetry's.
\<close>

section \<open>The instruments\<close>

record metrics =
  exec_terminated :: "(string, nat) hmap"
  exec_duration :: "nat list"
  exec_memory_peak :: "64 word list"
  exec_memory_limit :: "64 word option"
  exec_cpu_seconds :: "(string, nat) hmap"
  exec_output_bytes :: "(string \<times> 64 word) list"
  capture_volume_free :: "64 word option"
  pool_workers :: "(string, 64 word) hmap"
  pool_rejected :: nat

definition no_metrics :: metrics where
  "no_metrics = \<lparr>exec_terminated = [], exec_duration = [], exec_memory_peak = [], exec_memory_limit = None,
     exec_cpu_seconds = [], exec_output_bytes = [], capture_volume_free = None, pool_workers = [], pool_rejected = 0\<rparr>"

definition counter :: "(string, nat) hmap \<Rightarrow> string \<Rightarrow> nat" where
  "counter m label = (case hget m label of None \<Rightarrow> 0 | Some n \<Rightarrow> n)"

definition counter_add :: "nat \<Rightarrow> string \<Rightarrow> (string, nat) hmap \<Rightarrow> (string, nat) hmap" where
  "counter_add n label m = hput label (counter m label + n) m"

definition record_usage :: "resource_usage \<Rightarrow> metrics \<Rightarrow> metrics" where
  "record_usage u m = m\<lparr>
     exec_memory_peak := (case memory_peak_bytes u of None \<Rightarrow> exec_memory_peak m | Some x \<Rightarrow> exec_memory_peak m @ [x]),
     exec_memory_limit := (case memory_limit_bytes u of None \<Rightarrow> exec_memory_limit m | Some x \<Rightarrow> Some x),
     exec_cpu_seconds := (let c = (case cpu_user_seconds u of None \<Rightarrow> exec_cpu_seconds m
           | Some x \<Rightarrow> counter_add x ''user'' (exec_cpu_seconds m))
       in case cpu_system_seconds u of None \<Rightarrow> c | Some x \<Rightarrow> counter_add x ''system'' c)\<rparr>"

definition record_exec :: "string \<Rightarrow> nat \<Rightarrow> 64 word \<Rightarrow> 64 word \<Rightarrow> resource_usage \<Rightarrow> metrics \<Rightarrow> metrics" where
  "record_exec label duration out err usage m = record_usage usage (m\<lparr>
     exec_terminated := counter_add 1 label (exec_terminated m),
     exec_duration := exec_duration m @ [duration],
     exec_output_bytes := exec_output_bytes m @ [(''stdout'', out), (''stderr'', err)]\<rparr>)"

definition set_pool_workers :: "64 word \<Rightarrow> 64 word \<Rightarrow> metrics \<Rightarrow> metrics" where
  "set_pool_workers idles busy m =
     m\<lparr>pool_workers := hput ''inflight'' busy (hput ''idle'' idles (pool_workers m))\<rparr>"

definition record_pool_rejected :: "metrics \<Rightarrow> metrics" where
  "record_pool_rejected m = m\<lparr>pool_rejected := pool_rejected m + 1\<rparr>"

definition record_capture_free_bytes :: "64 word \<Rightarrow> metrics \<Rightarrow> metrics" where
  "record_capture_free_bytes bytes m = m\<lparr>capture_volume_free := Some bytes\<rparr>"

section \<open>What the pool reports\<close>

text \<open>\<open>free_bytes\<close> on Linux: the two fields are 64 bits wide and so is their product.\<close>

record statvfs =
  f_bavail :: "64 word"
  f_frsize :: "64 word"

definition available_bytes :: "statvfs \<Rightarrow> 64 word" where
  "available_bytes stat = f_bavail stat * f_frsize stat"

definition free_bytes :: "(path \<Rightarrow> statvfs option) \<Rightarrow> path \<Rightarrow> 64 word option" where
  "free_bytes statvfs_of root =
     (if \<exists>c \<in> set root. CHR 0x00 \<in> set c then None else map_option available_bytes (statvfs_of root))"

text \<open>The first step of a sweep.\<close>

definition sample_free_space :: "(path \<Rightarrow> statvfs option) \<Rightarrow> path \<Rightarrow> metrics \<Rightarrow> metrics" where
  "sample_free_space statvfs_of root m =
     (case free_bytes statvfs_of root of None \<Rightarrow> m | Some free \<Rightarrow> record_capture_free_bytes free m)"

definition finalize_telemetry :: "(exec_id \<Rightarrow> capture_stream \<Rightarrow> 64 word) \<Rightarrow> handle_row \<Rightarrow> time \<Rightarrow> exit_cause \<Rightarrow>
    resource_usage \<Rightarrow> metrics \<Rightarrow> metrics" where
  "finalize_telemetry len row finished_at cause usage m =
     record_exec (cause_label cause) (duration_since finished_at (hr_started row))
       (len (hr_id row) OutStream) (len (hr_id row) ErrStream) usage m"

definition report_occupancy :: "pool \<Rightarrow> metrics \<Rightarrow> metrics" where
  "report_occupancy p m =
     (let (idles, busy) = pool_snapshot p in set_pool_workers (word_of_nat idles) (word_of_nat busy) m)"

text \<open>What the effects of a critical section add, in the pool it leaves: \<open>RecordExec\<close> stands for the call of
  \<open>finalize_telemetry\<close>.  The usage is the one the result carried, the default for a lost or closed command.\<close>

definition observe :: "(exec_id \<Rightarrow> capture_stream \<Rightarrow> 64 word) \<Rightarrow> (exec_id \<Rightarrow> resource_usage) \<Rightarrow> pool \<Rightarrow> effect \<Rightarrow>
    metrics \<Rightarrow> metrics" where
  "observe len usage p e m =
     (case e of
       RecordExec rid cause \<Rightarrow>
         (case hget (handles p) rid of
           Some row \<Rightarrow> (case hr_finished row of
               Some finished \<Rightarrow> finalize_telemetry len row finished cause (usage rid) m | None \<Rightarrow> m)
         | None \<Rightarrow> m)
     | PoolRejected \<Rightarrow> record_pool_rejected m
     | _ \<Rightarrow> m)"

section \<open>Metrics of a run of the pool\<close>

text \<open>The effects of the step that finishes a handle.\<close>

definition finish_effects :: "event \<Rightarrow> sys \<Rightarrow> effect list" where
  "finish_effects ev s = (case ev of
     FinishEv rid now \<Rightarrow> (case take_first (\<lambda>(x, _). x = rid) (finishing s) of
         None \<Rightarrow> [] | Some ((_, how), _) \<Rightarrow> snd (finish_row (outcome_row how now) rid (sp s)))
   | _ \<Rightarrow> [])"

fun observe_run :: "(exec_id \<Rightarrow> capture_stream \<Rightarrow> 64 word) \<Rightarrow> (exec_id \<Rightarrow> resource_usage) \<Rightarrow> event list \<Rightarrow> sys \<Rightarrow>
    metrics \<Rightarrow> metrics" where
  "observe_run len usage [] s m = m"
| "observe_run len usage (ev # evs) s m = (case apply_event ev s of
     None \<Rightarrow> m
   | Some t \<Rightarrow> observe_run len usage evs t (fold (observe len usage (sp t)) (finish_effects ev s) m))"

fun recorded :: "event list \<Rightarrow> sys \<Rightarrow> (exec_id \<times> exit_cause) list" where
  "recorded [] s = []"
| "recorded (ev # evs) s = (case apply_event ev s of
     None \<Rightarrow> []
   | Some t \<Rightarrow> List.map_filter (\<lambda>e. case e of RecordExec rid cause \<Rightarrow> Some (rid, cause) | _ \<Rightarrow> None) (finish_effects ev s)
       @ recorded evs t)"

text \<open>Only the finishing step changes the status or the cause of a handle.\<close>

lemma status_step:
  assumes st: "sys_step s ev t" and ev: "\<And>rid now. ev \<noteq> FinishEv rid now"
    and row: "hget (handles (sp t)) rid = Some row"
  shows "(case hget (handles (sp s)) rid of None \<Rightarrow> False
      | Some row0 \<Rightarrow> hr_status row = hr_status row0 \<and> hr_cause row = hr_cause row0)
    \<or> rid \<notin> set (issued s) \<and> hr_status row = Running"
proof -
  have st': "apply_event ev s = Some t" using st by (simp add: sys_step_def)
  have get: "hget (map (\<lambda>(rid, row). (rid, f row)) m) x = map_option f (hget m x)"
    for f :: "handle_row \<Rightarrow> handle_row" and m and x :: exec_id
    by (simp add: hget_def map_of_map)
  show ?thesis
  proof (cases ev)
    case (CreateBegin profile op ready now)
    have "handles (snd (create_reserve now profile op ready (sp s))) = handles (sp s)"
      by (auto simp: create_reserve_def split: option.splits)
    with st' row CreateBegin show ?thesis by (auto split: if_splits prod.splits sum.splits)
  next
    case (CreateDone sid now)
    with st' row show ?thesis
      by (auto simp: touch_session_def split: if_splits prod.splits sum.splits dest!: created_snapshot_pool)
  next
    case (SubmitRegister sid t0 now)
    with st' row show ?thesis
      by (auto simp: register_step_def submit_register_def fresh_row_def split: option.splits holder.splits if_splits prod.splits)
  next
    case (CloseBegin gate sid ch)
    have "handles (snd (close_begin gate ch sid (sp s))) = handles (sp s)"
      by (auto simp: close_begin_def split: option.splits)
    moreover have "sp t = snd (close_begin gate ch sid (sp s))"
      using st' CloseBegin by (auto simp: close_step_def split: if_splits prod.splits close_step.splits bool.splits)
    ultimately show ?thesis using row by simp
  next
    case (ClosedEv w sid error reusable now)
    with st' row show ?thesis
      by (auto simp: closed_step_def close_take_def split: if_splits option.splits)
  next
    case (ListEv sid now)
    with st' row show ?thesis
      by (auto simp: set_pool_def list_session_commands_def Let_def get split: option.splits if_splits)
  next
    case (FinishEv x now)
    with ev show ?thesis by blast
  next
    case ExecTake
    with st' row show ?thesis by (auto simp: handles_held)
  next
    case (PinEv ch)
    with st' row show ?thesis by (auto simp: handles_held)
  next
    case (ExecBack wk)
    with st' row handles_held(3) show ?thesis by simp
  next
    case (UnpinEv wk)
    with st' row handles_held(4) show ?thesis by simp
  next
    case (ExecRegister wk x t0 now)
    with st' have h: "x \<notin> set (issued s)" "handles (sp t) = hput x (fresh_row x None (we_id wk) t0) (handles (sp s))"
      using handles_held(5) [of wk x t0 now s t] by simp_all
    with row show ?thesis by (auto simp: fresh_row_def split: if_splits)
  next
    case (ExecSend x r)
    with st' row handles_held(6) [of x r s t] show ?thesis by (auto split: if_splits)
  qed (use st' row in \<open>auto simp: set_pool_def submit_step_def send_run_step_def send_close_step_def result_step_def
      drop_step_def drop_inflight_def session_ready_def attach_terminal_def detach_terminal_if_def cancel_request_def
      poll_row_def touch_session_def mark_spool_failed_def drop_worker_def Let_def
      purge_handle_def retain_sessions_def register_worker_def touch_worker_def case_prod_unfold
      split: if_splits option.splits holder.splits sum.splits\<close>)
qed

definition records_of :: "effect list \<Rightarrow> (exec_id \<times> exit_cause) list" where
  "records_of fx = List.map_filter (\<lambda>e. case e of RecordExec rid cause \<Rightarrow> Some (rid, cause) | _ \<Rightarrow> None) fx"

text \<open>What was recorded so far, against the handles of a state.\<close>

definition counted :: "(exec_id \<times> exit_cause) list \<Rightarrow> sys \<Rightarrow> bool" where
  "counted rs s \<longleftrightarrow> distinct (map fst rs) \<and> fst ` set rs \<subseteq> set (issued s) \<and>
     (\<forall>rid row. hget (handles (sp s)) rid = Some row \<longrightarrow>
        (if hr_status row = Running then rid \<notin> fst ` set rs else (rid, the (hr_cause row)) \<in> set rs))"

lemma counted_finish:
  assumes inv: "sys_core s" and c: "counted rs s" and st: "apply_event (FinishEv rid now) s = Some t"
  shows "counted (rs @ records_of (finish_effects (FinishEv rid now) s)) t"
proof -
  obtain x how rest where tf: "take_first (\<lambda>(x, _). x = rid) (finishing s) = Some ((x, how), rest)"
    and t: "t = s\<lparr>sp := fst (finish_row (outcome_row how now) rid (sp s)), finishing := rest\<rparr>"
    using st by (auto simp: finish_step_def split: option.splits)
  obtain as bs where "finishing s = as @ (x, how) # bs" and "x = rid" by (rule take_first_Some [OF tf]) auto
  then have "(rid, how) \<in> set (finishing s)" by simp
  from finishing_okD [OF sys_coreD(4) [OF inv] this] have how: "outcome_ok how" "rid \<in> set (issued s)" by auto
  have over: "hr_status (outcome_row how now y) \<noteq> Running" for y
    using outcome_row_finisher [OF how(1)] by (simp add: finisher_def)
  have fx: "finish_effects (FinishEv rid now) s = snd (finish_row (outcome_row how now) rid (sp s))"
    by (simp add: finish_effects_def tf)
  show ?thesis
  proof (cases "\<exists>row. hget (handles (sp s)) rid = Some row \<and> hr_status row = Running")
    case True
    then obtain row where row: "hget (handles (sp s)) rid = Some row" "hr_status row = Running" by blast
    then have rec: "records_of (finish_effects (FinishEv rid now) s) = [(rid, the (hr_cause (outcome_row how now row)))]"
      by (simp add: fx finish_row_def records_of_def map_filter_simps)
    have "rid \<notin> fst ` set rs" using c row by (auto simp: counted_def)
    with c how(2) over row show ?thesis
      by (auto simp: rec counted_def t finish_row_handles split: if_splits)
  next
    case False
    then have same: "fst (finish_row (outcome_row how now) rid (sp s)) = sp s"
      and none: "snd (finish_row (outcome_row how now) rid (sp s)) = []"
      by (auto simp: finish_row_def split: option.splits)
    show ?thesis using c by (simp add: fx none same t records_of_def map_filter_simps counted_def)
  qed
qed

lemma counted_other:
  assumes inv: "sys_core s" and c: "counted rs s" and st: "sys_step s ev t" and ev: "\<And>rid now. ev \<noteq> FinishEv rid now"
  shows "counted (rs @ records_of (finish_effects ev s)) t"
proof -
  have "finish_effects ev s = []" using ev by (cases ev) (auto simp: finish_effects_def)
  moreover have "set (issued s) \<subseteq> set (issued t)" using step_kinds [OF inv st] by blast
  moreover have "if hr_status row = Running then rid \<notin> fst ` set rs else (rid, the (hr_cause row)) \<in> set rs"
    if row: "hget (handles (sp t)) rid = Some row" for rid row
    using status_step [OF st ev row]
  proof
    assume "case hget (handles (sp s)) rid of None \<Rightarrow> False
      | Some row0 \<Rightarrow> hr_status row = hr_status row0 \<and> hr_cause row = hr_cause row0"
    then obtain row0 where "hget (handles (sp s)) rid = Some row0" "hr_status row = hr_status row0" "hr_cause row = hr_cause row0"
      by (auto split: option.splits)
    with c show ?thesis by (simp add: counted_def)
  next
    assume "rid \<notin> set (issued s) \<and> hr_status row = Running"
    with c show ?thesis by (auto simp: counted_def)
  qed
  ultimately show ?thesis using c by (auto simp: counted_def records_of_def map_filter_simps)
qed

lemma counted_step:
  assumes "sys_core s" and "counted rs s" and "sys_step s ev t"
  shows "counted (rs @ records_of (finish_effects ev s)) t"
proof (cases "\<exists>rid now. ev = FinishEv rid now")
  case True
  with assms counted_finish show ?thesis by (auto simp: sys_step_def)
next
  case False
  with counted_other [OF assms] show ?thesis by blast
qed

lemma recorded_run:
  assumes "run_events evs s = Some t" and "sys_core s" and "counted rs s"
  shows "counted (rs @ recorded evs s) t"
  using assms
proof (induction evs arbitrary: s rs)
  case Nil
  then show ?case by simp
next
  case (Cons ev evs)
  then obtain s1 where st: "apply_event ev s = Some s1" and r: "run_events evs s1 = Some t"
    by (auto split: option.splits)
  then have step: "sys_step s ev s1" by (simp add: sys_step_def)
  from Cons.IH [OF r sys_core_step [OF Cons.prems(2) step] counted_step [OF Cons.prems(2,3) step]] st show ?case
    by (simp add: records_of_def)
qed

lemma counter_add_counter: "counter (counter_add n l m) x = (if x = l then counter m x + n else counter m x)"
  by (simp add: counter_add_def counter_def)

lemma observe_terminated:
  "counter (exec_terminated (observe len usage p e m)) l =
     counter (exec_terminated m) l + (case e of
        RecordExec rid cause \<Rightarrow> if cause_label cause = l \<and> (\<exists>row f. hget (handles p) rid = Some row \<and> hr_finished row = Some f)
          then 1 else 0
      | _ \<Rightarrow> 0)"
  by (auto simp: observe_def finalize_telemetry_def record_exec_def record_usage_def counter_add_counter
    record_pool_rejected_def split: effect.splits option.splits)

definition with_label :: "string \<Rightarrow> (exec_id \<times> exit_cause) list \<Rightarrow> nat" where
  "with_label l rs = length (filter (\<lambda>(rid, cause). cause_label cause = l) rs)"

lemma with_label_append [simp]: "with_label l (as @ bs) = with_label l as + with_label l bs" "with_label l [] = 0"
  by (simp_all add: with_label_def)

lemma observe_step:
  assumes inv: "sys_core s" and step: "sys_step s ev t"
  shows "counter (exec_terminated (fold (observe len usage (sp t)) (finish_effects ev s) m)) l
    = counter (exec_terminated m) l + with_label l (records_of (finish_effects ev s))"
proof (cases "finish_effects ev s = []")
  case True
  then show ?thesis by (simp add: records_of_def map_filter_simps)
next
  case False
  then obtain rid now x how rest where ev: "ev = FinishEv rid now"
    and tf: "take_first (\<lambda>(x, _). x = rid) (finishing s) = Some ((x, how), rest)"
    by (cases ev) (auto simp: finish_effects_def split: option.splits)
  let ?upd = "outcome_row how now"
  have fx: "finish_effects ev s = snd (finish_row ?upd rid (sp s))" by (simp add: ev finish_effects_def tf)
  have t: "sp t = fst (finish_row ?upd rid (sp s))"
    using step by (auto simp: sys_step_def ev finish_step_def tf)
  from False fx obtain row where row: "hget (handles (sp s)) rid = Some row" "hr_status row = Running"
    by (auto simp: finish_row_def split: option.splits if_splits)
  obtain as bs where "finishing s = as @ (x, how) # bs" and "x = rid" by (rule take_first_Some [OF tf]) auto
  then have "(rid, how) \<in> set (finishing s)" by simp
  from finishing_okD [OF sys_coreD(4) [OF inv] this] have "outcome_ok how" by simp
  from outcome_row_finisher [OF this] have "hr_status (?upd row) \<noteq> Running" by (simp add: finisher_def)
  moreover have new: "hget (handles (sp t)) rid = Some (?upd row)" using row by (simp add: t finish_row_handles)
  ultimately have "hr_finished (?upd row) \<noteq> None"
    using pool_coreD(4) [OF sys_coreD(1) [OF sys_core_step [OF inv step]]] by (force simp: rows_ok_def row_ok_def)
  then obtain f where f: "hr_finished (?upd row) = Some f" by blast
  have "finish_effects ev s = [RecordExec rid (the (hr_cause (?upd row))), NotifyCompletion rid]"
    using row by (simp add: fx finish_row_def)
  then show ?thesis
    using new f by (simp add: records_of_def map_filter_simps observe_terminated with_label_def)
qed

lemma observe_run_terminated:
  assumes "run_events evs s = Some t" and "sys_core s"
  shows "counter (exec_terminated (observe_run len usage evs s m)) l
    = counter (exec_terminated m) l + with_label l (recorded evs s)"
  using assms
proof (induction evs arbitrary: s m)
  case Nil
  then show ?case by simp
next
  case (Cons ev evs)
  then obtain s1 where st: "apply_event ev s = Some s1" and r: "run_events evs s1 = Some t"
    by (auto split: option.splits)
  then have step: "sys_step s ev s1" by (simp add: sys_step_def)
  from Cons.IH [OF r sys_core_step [OF Cons.prems(2) step]] observe_step [OF Cons.prems(2) step] st show ?case
    by (simp add: records_of_def)
qed

lemma cause_label_inj: "cause_label a = cause_label b \<longleftrightarrow> a = b"
  by (cases a; cases b; simp)

text \<open>
  C35: Every command is counted once, under its cause: in every run of the pool, the counter of terminated commands
  with the label of a cause is the number of commands whose end was recorded with it; no command is recorded
  twice, a command still known is recorded exactly if it has ended, and then under the cause its handle reports.
\<close>

theorem commands_counted_once:
  assumes "run_events evs empty_sys = Some s"
  shows "counter (exec_terminated (observe_run len usage evs empty_sys no_metrics)) (cause_label cause)
      = card {rid. (rid, cause) \<in> set (recorded evs empty_sys)} \<and>
    distinct (map fst (recorded evs empty_sys)) \<and>
    (\<forall>rid row. hget (handles (sp s)) rid = Some row \<longrightarrow>
       (if hr_status row = Running then rid \<notin> fst ` set (recorded evs empty_sys)
        else (rid, the (hr_cause row)) \<in> set (recorded evs empty_sys)))"
proof -
  let ?r = "recorded evs empty_sys"
  have inv: "sys_core empty_sys" by (rule init_sys_core) (simp add: init_sys_def empty_sys_def)
  have "counted [] empty_sys" by (simp add: counted_def empty_sys_def new_pool_def)
  from recorded_run [OF assms inv this] have c: "counted ?r s" by simp
  then have d: "distinct (map fst ?r)" by (simp add: counted_def)
  have "{rid. (rid, cause) \<in> set ?r} = fst ` set (filter (\<lambda>(rid, x). cause_label x = cause_label cause) ?r)"
    by (force simp: cause_label_inj)
  moreover have "distinct (map fst (filter (\<lambda>(rid, x). cause_label x = cause_label cause) ?r))"
    using d by (rule distinct_map_filter)
  ultimately have "card {rid. (rid, cause) \<in> set ?r} = with_label (cause_label cause) ?r"
    using distinct_card [of "map fst (filter (\<lambda>(rid, x). cause_label x = cause_label cause) ?r)"]
    by (simp add: with_label_def)
  with observe_run_terminated [OF assms inv] c show ?thesis
    by (simp add: no_metrics_def counter_def counted_def)
qed

theorem commands_counted_once_witness:
  "counter (exec_terminated (observe_run (\<lambda>_ _. 0) (\<lambda>_. default_usage) demo_closed empty_sys no_metrics)) ''cancelled'' = 1"
proof -
  have "recorded demo_closed empty_sys = [(demo_c, Cancelled)]" by code_simp
  then have "{rid. (rid, Cancelled) \<in> set (recorded demo_closed empty_sys)} = {demo_c}" by auto
  moreover have "cause_label Cancelled = ''cancelled''" by simp
  ultimately show ?thesis
    using commands_counted_once [OF demo_run_some(2), of "\<lambda>_ _. 0" "\<lambda>_. default_usage" Cancelled] by simp
qed

end
