(* ===== verification/Waiting.thy ===== *)
theory Waiting
  imports Metrics
begin

text \<open>
  \<open>wait_for_terminal\<close> of \<open>pool/mod.rs\<close>, one turn per critical section, against the finishers of the command: a
  finisher writes the outcome under the lock of the row and calls \<open>notify_waiters\<close> after it has let the lock go.
  The notification is tokio's: its state, the making of a future, the call and the readiness of a future
  are arguments.
\<close>

section \<open>The notification\<close>

text \<open>What tokio documents of \<open>Notify\<close>: a call wakes every future that was made before it.\<close>

definition notify_laws :: "('n \<Rightarrow> 'f) \<Rightarrow> ('n \<Rightarrow> 'n) \<Rightarrow> ('n \<Rightarrow> 'f \<Rightarrow> bool) \<Rightarrow> bool" where
  "notify_laws notified notify ready \<longleftrightarrow>
     (\<forall>n. ready (notify n) (notified n)) \<and> (\<forall>n f. ready n f \<longrightarrow> ready (notify n) f)"

section \<open>A waiter among the tasks of the pool\<close>

text \<open>Before the lookup; at the top of the loop; with a future, before the check; awaiting the future; returned.\<close>

datatype 'f waiter = WaitLookup | WaitSubscribe | WaitCheck 'f | WaitAsleep 'f | WaitOver

text \<open>One turn, if the waiter has one: an awaited future that is not ready keeps it.  A row that was purged while
  the waiter holds it had ended.\<close>

definition waiter_turn :: "('n \<Rightarrow> 'f) \<Rightarrow> ('n \<Rightarrow> 'f \<Rightarrow> bool) \<Rightarrow> exec_id \<Rightarrow> pool \<Rightarrow> 'n \<Rightarrow> 'f waiter \<Rightarrow>
    'f waiter option" where
  "waiter_turn notified ready rid p n w =
     (case w of
       WaitLookup \<Rightarrow> Some (if hget (handles p) rid = None then WaitOver else WaitSubscribe)
     | WaitSubscribe \<Rightarrow> Some (WaitCheck (notified n))
     | WaitCheck f \<Rightarrow> Some (if wait_returns rid p then WaitOver else WaitAsleep f)
     | WaitAsleep f \<Rightarrow> (if ready n f then Some WaitSubscribe else None)
     | WaitOver \<Rightarrow> None)"

text \<open>\<open>wt_due\<close> counts the finishers of the command that have written its outcome and not called yet.  A caller knows
  the id of a command only when it has been sent, so no lookup comes before that.\<close>

record ('n, 'f) wait_sys =
  wt_sys :: sys
  wt_notify :: 'n
  wt_due :: nat
  wt_waiter :: "'f waiter"

datatype waiting_event = PoolStep event | NotifyCall | WaiterTurn

definition wait_apply :: "('n \<Rightarrow> 'f) \<Rightarrow> ('n \<Rightarrow> 'n) \<Rightarrow> ('n \<Rightarrow> 'f \<Rightarrow> bool) \<Rightarrow> exec_id \<Rightarrow> waiting_event \<Rightarrow>
    ('n, 'f) wait_sys \<Rightarrow> ('n, 'f) wait_sys option" where
  "wait_apply notified notify ready rid ev s =
     (case ev of
       PoolStep e \<Rightarrow>
         map_option (\<lambda>t. s\<lparr>wt_sys := t,
           wt_due := wt_due s + (if NotifyCompletion rid \<in> set (finish_effects e (wt_sys s)) then 1 else 0)\<rparr>)
         (apply_event e (wt_sys s))
     | NotifyCall \<Rightarrow>
         if wt_due s = 0 then None
         else Some (s\<lparr>wt_notify := notify (wt_notify s), wt_due := wt_due s - 1\<rparr>)
     | WaiterTurn \<Rightarrow>
         if rid \<in> set (unsent (wt_sys s)) then None
         else map_option (\<lambda>w. s\<lparr>wt_waiter := w\<rparr>)
           (waiter_turn notified ready rid (sp (wt_sys s)) (wt_notify s) (wt_waiter s)))"

definition wait_step :: "('n \<Rightarrow> 'f) \<Rightarrow> ('n \<Rightarrow> 'n) \<Rightarrow> ('n \<Rightarrow> 'f \<Rightarrow> bool) \<Rightarrow> exec_id \<Rightarrow>
    ('n, 'f) wait_sys \<Rightarrow> waiting_event \<Rightarrow> ('n, 'f) wait_sys \<Rightarrow> bool" where
  "wait_step notified notify ready rid s ev t \<longleftrightarrow> wait_apply notified notify ready rid ev s = Some t"

definition wait_init :: "('n, 'f) wait_sys \<Rightarrow> bool" where
  "wait_init s \<longleftrightarrow> init_sys (wt_sys s) \<and> wt_due s = 0 \<and> wt_waiter s = WaitLookup"

lemma wait_step_cases:
  assumes "wait_step notified notify ready rid s ev t"
  obtains (pool) e u where "ev = PoolStep e" "sys_step (wt_sys s) e u"
      "t = s\<lparr>wt_sys := u, wt_due := wt_due s + (if NotifyCompletion rid \<in> set (finish_effects e (wt_sys s)) then 1 else 0)\<rparr>"
    | (call) "ev = NotifyCall" "0 < wt_due s" "t = s\<lparr>wt_notify := notify (wt_notify s), wt_due := wt_due s - 1\<rparr>"
    | (turn) w where "ev = WaiterTurn" "t = s\<lparr>wt_waiter := w\<rparr>" "rid \<notin> set (unsent (wt_sys s))"
        "waiter_turn notified ready rid (sp (wt_sys s)) (wt_notify s) (wt_waiter s) = Some w"
  using assms by (cases ev) (auto simp: wait_step_def wait_apply_def sys_step_def split: if_splits)

section \<open>What a step of the pool does to a command\<close>

text \<open>Only its finisher ends a running command, and it owes a call then.\<close>

lemma running_kept:
  assumes st: "sys_step s ev t" and ev: "\<And>now. ev \<noteq> FinishEv rid now" and sent: "rid \<notin> set (unsent s)"
    and row: "hget (handles (sp s)) rid = Some row" "hr_status row = Running"
  shows "\<exists>row'. hget (handles (sp t)) rid = Some row' \<and> hr_status row' = Running"
proof -
  have st': "apply_event ev s = Some t" using st by (simp add: sys_step_def)
  have get: "hget (map (\<lambda>(rid, row). (rid, f row)) m) x = map_option f (hget m x)"
    for f :: "handle_row \<Rightarrow> handle_row" and m and x :: exec_id
    by (simp add: hget_def map_of_map)
  show ?thesis
  proof (cases ev)
    case (CreateBegin profile op ready now)
    have "handles (snd (create_reserve now profile op ready (sp s))) = handles (sp s)"
      by (auto simp: create_reserve_def split: option.splits)
    with st' row CreateBegin show ?thesis by (auto split: if_splits prod.splits sum.splits)
  next
    case (CreateDone sid now)
    with st' row show ?thesis
      by (auto simp: touch_session_def split: if_splits prod.splits sum.splits dest!: created_snapshot_pool)
  next
    case (SubmitRegister sid t0 now)
    with st' row show ?thesis
      by (auto simp: register_step_def submit_register_def fresh_row_def split: option.splits holder.splits if_splits prod.splits)
  next
    case (CloseBegin gate sid ch)
    have "handles (snd (close_begin gate ch sid (sp s))) = handles (sp s)"
      by (auto simp: close_begin_def split: option.splits)
    moreover have "sp t = snd (close_begin gate ch sid (sp s))"
      using st' CloseBegin by (auto simp: close_step_def split: if_splits prod.splits close_step.splits bool.splits)
    ultimately show ?thesis using row by simp
  next
    case (ClosedEv w sid error reusable now)
    with st' row show ?thesis
      by (auto simp: closed_step_def close_take_def split: if_splits option.splits)
  next
    case (ListEv sid now)
    with st' row show ?thesis
      by (auto simp: set_pool_def list_session_commands_def Let_def get split: option.splits if_splits)
  next
    case (FinishEv x now)
    with ev have "x \<noteq> rid" by blast
    with st' row FinishEv show ?thesis by (auto simp: finish_step_def finish_row_handles split: option.splits)
  next
    case ExecTake
    with st' row show ?thesis by (auto simp: handles_held)
  next
    case (PinEv ch)
    with st' row show ?thesis by (auto simp: handles_held)
  next
    case (ExecBack wk)
    with st' row handles_held(3) show ?thesis by simp
  next
    case (UnpinEv wk)
    with st' row handles_held(4) show ?thesis by simp
  next
    case (ExecRegister wk x t0 now)
    with st' row handles_held(5) [of wk x t0 now s t] show ?thesis by (simp add: fresh_row_def)
  next
    case (ExecSend x r)
    with st' row sent handles_held(6) [of x r s t] show ?thesis by auto
  next
    case (PurgeEv x)
    with st' row show ?thesis by (auto simp: set_pool_def purge_handle_def split: option.splits if_splits)
  qed (use st' row in \<open>auto simp: set_pool_def submit_step_def send_run_step_def send_close_step_def result_step_def
      drop_step_def drop_inflight_def session_ready_def attach_terminal_def detach_terminal_if_def cancel_request_def
      poll_row_def touch_session_def mark_spool_failed_def drop_worker_def Let_def
      retain_sessions_def register_worker_def touch_worker_def case_prod_unfold
      split: if_splits option.splits holder.splits sum.splits\<close>)
qed

lemma ends_notifying:
  assumes st: "sys_step s ev t" and sent: "rid \<notin> set (unsent s)" and run: "\<not> wait_returns rid (sp s)" and over: "wait_returns rid (sp t)"
  shows "NotifyCompletion rid \<in> set (finish_effects ev s)"
proof -
  obtain row where row: "hget (handles (sp s)) rid = Some row" "hr_status row = Running"
    using run by (auto simp: wait_returns_def split: option.splits)
  have "\<exists>now. ev = FinishEv rid now"
    using running_kept [OF st _ sent row] over by (fastforce simp: wait_returns_def)
  then obtain now where ev: "ev = FinishEv rid now" by blast
  then obtain x how rest where tf: "take_first (\<lambda>(x, _). x = rid) (finishing s) = Some ((x, how), rest)"
    using st by (auto simp: sys_step_def finish_step_def split: option.splits)
  show ?thesis using row by (simp add: ev finish_effects_def tf finish_row_def)
qed

lemma over_quiet:
  assumes "wait_returns rid (sp s)"
  shows "NotifyCompletion rid \<notin> set (finish_effects ev s)"
  using assms by (auto simp: finish_effects_def finish_row_def wait_returns_def split: event.splits option.splits)

definition command_over :: "exec_id \<Rightarrow> sys \<Rightarrow> bool" where
  "command_over rid s \<longleftrightarrow> rid \<in> set (issued s) \<and> wait_returns rid (sp s)"

lemma command_over_settled: "command_over rid s \<longleftrightarrow> (\<exists>row. handle_settled (rid, row) s)"
proof
  assume c: "command_over rid s"
  show "\<exists>row. handle_settled (rid, row) s"
  proof (cases "hget (handles (sp s)) rid")
    case None
    with c show ?thesis
      by (auto simp: command_over_def handle_settled_def intro!: exI [of _ "undefined\<lparr>hr_status := Completed\<rparr>"])
  next
    case (Some row)
    with c show ?thesis by (auto simp: command_over_def handle_settled_def wait_returns_def)
  qed
qed (auto simp: command_over_def handle_settled_def wait_returns_def outcome_of_def split: option.splits)

lemma command_over_step: "sys_core s \<Longrightarrow> command_over rid s \<Longrightarrow> sys_step s ev t \<Longrightarrow> command_over rid t"
  unfolding command_over_settled using handle_settled_step by blast

section \<open>No lost wakeup\<close>

text \<open>A future of the waiter is ready or made of the present state of the notification; an awaited one that is not
  ready belongs to a running command or to a call still due.\<close>

definition waiter_ok :: "('n \<Rightarrow> 'f) \<Rightarrow> ('n \<Rightarrow> 'f \<Rightarrow> bool) \<Rightarrow> exec_id \<Rightarrow> ('n, 'f) wait_sys \<Rightarrow> bool" where
  "waiter_ok notified ready rid s \<longleftrightarrow> (case wt_waiter s of
     WaitCheck f \<Rightarrow> ready (wt_notify s) f \<or> f = notified (wt_notify s)
   | WaitAsleep f \<Rightarrow> ready (wt_notify s) f \<or>
       f = notified (wt_notify s) \<and> (wait_returns rid (sp (wt_sys s)) \<longrightarrow> 0 < wt_due s)
   | _ \<Rightarrow> True)"

definition wait_inv :: "('n \<Rightarrow> 'f) \<Rightarrow> ('n \<Rightarrow> 'f \<Rightarrow> bool) \<Rightarrow> exec_id \<Rightarrow> ('n, 'f) wait_sys \<Rightarrow> bool" where
  "wait_inv notified ready rid s \<longleftrightarrow> sys_core (wt_sys s) \<and> waiter_ok notified ready rid s \<and>
     (wt_waiter s \<notin> {WaitLookup, WaitOver} \<longrightarrow> rid \<in> set (issued (wt_sys s)) - set (unsent (wt_sys s)))"

text \<open>An id once issued becomes unsent no more.\<close>

lemma sent_kept:
  assumes "sys_core s" and "sys_step s ev t" and "rid \<in> set (issued s) - set (unsent s)"
  shows "rid \<in> set (issued t) - set (unsent t)"
proof -
  have "set (unsent t) \<subseteq> set (unsent s) \<union> (set (issued t) - set (issued s))"
    using assms(2) by (cases ev) (auto simp: sys_step_def set_pool_def submit_step_def register_step_def send_run_step_def
      close_step_def send_close_step_def closed_step_def result_step_def drop_step_def finish_step_def take_step_def
      back_step_def exec_step_def exec_sent_step_def pin_step_def unpin_step_def Let_def case_prod_unfold
      split: if_splits option.splits sum.splits prod.splits holder.splits close_step.splits bool.splits)
  with assms(3) step_kinds [OF assms(1,2)] show ?thesis by blast
qed

lemma wait_inv_step:
  assumes laws: "notify_laws notified notify ready" and inv: "wait_inv notified ready rid s"
    and st: "wait_step notified notify ready rid s ev t"
  shows "wait_inv notified ready rid t"
proof -
  have si: "sys_core (wt_sys s)" and ok: "waiter_ok notified ready rid s"
    and known: "wt_waiter s \<notin> {WaitLookup, WaitOver} \<Longrightarrow> rid \<in> set (issued (wt_sys s)) - set (unsent (wt_sys s))"
    using inv by (simp_all add: wait_inv_def)
  from st show ?thesis
  proof (cases rule: wait_step_cases)
    case (pool e u)
    have "waiter_ok notified ready rid t"
      using ok ends_notifying [OF pool(2), of rid] known by (auto simp: waiter_ok_def pool(3) split: waiter.splits)
    with sys_core_step [OF si pool(2)] sent_kept [OF si pool(2), of rid] known pool(3) show ?thesis by (simp add: wait_inv_def)
  next
    case call
    with laws ok si known show ?thesis by (auto simp: wait_inv_def waiter_ok_def notify_laws_def split: waiter.splits)
  next
    case (turn w)
    have "rid \<in> set (issued (wt_sys s))" if "hget (handles (sp (wt_sys s))) rid \<noteq> None"
      using that ids_okD(4) [OF sys_coreD(2) [OF si]] by blast
    with turn ok si known show ?thesis
      by (cases "wt_waiter s") (auto simp: wait_inv_def waiter_ok_def waiter_turn_def split: if_splits)
  qed
qed

interpretation wt: step_invariant wait_init "wait_step notified notify ready rid"
    "\<lambda>s. notify_laws notified notify ready \<longrightarrow> wait_inv notified ready rid s" for notified notify ready rid
proof unfold_locales
  show "wait_init s \<Longrightarrow> notify_laws notified notify ready \<longrightarrow> wait_inv notified ready rid s" for s
    by (simp add: wait_init_def wait_inv_def waiter_ok_def init_sys_core)
  show "notify_laws notified notify ready \<longrightarrow> wait_inv notified ready rid s \<Longrightarrow>
      wait_step notified notify ready rid s e t \<Longrightarrow>
      notify_laws notified notify ready \<longrightarrow> wait_inv notified ready rid t" for s e t
    using wait_inv_step by blast
qed

text \<open>The turns a waiter can still need once the command is over.\<close>

fun turns_left :: "'f waiter \<Rightarrow> nat" where
  "turns_left WaitLookup = 3"
| "turns_left (WaitAsleep f) = 3"
| "turns_left WaitSubscribe = 2"
| "turns_left (WaitCheck f) = 1"
| "turns_left WaitOver = 0"

definition all_done :: "exec_id \<Rightarrow> ('n, 'f) wait_sys \<Rightarrow> bool" where
  "all_done rid s \<longleftrightarrow> command_over rid (wt_sys s) \<and> rid \<notin> set (unsent (wt_sys s)) \<and> wt_due s = 0"

lemma all_done_step:
  assumes "notify_laws notified notify ready" and "wait_inv notified ready rid s" and "all_done rid s"
    and "wait_step notified notify ready rid s ev t"
  shows "all_done rid t \<and> turns_left (wt_waiter t) + (if ev = WaiterTurn then 1 else 0) \<le> turns_left (wt_waiter s)"
  using assms(4)
proof (cases rule: wait_step_cases)
  case (pool e u)
  have "sys_core (wt_sys s)" "command_over rid (wt_sys s)" using assms(2,3) by (simp_all add: wait_inv_def all_done_def)
  from command_over_step [OF this pool(2)] sent_kept [OF this(1) pool(2), of rid] over_quiet [of rid "wt_sys s" e] assms(3) pool show ?thesis
    by (simp add: all_done_def command_over_def)
next
  case call
  with assms(3) show ?thesis by (simp add: all_done_def)
next
  case (turn w)
  with assms(3) show ?thesis
    by (cases "wt_waiter s") (auto simp: all_done_def command_over_def waiter_turn_def split: if_splits)
qed

lemma all_done_run:
  assumes "run (wait_step notified notify ready rid) s es t" and "notify_laws notified notify ready"
    and "wait_inv notified ready rid s" and "all_done rid s"
  shows "wait_inv notified ready rid t \<and> all_done rid t \<and>
    turns_left (wt_waiter t) + length (filter (\<lambda>e. e = WaiterTurn) es) \<le> turns_left (wt_waiter s)"
  using assms
proof (induction rule: run.induct)
  case (run_cons s e t es u)
  from all_done_step [OF run_cons.prems(1-3) run_cons.hyps(1)] run_cons.IH [OF run_cons.prems(1)
      wait_inv_step [OF run_cons.prems(1,2) run_cons.hyps(1)]] show ?case
    by (auto split: if_splits)
qed simp

text \<open>
  C9: No wakeup is lost: in every interleaving of a waiter with the tasks of the pool, a waiter that sleeps on a future
  which is not ready, while no finisher owes a call, waits for a command that is still running.
\<close>

theorem no_lost_wakeup:
  assumes "notify_laws notified notify ready"
    and "reachable wait_init (wait_step notified notify ready rid) s"
    and "wt_waiter s = WaitAsleep f" and "\<not> ready (wt_notify s) f" and "wt_due s = 0"
  shows "\<exists>row. hget (handles (sp (wt_sys s))) rid = Some row \<and> hr_status row = Running"
proof -
  have "wait_inv notified ready rid s" using wt.inv_reachable [OF assms(2)] assms(1) by blast
  with assms(3-5) show ?thesis by (auto simp: wait_inv_def waiter_ok_def wait_returns_def split: option.splits)
qed

text \<open>
  C10: A waiter returns: once its command was sent and is over and the calls of its finishers are made, the waiter always has a turn
  until it has returned, and has returned after at most three of them, whatever the other tasks do between.
\<close>

theorem waiter_returns:
  assumes "notify_laws notified notify ready"
    and "reachable wait_init (wait_step notified notify ready rid) s"
    and "rid \<in> set (issued (wt_sys s)) - set (unsent (wt_sys s))" and "wait_returns rid (sp (wt_sys s))" and "wt_due s = 0"
    and "run (wait_step notified notify ready rid) s es t"
  shows "wt_waiter t = WaitOver \<or>
    length (filter (\<lambda>e. e = WaiterTurn) es) < 3 \<and> (\<exists>u. wait_step notified notify ready rid t WaiterTurn u)"
proof (rule disjCI)
  assume w: "\<not> (length (filter (\<lambda>e. e = WaiterTurn) es) < 3 \<and> (\<exists>u. wait_step notified notify ready rid t WaiterTurn u))"
  have "wait_inv notified ready rid s" using wt.inv_reachable [OF assms(2)] assms(1) by blast
  moreover have "all_done rid s" using assms(3-5) by (simp add: all_done_def command_over_def)
  ultimately have t: "wait_inv notified ready rid t" "all_done rid t"
    "turns_left (wt_waiter t) + length (filter (\<lambda>e. e = WaiterTurn) es) \<le> turns_left (wt_waiter s)"
    using all_done_run [OF assms(6,1)] by auto
  have "turns_left (wt_waiter s) \<le> 3" by (cases "wt_waiter s") simp_all
  with t w show "wt_waiter t = WaitOver"
    by (cases "wt_waiter t") (auto simp: wait_inv_def waiter_ok_def all_done_def command_over_def wait_step_def
      wait_apply_def waiter_turn_def)
qed

fun wait_events :: "waiting_event list \<Rightarrow> (nat, nat) wait_sys \<Rightarrow> (nat, nat) wait_sys option" where
  "wait_events [] s = Some s"
| "wait_events (e # es) s = (case wait_apply (\<lambda>n. n) Suc (\<lambda>n f. f < n) demo_c e s of
     None \<Rightarrow> None | Some t \<Rightarrow> wait_events es t)"

lemma wait_events_run: "wait_events es s = Some t \<longleftrightarrow> run (wait_step (\<lambda>n. n) Suc (\<lambda>n f. f < n) demo_c) s es t"
  by (induction es arbitrary: s) (auto simp: run_Cons_iff wait_step_def split: option.splits)

definition demo_waiting :: "(nat, nat) wait_sys" where
  "demo_waiting = \<lparr>wt_sys = empty_sys, wt_notify = 0, wt_due = 0, wt_waiter = WaitLookup\<rparr>"

text \<open>A waiter that falls asleep while the command of the demonstration runs, and what ends the command.\<close>

definition demo_asleep :: "waiting_event list" where
  "demo_asleep = map PoolStep demo_run @ [WaiterTurn, WaiterTurn, WaiterTurn]"

definition demo_woken :: "waiting_event list" where
  "demo_woken = demo_asleep @ [PoolStep (CloseBegin None demo_s 2), PoolStep (CloseSend demo_s Sent),
     PoolStep (ClosedEv demo_w demo_s None True 8), PoolStep (FinishEv demo_c 9), NotifyCall]"

lemma counting_laws: "notify_laws (\<lambda>n. n) Suc (\<lambda>n f. f < n)"
  by (simp add: notify_laws_def)

lemma demo_waiting_reachable:
  assumes "wait_events es demo_waiting = Some t"
  shows "reachable wait_init (wait_step (\<lambda>n. n) Suc (\<lambda>n f. f < n) demo_c) t"
  using assms unfolding wait_events_run
  by (rule run_reachable) (simp add: reach_init wait_init_def demo_waiting_def init_sys_def empty_sys_def)

theorem no_lost_wakeup_witness:
  "\<exists>row. hget (handles (sp (wt_sys (the (wait_events demo_asleep demo_waiting))))) demo_c = Some row \<and> hr_status row = Running"
proof -
  have e: "(case wait_events demo_asleep demo_waiting of None \<Rightarrow> False
      | Some s \<Rightarrow> wt_waiter s = WaitAsleep 0 \<and> wt_notify s = 0 \<and> wt_due s = 0)"
    by code_simp
  then obtain s where s: "wait_events demo_asleep demo_waiting = Some s" "wt_waiter s = WaitAsleep 0" "wt_notify s = 0" "wt_due s = 0"
    by (auto split: option.splits)
  from no_lost_wakeup [OF counting_laws demo_waiting_reachable [OF s(1)] s(2)] s(1,3,4) show ?thesis by simp
qed

theorem waiter_returns_witness:
  "wt_waiter (the (wait_events (demo_woken @ [WaiterTurn, WaiterTurn, WaiterTurn]) demo_waiting)) = WaitOver"
proof -
  have e: "(case wait_events demo_woken demo_waiting of None \<Rightarrow> False
      | Some s \<Rightarrow> demo_c \<in> set (issued (wt_sys s)) - set (unsent (wt_sys s)) \<and> wait_returns demo_c (sp (wt_sys s)) \<and> wt_due s = 0 \<and>
          (case wait_events [WaiterTurn, WaiterTurn, WaiterTurn] s of None \<Rightarrow> False | Some t \<Rightarrow> True))"
    by code_simp
  then obtain s t where s: "wait_events demo_woken demo_waiting = Some s" "demo_c \<in> set (issued (wt_sys s)) - set (unsent (wt_sys s))"
      "wait_returns demo_c (sp (wt_sys s))" "wt_due s = 0"
    and t: "wait_events [WaiterTurn, WaiterTurn, WaiterTurn] s = Some t"
    by (auto split: option.splits)
  have "wt_waiter t = WaitOver"
    using waiter_returns [OF counting_laws demo_waiting_reachable [OF s(1)] s(2-4) t [unfolded wait_events_run]] by simp
  moreover have "wait_events (demo_woken @ [WaiterTurn, WaiterTurn, WaiterTurn]) demo_waiting = Some t"
    using run_append [OF s(1) [unfolded wait_events_run] t [unfolded wait_events_run]] by (simp only: wait_events_run)
  ultimately show ?thesis by simp
qed

end
