(* ===== verification/Telemetry.thy ===== *)
theory Telemetry
  imports Prelude
begin

text \<open>
  The export of spans and metrics: \<open>shiitake-server/src/telemetry.rs\<close>.  What the SDK answers (whether an exporter can
  be built, whether a provider shuts down) and the two variables of the environment are arguments; a provider is
  named by the builder of the exporter it carries.
\<close>

section \<open>Choosing the exporters\<close>

datatype transport = Grpc | HttpProtobuf | HttpJson

definition otlp_protocol :: "string option \<Rightarrow> transport" where
  "otlp_protocol var = (if var = Some ''grpc'' then Grpc else if var = Some ''http/json'' then HttpJson else HttpProtobuf)"

text \<open>The builders of the library: \<open>with_tonic()\<close>, or \<open>with_http()\<close> with one of its two encodings.\<close>

datatype http_encoding = EncodeBinary | EncodeJson

datatype exporter = WithTonic | WithHttp http_encoding

fun build_span_exporter :: "(exporter \<Rightarrow> string option) \<Rightarrow> transport \<Rightarrow> string + exporter" where
  "build_span_exporter fails transport =
     (let b = (case transport of Grpc \<Rightarrow> WithTonic | HttpProtobuf \<Rightarrow> WithHttp EncodeBinary | HttpJson \<Rightarrow> WithHttp EncodeJson)
      in case fails b of Some e \<Rightarrow> Inl (''build OTLP span exporter: '' @ e) | None \<Rightarrow> Inr b)"

fun build_metric_exporter :: "(exporter \<Rightarrow> string option) \<Rightarrow> transport \<Rightarrow> string + exporter" where
  "build_metric_exporter fails transport =
     (let b = (case transport of Grpc \<Rightarrow> WithTonic | HttpProtobuf \<Rightarrow> WithHttp EncodeBinary | HttpJson \<Rightarrow> WithHttp EncodeJson)
      in case fails b of Some e \<Rightarrow> Inl (''build OTLP metric exporter: '' @ e) | None \<Rightarrow> Inr b)"

section \<open>The life of the providers\<close>

record telemetry =
  tracer_provider :: "exporter option"
  meter_provider :: "exporter option"

definition no_telemetry :: telemetry where
  "no_telemetry = \<lparr>tracer_provider = None, meter_provider = None\<rparr>"

text \<open>The steps with an effect, in the order of the code; a failed shutdown is logged with its error.\<close>

datatype telemetry_step =
    CryptoPresent
  | SetMeterProvider exporter
  | SetTracerProvider exporter
  | LogsOnly
  | LogsAndSpans
  | TracerShutdown "string option"
  | MeterShutdown "string option"

record telemetry_world =
  tw_crypto_present :: bool
  tw_endpoint :: "string option"
  tw_protocol :: "string option"
  tw_metric_fails :: "exporter \<Rightarrow> string option"
  tw_span_fails :: "exporter \<Rightarrow> string option"
  tw_tracer_shutdown :: "string option"
  tw_meter_shutdown :: "string option"

definition telemetry_init :: "telemetry_world \<Rightarrow> telemetry_step list \<times> (string + telemetry)" where
  "telemetry_init tw =
     (let crypto = (if tw_crypto_present tw then [CryptoPresent] else [])
      in if tw_endpoint tw = None then (crypto @ [LogsOnly], Inr no_telemetry)
         else let protocol = otlp_protocol (tw_protocol tw)
              in case build_metric_exporter (tw_metric_fails tw) protocol of
                   Inl e \<Rightarrow> (crypto, Inl e)
                 | Inr mp \<Rightarrow>
                     (case build_span_exporter (tw_span_fails tw) protocol of
                       Inl e \<Rightarrow> (crypto @ [SetMeterProvider mp], Inl e)
                     | Inr tp \<Rightarrow> (crypto @ [SetMeterProvider mp, SetTracerProvider tp, LogsAndSpans],
                                  Inr \<lparr>tracer_provider = Some tp, meter_provider = Some mp\<rparr>)))"

definition telemetry_shutdown :: "telemetry_world \<Rightarrow> telemetry \<Rightarrow> telemetry_step list" where
  "telemetry_shutdown tw t =
     (if tracer_provider t = None then [] else [TracerShutdown (tw_tracer_shutdown tw)]) @
     (if meter_provider t = None then [] else [MeterShutdown (tw_meter_shutdown tw)])"

section \<open>What is installed is shut down\<close>

lemma init_cases:
  assumes "telemetry_init tw = (installed, Inr t)"
  obtains (logs) "tw_endpoint tw = None" "t = no_telemetry"
      "installed = (if tw_crypto_present tw then [CryptoPresent] else []) @ [LogsOnly]"
    | (export) b where "tw_endpoint tw \<noteq> None" "t = \<lparr>tracer_provider = Some b, meter_provider = Some b\<rparr>"
      "installed = (if tw_crypto_present tw then [CryptoPresent] else []) @
         [SetMeterProvider b, SetTracerProvider b, LogsAndSpans]"
  using assms by (fastforce simp: telemetry_init_def Let_def split: if_splits sum.splits option.splits)

text \<open>After a successful \<open>init\<close> the providers that \<open>shutdown\<close> flushes are exactly those made global, the tracer before
  the meter, and the second is tried whether or not the first fails; both carry the same transport, and without an
  endpoint there is neither.\<close>

lemma shutdown_matches_init:
  assumes "telemetry_init tw = (installed, Inr t)"
  shows "telemetry_shutdown tw t = (if tw_endpoint tw = None then []
      else [TracerShutdown (tw_tracer_shutdown tw), MeterShutdown (tw_meter_shutdown tw)])"
    and "(\<exists>b. SetTracerProvider b \<in> set installed) \<longleftrightarrow> tw_endpoint tw \<noteq> None"
    and "(\<exists>b. SetMeterProvider b \<in> set installed) \<longleftrightarrow> tw_endpoint tw \<noteq> None"
    and "SetTracerProvider b \<in> set installed \<longleftrightarrow> SetMeterProvider b \<in> set installed"
  using assms by (cases rule: init_cases; auto simp: telemetry_shutdown_def no_telemetry_def)+

text \<open>An unknown protocol is the default one.\<close>

lemma unknown_protocol: "otlp_protocol (Some ''http/protobuf'') = otlp_protocol (Some ''zipkin'')" "otlp_protocol None = HttpProtobuf"
  by (simp_all add: otlp_protocol_def)

end
