(* ===== verification/ServerMain.thy ===== *)
theory ServerMain
  imports HttpSockets WorkerLoop Telemetry
begin

text \<open>
  The two processes: \<open>shiitake-server/src/main.rs\<close> with \<open>serve.rs\<close> (from the configuration to the end of the
  process, the telemetry of theory \<open>Telemetry\<close> included), and \<open>shiitake-worker/src/main.rs\<close>.  The parsers of
  \<open>serde_json\<close> and of socket addresses, the cluster client and the listeners are arguments; the environment and the
  flags are the record that \<open>clap\<close> fills.
\<close>

section \<open>The configuration of the server\<close>

record server_config =
  sc_host :: string
  sc_port :: "16 word"
  sc_dispatch_host :: string
  sc_dispatch_port :: "16 word"
  sc_dispatch_token :: string
  sc_profile_tokens :: string
  sc_default_workdir :: string
  sc_auth_token :: string
  sc_max_body_bytes :: nat
  sc_capture_root :: path
  sc_min_ready_workers :: nat
  sc_pty_keepalive_secs :: nat
  sc_pod_name :: string
  sc_pod_namespace :: string

text \<open>The loop over the profile tokens, in the order of their map.\<close>

definition check_profile_tokens :: "string \<Rightarrow> (string \<times> string) list \<Rightarrow> string + unit" where
  "check_profile_tokens dispatch_token extra = check_tokens [dispatch_token] extra"

definition app_state_of :: "server_config \<Rightarrow> (string \<Rightarrow> string \<Rightarrow> string \<Rightarrow> bool) \<Rightarrow> app_state" where
  "app_state_of cfg probe = \<lparr>
     as_config = \<lparr>cfg_probe = Some probe, pool_config.cfg_pod_name = sc_pod_name cfg,
       cfg_namespace = sc_pod_namespace cfg, pool_config.cfg_capture_root = sc_capture_root cfg\<rparr>,
     as_auth_token = sc_auth_token cfg, as_default_workdir = sc_default_workdir cfg,
     as_max_body_bytes = sc_max_body_bytes cfg, as_min_ready = sc_min_ready_workers cfg,
     as_keepalive = 1000 * sc_pty_keepalive_secs cfg\<rparr>"

definition listen_text :: "string \<Rightarrow> 16 word \<Rightarrow> string" where
  "listen_text host port = host @ '':'' @ show_nat (unat port)"

text \<open>The periods of the two background loops, in milliseconds.\<close>

definition sweep_interval :: time where "sweep_interval = 60 * 1000"
definition idle_ttl :: time where "idle_ttl = 60 * 60 * 1000"
definition keepalive_interval :: time where "keepalive_interval = 10 * 1000"
definition keepalive_timeout :: time where "keepalive_timeout = 30 * 1000"

section \<open>Startup reconciliation\<close>

datatype reconcile_log = PurgedOrphans nat | KeptEntry path io_error | UnreadableRoot io_error

definition reconcile_capture :: "io_error + nat \<times> (path \<times> io_error) list \<Rightarrow> reconcile_log list" where
  "reconcile_capture outcome =
     (case outcome of
       Inr (removed, failed) \<Rightarrow>
         (if removed = 0 \<and> failed = [] then []
          else PurgedOrphans removed # map (\<lambda>(p, e). KeptEntry p e) failed)
     | Inl e \<Rightarrow> [UnreadableRoot e])"

section \<open>The life of the server process\<close>

text \<open>What ends the \<open>select!\<close> of \<open>serve::run\<close>, and what ends that of \<open>main\<close>.\<close>

datatype serve_end = ApiEnded "string option" | DispatchEnded "string option" | CtrlC

datatype main_end = ServeEnded serve_end | SweeperEnded | KeepaliveEnded

datatype 'a start_step =
    MadeCaptureRoot path
  | Reconciled "reconcile_log list"
  | BoundApi 'a
  | BoundDispatch 'a
  | Serving app_state "(string \<times> string) list"
  | Export "telemetry_step list"

record 'a outside =
  os_telemetry :: telemetry_world
  os_tokens :: "string \<Rightarrow> (string \<times> string) list option"
  os_probe :: "string + (string \<Rightarrow> string \<Rightarrow> string \<Rightarrow> bool)"
  os_mkdir :: "string option"
  os_orphans :: "io_error + nat \<times> (path \<times> io_error) list"
  os_addr :: "string \<Rightarrow> 'a option"
  os_bind_api :: "string option"
  os_bind_dispatch :: "string option"
  os_end :: main_end

definition serve_result :: "main_end \<Rightarrow> string + unit" where
  "serve_result e =
     (case e of
       ServeEnded CtrlC \<Rightarrow> Inr ()
     | ServeEnded (ApiEnded r) \<Rightarrow> (case r of None \<Rightarrow> Inr () | Some x \<Rightarrow> Inl x)
     | ServeEnded (DispatchEnded r) \<Rightarrow> (case r of None \<Rightarrow> Inr () | Some x \<Rightarrow> Inl x)
     | SweeperEnded \<Rightarrow> Inl ''sweeper exited unexpectedly''
     | KeepaliveEnded \<Rightarrow> Inl ''keepalive exited unexpectedly'')"

text \<open>\<open>serve::run\<close> up to its end, on the parsed addresses.\<close>

definition serve_run :: "'a outside \<Rightarrow> 'a \<Rightarrow> 'a \<Rightarrow> app_state \<Rightarrow> (string \<times> string) list \<Rightarrow>
    'a start_step list \<times> (string + unit)" where
  "serve_run out api disp st tokens =
     (case os_bind_api out of
       Some e \<Rightarrow> ([], Inl (''bind api: '' @ e))
     | None \<Rightarrow>
         (case os_bind_dispatch out of
           Some e \<Rightarrow> ([BoundApi api], Inl (''bind dispatch: '' @ e))
         | None \<Rightarrow> ([BoundApi api, BoundDispatch disp, Serving st tokens], serve_result (os_end out))))"

text \<open>\<open>main\<close>: the two tokens are non-empty by the parser of the command line, which ends the process with a usage
  message otherwise.  A panic anywhere aborts the process (the hook of \<open>main\<close>), so it has no branch here.\<close>

definition server_main :: "'a outside \<Rightarrow> server_config \<Rightarrow> 'a start_step list \<times> (string + unit)" where
  "server_main out cfg =
     (let (installed, r0) = telemetry_init (os_telemetry out); start = [Export installed]
      in case r0 of Inl e \<Rightarrow> (start, Inl e) | Inr telemetry \<Rightarrow>
      if sc_dispatch_token cfg = [] \<or> sc_auth_token cfg = [] then (start, Inl ''usage'')
      else case os_tokens out (sc_profile_tokens cfg) of
        None \<Rightarrow> (start, Inl ''parse SHIITAKE_PROFILE_TOKENS as a JSON object'')
      | Some extra \<Rightarrow>
          (case check_profile_tokens (sc_dispatch_token cfg) extra of
            Inl e \<Rightarrow> (start, Inl e)
          | Inr _ \<Rightarrow>
              (case os_probe out of
                Inl e \<Rightarrow> (start, Inl (''kube client init: '' @ e))
              | Inr probe \<Rightarrow>
                  (case os_mkdir out of
                    Some e \<Rightarrow> (start, Inl (''create capture root: '' @ e))
                  | None \<Rightarrow>
                      let steps = start @ [MadeCaptureRoot (sc_capture_root cfg), Reconciled (reconcile_capture (os_orphans out))]
                      in case build_tokens (sc_dispatch_token cfg) extra of
                          Inl e \<Rightarrow> (steps, Inl e)
                        | Inr tokens \<Rightarrow>
                            (case os_addr out (listen_text (sc_host cfg) (sc_port cfg)) of
                              None \<Rightarrow> (steps, Inl ''SHIITAKE_HOST:PORT'')
                            | Some api \<Rightarrow>
                                (case os_addr out (listen_text (sc_dispatch_host cfg) (sc_dispatch_port cfg)) of
                                  None \<Rightarrow> (steps, Inl ''SHIITAKE_DISPATCH_HOST:PORT'')
                                | Some disp \<Rightarrow>
                                    (let (more, r) = serve_run out api disp (app_state_of cfg probe) tokens
                                     in (steps @ more @ [Export (telemetry_shutdown (os_telemetry out) telemetry)], r))))))))"

section \<open>The worker process\<close>

text \<open>The process keeps its memory and environment from the commands it runs beside it, or panics; whatever the
  loop returns, its exit code is 0.  No code yet means that it still runs.\<close>

definition worker_main :: "bool \<Rightarrow> client_config \<Rightarrow> conn_script list \<Rightarrow> nat option \<times> worker_action list" where
  "worker_main undumpable cfg cns =
     (if \<not> undumpable then (Some 101, [])
      else case run_worker cfg cns 0 of
        (None, _, acts) \<Rightarrow> (None, acts) | (Some _, _, acts) \<Rightarrow> (Some 0, acts))"

section \<open>What a running server stands on\<close>

lemma build_tokens_checked:
  "d \<noteq> [] \<Longrightarrow> check_profile_tokens d extra = Inr () \<Longrightarrow> build_tokens d extra = Inr (insort_key fst (''default'', d) extra)"
  by (simp add: build_tokens_def check_profile_tokens_def)

lemma check_tokens_nonempty: "check_tokens ts extra = Inr u \<Longrightarrow> (q, t) \<in> set extra \<Longrightarrow> t \<noteq> [] \<and> valid_profile q"
  by (induction ts extra rule: check_tokens.induct) (auto split: if_splits)

text \<open>Past the checks of the tokens, a start fails at the first of its steps that does.\<close>

lemma start_failed:
  assumes assms: "server_main out cfg = (steps, r)" and tel: "telemetry_init (os_telemetry out) = (installed, Inr telemetry)"
    and c: "sc_dispatch_token cfg \<noteq> []" "sc_auth_token cfg \<noteq> []" "os_tokens out (sc_profile_tokens cfg) = Some extra"
    and check: "check_profile_tokens (sc_dispatch_token cfg) extra = Inr ()"
    and False: "\<not> (\<exists>probe api disp. os_probe out = Inr probe \<and> os_mkdir out = None \<and> os_bind_api out = None \<and> os_bind_dispatch out = None
          \<and> os_addr out (listen_text (sc_host cfg) (sc_port cfg)) = Some api
          \<and> os_addr out (listen_text (sc_dispatch_host cfg) (sc_dispatch_port cfg)) = Some disp)"
  shows "(\<exists>e. r = Inl e) \<and> (\<forall>st tokens. Serving st tokens \<notin> set steps)"
proof -
  note start = server_main_def tel c check build_tokens_checked [OF c(1) check] Let_def
  show ?thesis
  proof (cases "os_probe out")
    case (Inl e)
    then show ?thesis using assms by (simp add: start) fastforce
  next
    case probe: (Inr probe)
    show ?thesis
    proof (cases "os_mkdir out")
      case (Some e)
      then show ?thesis using assms probe by (simp add: start) fastforce
    next
      case root: None
      note start1 = start probe root
      show ?thesis
      proof (cases "os_addr out (listen_text (sc_host cfg) (sc_port cfg))")
        case None
        then show ?thesis using assms by (simp add: start1) fastforce
      next
        case api: (Some api)
        show ?thesis
        proof (cases "os_addr out (listen_text (sc_dispatch_host cfg) (sc_dispatch_port cfg))")
          case None
          then show ?thesis using assms by (simp add: start1 api) fastforce
        next
          case disp: (Some disp)
          then have "os_bind_api out \<noteq> None \<or> os_bind_dispatch out \<noteq> None" using False probe root api by auto
          then show ?thesis using assms
            by (cases "os_bind_api out") (fastforce simp: start1 api disp serve_run_def)+
        qed
      qed
    qed
  qed
qed

text \<open>
  C28: A server that serves stands on sound dispatch credentials: it serves at most once, after it ran the sweep of what
  an earlier process left in the store (what the sweep could not read or remove is only logged) and bound both
  listeners, and then shuts down exactly the telemetry providers it had installed, the second even if the first fails;
  the API asks for the configured non-empty token, and every dispatch token is non-empty, names one profile with a
  valid name, and is no other profile's.  (A dispatch token may equal the token of the API: \<open>shared_token_accepted\<close>.)
  A start that fails ends with an error, and no listener has served.
\<close>

theorem server_start_sound:
  assumes "server_main out cfg = (steps, r)"
  shows "(\<exists>st tokens api disp logs installed. steps = [Export installed, MadeCaptureRoot (sc_capture_root cfg), Reconciled logs,
        BoundApi api, BoundDispatch disp, Serving st tokens, Export (if \<exists>b. SetTracerProvider b \<in> set installed then
          [TracerShutdown (tw_tracer_shutdown (os_telemetry out)), MeterShutdown (tw_meter_shutdown (os_telemetry out))] else [])] \<and>
      (\<forall>b. SetTracerProvider b \<in> set installed \<longleftrightarrow> SetMeterProvider b \<in> set installed) \<and> logs = reconcile_capture (os_orphans out) \<and>
      os_addr out (listen_text (sc_host cfg) (sc_port cfg)) = Some api \<and>
      os_addr out (listen_text (sc_dispatch_host cfg) (sc_dispatch_port cfg)) = Some disp \<and>
      as_auth_token st = sc_auth_token cfg \<and> sc_auth_token cfg \<noteq> [] \<and>
      pool_config.cfg_capture_root (as_config st) = sc_capture_root cfg \<and>
      (''default'', sc_dispatch_token cfg) \<in> set tokens \<and> distinct (map snd tokens) \<and>
      set tokens \<subseteq> {(q, t). t \<noteq> [] \<and> valid_profile q} \<and> r = serve_result (os_end out)) \<or>
    (\<exists>e. r = Inl e) \<and> (\<forall>st tokens. Serving st tokens \<notin> set steps)"
proof -
  let ?fails = "(\<exists>e. r = Inl e) \<and> (\<forall>st tokens. Serving st tokens \<notin> set steps)"
  obtain installed r0 where tel: "telemetry_init (os_telemetry out) = (installed, r0)" by fastforce
  consider "(\<exists>e. r0 = Inl e) \<or> sc_dispatch_token cfg = [] \<or> sc_auth_token cfg = [] \<or> os_tokens out (sc_profile_tokens cfg) = None"
    | t extra where "r0 = Inr t" "sc_dispatch_token cfg \<noteq> []" "sc_auth_token cfg \<noteq> []"
        "os_tokens out (sc_profile_tokens cfg) = Some extra"
    by (cases r0) auto
  then show ?thesis
  proof cases
    case 1
    then have ?fails using assms by (cases r0) (auto simp: server_main_def tel Let_def split: option.splits if_splits)
    then show ?thesis ..
  next
    case (2 t extra)
    note c = this tel
    show ?thesis
    proof (cases "check_profile_tokens (sc_dispatch_token cfg) extra")
      case (Inl e)
      then have "steps = [Export installed]" "r = Inl e" using assms c by (auto simp: server_main_def)
      then show ?thesis by simp
    next
      case (Inr u)
      have u: "u = ()" by simp
      from Inr have t: "build_tokens (sc_dispatch_token cfg) extra = Inr (insort_key fst (''default'', sc_dispatch_token cfg) extra)"
        using build_tokens_checked [OF c(2)] by simp
      let ?tokens = "insort_key fst (''default'', sc_dispatch_token cfg) extra"
      have ok: "distinct (map snd ?tokens)" using build_tokens_ok [OF t] by simp
      have "valid_profile ''default''" by code_simp
      with c(2) Inr have sound: "set ?tokens \<subseteq> {(q, t). t \<noteq> [] \<and> valid_profile q}"
        by (auto simp: set_insort_key check_profile_tokens_def dest: check_tokens_nonempty)
      show ?thesis
      proof (cases "\<exists>probe api disp. os_probe out = Inr probe \<and> os_mkdir out = None \<and> os_bind_api out = None \<and> os_bind_dispatch out = None
          \<and> os_addr out (listen_text (sc_host cfg) (sc_port cfg)) = Some api
          \<and> os_addr out (listen_text (sc_dispatch_host cfg) (sc_dispatch_port cfg)) = Some disp")
        case True
        then obtain probe api disp where s: "os_probe out = Inr probe" "os_mkdir out = None" "os_bind_api out = None"
          "os_bind_dispatch out = None" "os_addr out (listen_text (sc_host cfg) (sc_port cfg)) = Some api"
          "os_addr out (listen_text (sc_dispatch_host cfg) (sc_dispatch_port cfg)) = Some disp" by blast
        note sh = shutdown_matches_init [OF tel [unfolded c(1)]]
        have flush: "telemetry_shutdown (os_telemetry out) t = (if \<exists>b. SetTracerProvider b \<in> set installed then
          [TracerShutdown (tw_tracer_shutdown (os_telemetry out)), MeterShutdown (tw_meter_shutdown (os_telemetry out))] else [])"
          using sh(1,2) by simp
        from s have "steps = [Export installed, MadeCaptureRoot (sc_capture_root cfg), Reconciled (reconcile_capture (os_orphans out)), BoundApi api,
            BoundDispatch disp, Serving (app_state_of cfg probe) ?tokens,
            Export (telemetry_shutdown (os_telemetry out) t)]" "r = serve_result (os_end out)"
          using assms c Inr t by (simp_all add: server_main_def serve_run_def)
        moreover have "as_auth_token (app_state_of cfg probe) = sc_auth_token cfg"
          "pool_config.cfg_capture_root (as_config (app_state_of cfg probe)) = sc_capture_root cfg"
          "(''default'', sc_dispatch_token cfg) \<in> set ?tokens" by (simp_all add: app_state_of_def set_insort_key)
        ultimately show ?thesis using c(3) s(5,6) ok sound sh(4) unfolding flush by blast
      next
        case False
        from start_failed [OF assms tel [unfolded c(1)] c(2-4) Inr [unfolded u] this] show ?thesis by blast
      qed
    qed
  qed
qed

definition demo_server :: server_config where
  "demo_server = \<lparr>sc_host = ''0.0.0.0'', sc_port = 8080, sc_dispatch_host = ''127.0.0.1'', sc_dispatch_port = 8090,
     sc_dispatch_token = ''t'', sc_profile_tokens = ''{}'', sc_default_workdir = ''/'', sc_auth_token = ''a'',
     sc_max_body_bytes = 1024, sc_capture_root = [''capture''], sc_min_ready_workers = 1, sc_pty_keepalive_secs = 10,
     sc_pod_name = ''shiitake'', sc_pod_namespace = []\<rparr>"

definition demo_telemetry :: telemetry_world where
  "demo_telemetry = \<lparr>tw_crypto_present = False, tw_endpoint = Some ''http://localhost:4318'', tw_protocol = None,
     tw_metric_fails = (\<lambda>_. None), tw_span_fails = (\<lambda>_. None), tw_tracer_shutdown = Some ''timeout'', tw_meter_shutdown = None\<rparr>"

definition demo_outside_world :: "nat outside" where
  "demo_outside_world = \<lparr>os_telemetry = demo_telemetry, os_tokens = (\<lambda>_. Some [(''root'', ''u'')]), os_probe = Inr (\<lambda>_ _ _. False),
     os_mkdir = None, os_orphans = Inr (2, []), os_addr = (\<lambda>s. Some 0), os_bind_api = None,
     os_bind_dispatch = None, os_end = ServeEnded CtrlC\<rparr>"

theorem server_start_sound_witness:
  "\<exists>st tokens. Serving st tokens \<in> set (fst (server_main demo_outside_world demo_server)) \<and> distinct (map snd tokens)"
proof -
  let ?m = "server_main demo_outside_world demo_server"
  have "check_tokens [''t''] [(''root'', ''u'')] = Inr ()" by code_simp
  then have "snd ?m = Inr ()"
    by (simp add: server_main_def demo_outside_world_def demo_telemetry_def telemetry_init_def demo_server_def check_profile_tokens_def build_tokens_def
      serve_run_def serve_result_def Let_def)
  then show ?thesis
    using server_start_sound [OF prod.collapse [symmetric], of demo_outside_world demo_server] by fastforce
qed

text \<open>Nothing compares the token of the API with those of the dispatch endpoint: a server starts with one token for
  both, and then a worker holds the token of the API.\<close>

lemma shared_token_accepted:
  "snd (server_main demo_outside_world (demo_server\<lparr>sc_auth_token := ''t''\<rparr>)) = Inr () \<and>
   connect_scoped [(''default'', ''t''), (''root'', ''u'')] (Some ''Bearer t'') = Some ''default''"
proof -
  have "check_tokens [''t''] [(''root'', ''u'')] = Inr ()" by code_simp
  then have "snd (server_main demo_outside_world (demo_server\<lparr>sc_auth_token := ''t''\<rparr>)) = Inr ()"
    by (simp add: server_main_def demo_outside_world_def demo_telemetry_def telemetry_init_def demo_server_def check_profile_tokens_def build_tokens_def
      serve_run_def serve_result_def Let_def)
  moreover have "connect_scoped [(''default'', ''t''), (''root'', ''u'')] (Some ''Bearer t'') = Some ''default''" by code_simp
  ultimately show ?thesis ..
qed

section \<open>Silent workers\<close>

text \<open>The ticker of the loop is an argument: \<open>ticker prev at\<close> is when the tick asked for at \<open>at\<close> completes, the one
  before having completed at \<open>prev\<close>.  An interval whose missed ticks are delayed is on time up to a slack: the next
  tick completes a period after the last, or at once when it is asked for later than that.\<close>

definition on_time :: "time \<Rightarrow> time \<Rightarrow> (time \<Rightarrow> time \<Rightarrow> time) \<Rightarrow> bool" where
  "on_time interval slack ticker \<longleftrightarrow> (\<forall>prev at. max prev at \<le> ticker prev at \<and> prev + interval \<le> ticker prev at + slack \<and>
     ticker prev at \<le> max at (prev + interval) + slack)"

text \<open>The loop over the ticks it comes to, each with the pool it meets and how its pings go: the time of every tick and
  what it did.  It asks for the next tick when all workers have been seen to.\<close>

type_synonym keepalive_round = "(worker_id \<Rightarrow> time \<times> send_outcome) \<times> pool"

fun run_keepalive :: "(time \<Rightarrow> time \<Rightarrow> time) \<Rightarrow> nat \<Rightarrow> time \<Rightarrow> time \<Rightarrow> keepalive_round list \<Rightarrow> (time \<times> effect list) list" where
  "run_keepalive ticker limit prev at [] = []"
| "run_keepalive ticker limit prev at ((send, p) # rounds) =
     (let now = ticker prev at; (fx, spent) = keepalive_tick now limit send p
      in (now, fx) # run_keepalive ticker limit now (now + spent) rounds)"

text \<open>A worker that was last heard of at a time, is used by the pool, and is used on its connection.\<close>

definition silent_since :: "worker_id \<Rightarrow> conn \<Rightarrow> time \<Rightarrow> pool \<Rightarrow> bool" where
  "silent_since w c t p \<longleftrightarrow> (case hget (liveness p) w of None \<Rightarrow> False | Some l \<Rightarrow> lv_last_seen l = t \<and> lv_shutdown l = c)"

definition in_use :: "worker_id \<Rightarrow> pool \<Rightarrow> bool" where
  "in_use w p \<longleftrightarrow> list_ex (\<lambda>e. we_id e = w) (idle p) \<or> list_ex (\<lambda>(_, e). pe_worker e = w) (inflight p) \<or>
     list_ex (\<lambda>(v, sid). v = w \<and> hhas (sessions p) sid) (worker_sessions p)"

definition used_on :: "conn \<Rightarrow> worker_id \<Rightarrow> pool \<Rightarrow> bool" where
  "used_on c w p \<longleftrightarrow> list_all (\<lambda>e. we_id e = w \<longrightarrow> we_sink e = c) (idle p) \<and>
     list_all (\<lambda>(_, e). pe_worker e = w \<longrightarrow> pe_sink e = c) (inflight p) \<and>
     list_all (\<lambda>(v, sid). v = w \<longrightarrow> (case hget (sessions p) sid of None \<Rightarrow> True | Some r \<Rightarrow> sr_sink r = c)) (worker_sessions p)"

lemma first_by_subset: "set (first_by key ks xs) \<subseteq> set xs"
  by (induction key ks xs rule: first_by.induct) auto

lemma keepalive_target:
  assumes "silent_since w c t p" and "in_use w p" and "used_on c w p"
  shows "(w, c, t, c) \<in> set (keepalive_targets p)"
proof -
  let ?xs = "map (\<lambda>e. (we_id e, we_sink e)) (idle p) @ map (\<lambda>(_, e). (pe_worker e, pe_sink e)) (inflight p)
    @ List.map_filter (\<lambda>(w, sid). map_option (\<lambda>r. (w, sr_sink r)) (hget (sessions p) sid)) (worker_sessions p)"
  obtain l where l: "hget (liveness p) w = Some l" "lv_last_seen l = t" "lv_shutdown l = c"
    using assms(1) by (auto simp: silent_since_def split: option.splits)
  have "(\<exists>sid. (w, sid) \<in> set (worker_sessions p) \<and> hhas (sessions p) sid) \<or> w \<in> we_id ` set (idle p) \<or>
      w \<in> (\<lambda>(_, e). pe_worker e) ` set (inflight p)"
    using assms(2) by (auto simp: in_use_def list_ex_iff image_iff)
  then have "w \<in> fst ` set (keepalive_targets p)" using keepalive_reach [of p] l(1) by (auto simp: hhas_def)
  then obtain sink where s: "(w, sink) \<in> set (first_by fst [] ?xs)" unfolding keepalive_targets_alt by auto
  then have "(w, sink) \<in> set ?xs" using first_by_subset by fast
  then have "sink = c" using assms(3)
    by (auto simp: used_on_def list_all_iff List.map_filter_def split: option.splits)
  with s l show ?thesis unfolding keepalive_targets_alt by (force simp: hhas_def)
qed

lemma keepalive_targets_registered: "length (keepalive_targets p) \<le> length (liveness p)"
proof -
  have d: "distinct (map fst (keepalive_targets p))" and w: "w \<in> fst ` set (keepalive_targets p) \<Longrightarrow> hhas (liveness p) w" for w
    using keepalive_reach [of p] by blast+
  have "set (map fst (keepalive_targets p)) \<subseteq> set (map fst (liveness p))"
    using w by (force simp: hhas_def dest: hget_in_set)
  from card_mono [OF _ this] distinct_card [OF d] card_length [of "map fst (liveness p)"] show ?thesis by simp
qed

lemma keepalive_silent:
  assumes "silent_since w c t p" and "in_use w p" and "used_on c w p"
  shows "t + limit < now \<Longrightarrow> NotifyShutdown c \<in> set (fst (keepalive_tick now limit send p))"
    and "now \<le> t + limit \<Longrightarrow> effect.SendFrame c (Ping []) \<in> set (fst (keepalive_tick now limit send p))"
    and "snd (keepalive_tick now limit send p) \<le> ping_limit * length (liveness p)"
proof -
  have sub: "set (fst (keepalive_worker now limit send (w, c, t, c))) \<subseteq> set (fst (keepalive_tick now limit send p))"
    using keepalive_target [OF assms] by (auto simp: keepalive_tick_def keepalive_workers_effects)
  show "NotifyShutdown c \<in> set (fst (keepalive_tick now limit send p))" if "t + limit < now"
  proof -
    from that have "limit < now - t" by simp
    with sub keepalive_worker_shutdown [of c now limit send w c t c] show ?thesis by blast
  qed
  show "effect.SendFrame c (Ping []) \<in> set (fst (keepalive_tick now limit send p))" if "now \<le> t + limit"
    using sub that by (auto simp: keepalive_worker_def Let_def split_beta)
  have "snd (keepalive_tick now limit send p) \<le> ping_limit * length (keepalive_targets p)"
    unfolding keepalive_tick_def by (rule keepalive_workers_time)
  also have "\<dots> \<le> ping_limit * length (liveness p)" using keepalive_targets_registered by simp
  finally show "snd (keepalive_tick now limit send p) \<le> ping_limit * length (liveness p)" .
qed

text \<open>
  C36: A worker in use that falls silent is pinged and then given up in time.  Let the worker be idle, run a command or
  hold a listed session at every tick, on the connection it registered with, and be silent from some time on, and let
  at most \<open>n\<close> workers be registered, each ping taking up to two seconds before it is given up.  Then, if the loop
  goes on for long enough, it comes to a tick after the limit; the first such tick comes at most the longer of an interval
  and the \<open>n\<close> pings after the limit (and the slack of the ticker), and tells the connection of the worker to end, and
  every tick before it has pinged the worker on its connection.
\<close>

theorem silent_worker_evicted:
  assumes "on_time interval slack ticker" and "prev \<le> t + limit" and "at \<le> prev + ping_limit * n"
    and "\<forall>(send, p) \<in> set rounds. silent_since w c t p \<and> in_use w p \<and> used_on c w p \<and> length (liveness p) \<le> n"
    and "t + limit < prev + (interval - slack) * length rounds"
  shows "\<exists>now fx rest. dropWhile (\<lambda>(u, _). u \<le> t + limit) (run_keepalive ticker limit prev at rounds) = (now, fx) # rest \<and>
    now \<le> t + limit + max interval (ping_limit * n) + slack \<and> NotifyShutdown c \<in> set fx \<and>
    (\<forall>(u, gx) \<in> set (takeWhile (\<lambda>(u, _). u \<le> t + limit) (run_keepalive ticker limit prev at rounds)).
      effect.SendFrame c (Ping []) \<in> set gx)"
  using assms(2-)
proof (induction rounds arbitrary: prev at)
  case Nil
  then show ?case by simp
next
  case (Cons x rounds)
  obtain send p where x: "x = (send, p)" by fastforce
  obtain fx spent where k: "keepalive_tick (ticker prev at) limit send p = (fx, spent)" by fastforce
  have p: "silent_since w c t p" "in_use w p" "used_on c w p" "length (liveness p) \<le> n" using Cons.prems(3) x by auto
  note ks = keepalive_silent [OF p(1-3), where limit = limit and now = "ticker prev at" and send = send, unfolded k fst_conv snd_conv]
  have on: "prev \<le> ticker prev at" "prev + interval \<le> ticker prev at + slack" "ticker prev at \<le> max at (prev + interval) + slack"
    using assms(1) by (simp_all add: on_time_def)
  have run: "run_keepalive ticker limit prev at (x # rounds) = (ticker prev at, fx) #
      run_keepalive ticker limit (ticker prev at) (ticker prev at + spent) rounds"
    by (simp add: x k Let_def)
  show ?case
  proof (cases "ticker prev at \<le> t + limit")
    case True
    have "ping_limit * length (liveness p) \<le> ping_limit * n" using p(4) by simp
    then have spent: "ticker prev at + spent \<le> ticker prev at + ping_limit * n" using ks(3) by linarith
    have "prev + (interval - slack) \<le> ticker prev at" using on(1,2) by linarith
    then have far: "t + limit < ticker prev at + (interval - slack) * length rounds" using Cons.prems(4) by simp
    have rest: "\<forall>(send, p) \<in> set rounds. silent_since w c t p \<and> in_use w p \<and> used_on c w p \<and> length (liveness p) \<le> n"
      using Cons.prems(3) by simp
    from Cons.IH [OF True spent rest far] ks(2) [OF True] True show ?thesis unfolding run by simp
  next
    case False
    then have "NotifyShutdown c \<in> set fx" using ks(1) by simp
    moreover have "ticker prev at \<le> t + limit + max interval (ping_limit * n) + slack"
      using on(3) Cons.prems(1,2) by linarith
    ultimately show ?thesis using False unfolding run by simp
  qed
qed

text \<open>With the periods of \<open>main\<close> and one worker, silence is found within 40 seconds, before the worker's own lease of 45
  runs out; it takes eight workers that answer no ping at all to make a tick later than that.\<close>

theorem silent_worker_evicted_witness:
  "\<exists>now fx. now \<le> 40001 \<and> NotifyShutdown 7 \<in> set fx \<and> (now, fx) \<in> set (run_keepalive
     (\<lambda>prev at. max at (prev + keepalive_interval)) keepalive_timeout 0 0 (replicate 4 (\<lambda>_. (3, Sent), one_worker)))"
proof -
  let ?t = "\<lambda>prev at. max at (prev + keepalive_interval)" and ?r = "replicate 4 (\<lambda>_. (3, Sent), one_worker)"
  have on: "on_time keepalive_interval 0 ?t" by (simp add: on_time_def max_def)
  have "silent_since demo_w 7 1 one_worker \<and> in_use demo_w one_worker \<and> used_on 7 demo_w one_worker \<and>
      length (liveness one_worker) \<le> 1"
    by code_simp
  then have r: "\<forall>(send, p) \<in> set ?r. silent_since demo_w 7 1 p \<and> in_use demo_w p \<and> used_on 7 demo_w p \<and> length (liveness p) \<le> 1"
    by simp
  have start: "0 \<le> 1 + keepalive_timeout" "0 \<le> 0 + ping_limit * 1"
    and far: "1 + keepalive_timeout < 0 + (keepalive_interval - 0) * length ?r"
    by (simp_all add: keepalive_timeout_def keepalive_interval_def)
  from silent_worker_evicted [OF on start r far] obtain now fx rest where
    d: "dropWhile (\<lambda>(u, _). u \<le> 1 + keepalive_timeout) (run_keepalive ?t keepalive_timeout 0 0 ?r) = (now, fx) # rest"
    and n: "now \<le> 1 + keepalive_timeout + max keepalive_interval (ping_limit * 1) + 0" "NotifyShutdown 7 \<in> set fx"
    by blast
  have "(now, fx) \<in> set (run_keepalive ?t keepalive_timeout 0 0 ?r)" using set_dropWhileD d by (metis list.set_intros(1))
  moreover have "now \<le> 40001" using n(1) by (simp add: keepalive_timeout_def keepalive_interval_def ping_limit_def)
  ultimately show ?thesis using n(2) by blast
qed

text \<open>A worker pinned to a legacy terminal is in none of the three places, so the loop does not look at it; the terminal
  pings it itself.\<close>

lemma pinned_worker_not_pinged: "keepalive_targets (snd (acquire_pinned 1 one_worker)) = []"
  by code_simp

end
