(* ===== verification/Spec2Isabelle.thy ===== *)
theory Spec2Isabelle
  imports PoolQueries PoolRefine PoolMixed Isolation Deployment RustClient WorkerJobs Reset Exec Terminals Waiting ServerMain
begin

text \<open>
  A verification library of shiitake, a service that runs commands in sandboxed workers.

  \<^bold>\<open>The program.\<close>  A client talks HTTP to the server (\<open>shiitake-server\<close>), which keeps a pool of workers.
  A worker (\<open>shiitake-worker\<close>) is a resident process in a container of its own: it connects to the
  server's dispatch socket, says Hello under a profile, and waits for work.  A session leases one worker
  to one client: the worker starts a shell, the client submits commands, stateful ones that change the
  shell and parallel ones that start from its state, and may attach a terminal.  When the session is
  closed the worker resets its sandbox, reports whether it can be reused, and only then returns to the
  idle queue.  The output of commands is shipped over the dispatch socket and spooled by the server, which
  serves it from files.

  \<^bold>\<open>Shared parts.\<close>
  \<^item> \<open>Prelude\<close>: the standard maps as association lists behind the locale \<open>hash_map\<close>; step relations with
    the locales \<open>step_invariant\<close> and \<open>stable_fact\<close>, which prove once that invariants hold in reachable
    states and that stable facts last.
  \<^item> \<open>Traces\<close>: loops that turn inputs into effects (\<open>drive\<close>), monitors of traces, and the locale
    \<open>monitored_loop\<close>: a loop whose turns move a monitor along leaves only accepted traces.
  \<^item> \<open>RustText\<close>: \<open>trim\<close>, \<open>split\<close>, \<open>lines\<close>, \<open>parse\<close> and \<open>to_string\<close> of Rust on UTF-8 bytes.  A \<open>string\<close> of
    the model is the list of the UTF-8 bytes of the Rust string.

  \<^bold>\<open>The contracts.\<close>
  \<^item> \<open>WireApi\<close> (\<open>shiitake-worker-api/src/lib.rs\<close>): frames and identifiers, and the binary output chunk at the
    level of bytes; the locale \<open>byte_codec\<close> states what a codec owes its users and is interpreted on
    \<open>encode\<close> and \<open>decode\<close>.  A text message carries a frame: its JSON rendering is serde's.
  \<^item> \<open>CaptureStore\<close> (\<open>capture.rs\<close> and the openers of \<open>pool/mod.rs\<close>): the layout of the spool, its purge and
    reconciliation, and the descriptor-relative opening that never follows a link.
  \<^item> \<open>ServerApi\<close> (\<open>shiitake-server-api\<close> and the request side of \<open>http/sessions.rs\<close>): types, the validation of
    a request and the minting of public identifiers.

  \<^bold>\<open>The pool\<close> (\<open>shiitake-server/src/pool/mod.rs\<close>).
  \<^item> \<open>PoolState\<close>: the state behind the mutex, field by field, and the read-only snapshots.
  \<^item> \<open>PoolHandles\<close>, \<open>PoolSessions\<close>, \<open>PoolConn\<close>: every operation as the composition of its critical sections.
    A section is one definition (\<open>create_reserve\<close>, \<open>close_begin\<close>, \<open>submit_register\<close>, \<open>close_take\<close>,
    \<open>drop_inflight\<close>, \<open>drop_worker\<close>, \<open>complete_take\<close>, \<open>finish_row\<close>).  Between two sections other tasks may
    run: the handlers take a \<open>world\<close> whose \<open>w_yield\<close> and \<open>w_wait\<close> are any functions on the pool, besides the clock
    and the outcomes of sends and waits.  The read loop of a worker is \<open>read_step\<close>, one message a step.
  \<^item> \<open>PoolInv\<close>, \<open>PoolCore\<close>, \<open>PoolHeld\<close>: the invariant of the pool and the part of it that every section keeps whatever
    workers do, with one preservation lemma for each section.
  \<^item> \<open>PoolSystem\<close>, \<open>PoolReach\<close>: the pool as a transition system in which every section of the session API, of the
    session-less one (\<open>/exec\<close> and legacy terminals) and of the connections is one step, in any interleaving; tasks
    that hold something between their sections, a worker taken out of the queue included, are part of the state.
    Assumed: a new session or handle has a fresh identifier (80 random bits), a client names only sessions it was
    told about, and a connection is new.  Nothing is assumed of what a worker reports.  \<open>PoolReach\<close> proves what holds in
    every reachable state.
  \<^item> \<open>PoolLease\<close>: the \<^emph>\<open>orderly\<close> runs, and the invariant that leases are exclusive in them.  Two things have to be so
    that the code does not check: a worker reports only the session it holds as closed, and a worker that the
    session-less API gives back is still on the connection it was taken with.  Properties stated for orderly runs are
    those of leases: one session per worker, one use per worker, the refinement.
  \<^item> \<open>PoolMixed\<close>: sessions, legacy commands and pinned terminals on the same workers, one use at a time; and runs that
    are not orderly, down to a reachable state in which two live sessions hold one worker.
  \<^item> \<open>Isolation\<close>: what the pool and its tasks hold of one session, and that no step, orderly or not, that does not
    concern the session changes it.
  \<^item> \<open>PoolProps\<close>, \<open>PoolQueries\<close>: the properties of reachable states and of the handlers, of the sweeper, the
    keepalive pinger and the reports, and the traces behind the findings.
  \<^item> \<open>PoolRefine\<close>: the small specification clients may rely on (exclusive leases, sessions that only move
    forward, commands that run under their session's lease and get one final outcome) and the
    simulation by which the pool implements it; the locale \<open>simulation\<close> carries runs over.
  \<^item> \<open>Waiting\<close>: \<open>wait_for_terminal\<close> turn by turn beside the steps of the pool; no wakeup is lost, and a waiter
    returns.  The notification of tokio is an argument with the documented law that a call wakes every
    future made before it.
  \<^item> \<open>OomProbe\<close> (\<open>pool/k8s_status.rs\<close>): the polling of the Kubernetes API, whose answers are an argument.

  \<^bold>\<open>The HTTP layer\<close> (\<open>shiitake-server/src/http\<close>).
  \<^item> \<open>HttpApi\<close>: the handlers of \<open>sessions.rs\<close>, \<open>exec.rs\<close> and \<open>health.rs\<close> and the router of \<open>mod.rs\<close> with its
    bearer check; shown are what a request without the token or for a foreign handle can do.
  \<^item> \<open>HttpSockets\<close>: dispatch credentials and registration (\<open>mod.rs\<close>, \<open>dispatch.rs\<close>), the terminal of a session
    (\<open>sessions.rs\<close>) and the legacy terminal on a pinned worker (\<open>pty.rs\<close>), one input per turn of a loop.

  \<^bold>\<open>The worker\<close> (\<open>shiitake-worker/src\<close>).
  \<^item> \<open>WorkerShell\<close>: the filter that finds the completion marker in the output of the shell, equal to a
    reference that sees all output at once, for every chunking; the typed line and its quoting; the
    snapshot of the shell state.
  \<^item> \<open>WorkerSession\<close>: the scheduler \<open>run_session\<close>, one function per branch of its \<open>select!\<close>, and the
    watcher of a stateful command.
  \<^item> \<open>WorkerJobs\<close>: the tasks beside the shell: following an output file, running a parallel command between two
    tails, setting up the files of a stateful one and abandoning it.
  \<^item> \<open>WorkerCommand\<close>, \<open>WorkerLoop\<close>: the legacy work, the handshake, and the four phases wait, run, reset,
    report inside the reconnect loop.
  \<^item> \<open>Account\<close> (\<open>account.rs\<close>), \<open>Reset\<close> (\<open>reset.rs\<close>), \<open>Exec\<close> (\<open>exec.rs\<close>, \<open>cgroup.rs\<close>, \<open>pty.rs\<close>): naming the
    identity of a session and undoing it, the scrubbing of the sandbox, and what a child does between
    fork and exec.  The answers of the system are arguments.

  \<^bold>\<open>Both sides.\<close>
  \<^item> \<open>RustClient\<close> (\<open>clients/shiitake-rs/src/client.rs\<close>): the client library, composed with the router.  What the HTTP
    libraries make of a URL and a body on the way is an argument, of which it is supposed that paths of unreserved
    characters without dot segments arrive as they are.
  \<^item> \<open>Deployment\<close>: server and worker joining, a worker handed back, a worker lost.
  \<^item> \<open>EndToEnd\<close>, \<open>Terminals\<close>: every stage that bytes pass is a loop that gives on what it takes (the locale
    \<open>relay\<close>, interpreted on the loop of the session host and on the read loop of the server), and the stages are
    composed: the spools of a finished command hold its output as of a read that saw it over, and a terminal connects
    its client with the shell byte for byte.  What these two suppose of the rest of the pool, that nothing ends the
    command meanwhile, is shown of every step of the pool by \<open>streaming_until_ended\<close>.

  \<^bold>\<open>The processes.\<close>
  \<^item> \<open>Telemetry\<close> (\<open>telemetry.rs\<close>): which exporters are built, what is installed in which order, and its shutdown.
  \<^item> \<open>ServerMain\<close> (\<open>main.rs\<close>, \<open>serve.rs\<close>; the worker's \<open>main.rs\<close>): a start up to its end, with what it stands
    on when it serves; and the keepalive loop, whose ticker is an argument that is on time up to a slack and delays
    missed ticks, and whose pings take up to two seconds each, with the bound within which it gives up a silent worker.
  \<^item> \<open>Metrics\<close> (\<open>metrics.rs\<close> and the calls in the pool): the instruments, and that every run counts every
    command that ended once, under the cause it reports.

  \<^bold>\<open>Loops and bounds.\<close>  A loop over events takes the list of what it meets, so a run is finite and a script
  that ends early leaves the loop running, which is a value of its own (\<open>None\<close>, \<open>RoundStuck\<close>, the state
  \<open>Serving\<close>); every property of a trace therefore holds for every prefix of an unbounded run.  The loops
  over data recurse on the data, except for three with a bound that is enough: \<open>strip_n\<close> and \<open>words_n\<close> are
  given the length of the string, of which every step takes a character, and the probe its fifteen attempts.
  The sweep of the reset ends at the first round past its deadline.  The counters \<open>served\<close>, \<open>restart_after\<close>,
  sizes and identifiers keep their machine width.

  \<^bold>\<open>Not modelled.\<close>  An append to a spool is the write as the code hands it to the runtime: \<open>tokio::fs::File\<close>
  performs it later, and the code does not flush.  The parsers of the command line, of JSON and of socket
  addresses, the JSON of frames and bodies, HTTP and WebSocket framing, TLS, range requests on files, the
  Kubernetes client and the OpenTelemetry SDK (inside its providers and exporters, spans) are libraries.  The kernel's view
  of processes, files and terminals appears only as the answers the code reads.  The window size of a terminal
  and log lines are left out.  The Python client is outside this library.
\<close>

end
